(* ===== verification/Posting.thy ===== *)
theory Posting
  imports Prelude
begin

section \<open>The posting expression language\<close>

text \<open>
  \<open>packages/simetra/src/model/posting\<close>: the expressions of the movement constructor, their
  syntax tree (\<open>ast.ts\<close>), the tokenizer and the recursive-descent parser (\<open>parse.ts\<close>), and
  the walk over a tree (\<open>walk.ts\<close>). The parser object of the code holds an array of tokens
  and a position; here its state is the list of the tokens from the position on. The
  methods call each other, so each takes a fuel that one call spends; \<open>parse_fuel\<close> is
  enough (\<open>parse_expression_total\<close>).
\<close>

subsection \<open>Syntax tree\<close>

record span =
  s_start :: nat
  s_end :: nat

datatype binary_op = Add | Sub | Mul | Div | Eq | Ne | Lt | Le | Gt | Ge | And | Or

datatype field_base = Doc | Row

datatype unary_op = Neg | Not

datatype expr =
    Field field_base jstr span nat nat
  | Sum jstr jstr span span nat nat
  | Count jstr span nat nat
  | Number jstr nat nat
  | Str jstr nat nat
  | Boolean bool nat nat
  | Null nat nat
  | Unary unary_op expr nat nat
  | Binary binary_op expr expr nat nat

primrec e_start :: "expr \<Rightarrow> nat" where
  "e_start (Field b n fs s e) = s"
| "e_start (Sum sn fn ss fs s e) = s"
| "e_start (Count sn ss s e) = s"
| "e_start (Number v s e) = s"
| "e_start (Str v s e) = s"
| "e_start (Boolean v s e) = s"
| "e_start (Null s e) = s"
| "e_start (Unary p x s e) = s"
| "e_start (Binary p l r s e) = s"

primrec e_end :: "expr \<Rightarrow> nat" where
  "e_end (Field b n fs s e) = e"
| "e_end (Sum sn fn ss fs s e) = e"
| "e_end (Count sn ss s e) = e"
| "e_end (Number v s e) = e"
| "e_end (Str v s e) = e"
| "e_end (Boolean v s e) = e"
| "e_end (Null s e) = e"
| "e_end (Unary p x s e) = e"
| "e_end (Binary p l r s e) = e"

text \<open>\<open>{ ...inner, start, end }\<close>: the node with new bounds.\<close>

primrec rebound :: "nat \<Rightarrow> nat \<Rightarrow> expr \<Rightarrow> expr" where
  "rebound a z (Field b n fs s e) = Field b n fs a z"
| "rebound a z (Sum sn fn ss fs s e) = Sum sn fn ss fs a z"
| "rebound a z (Count sn ss s e) = Count sn ss a z"
| "rebound a z (Number v s e) = Number v a z"
| "rebound a z (Str v s e) = Str v a z"
| "rebound a z (Boolean v s e) = Boolean v a z"
| "rebound a z (Null s e) = Null a z"
| "rebound a z (Unary p x s e) = Unary p x a z"
| "rebound a z (Binary p l r s e) = Binary p l r a z"

lemma e_start_rebound [simp]: "e_start (rebound a z x) = a"
  by (cases x) auto

lemma e_end_rebound [simp]: "e_end (rebound a z x) = z"
  by (cases x) auto

text \<open>\<open>walkExpr\<close>: the nodes in the order the visitor sees them.\<close>

fun walk_expr :: "expr \<Rightarrow> expr list" where
  "walk_expr (Unary p x s e) = Unary p x s e # walk_expr x"
| "walk_expr (Binary p l r s e) = Binary p l r s e # walk_expr l @ walk_expr r"
| "walk_expr x = [x]"

datatype parse_result = ParseOk expr | ParseFail jstr nat | OutOfFuel

subsection \<open>Tokens\<close>

datatype token_kind = Ident | Num | String | Op | Eof

record token =
  kind :: token_kind
  ttext :: jstr
  tvalue :: jstr
  t_start :: nat
  t_end :: nat

definition tok :: "token_kind \<Rightarrow> jstr \<Rightarrow> nat \<Rightarrow> nat \<Rightarrow> token" where
  "tok k x s e = \<lparr>kind = k, ttext = x, tvalue = [], t_start = s, t_end = e\<rparr>"

type_synonym parse_error = "jstr \<times> nat"

definition ident_start :: "nat \<Rightarrow> bool" where
  "ident_start c \<longleftrightarrow> is_upper c \<or> is_lower c \<or> c = 95"

definition ident_part :: "nat \<Rightarrow> bool" where
  "ident_part c \<longleftrightarrow> is_upper c \<or> is_lower c \<or> is_digit c \<or> c = 95"

text \<open>
  The body of a string literal after its opening quote: the value, how many code units the
  loop consumed and the rest of the text; \<open>None\<close> is a literal that never closes.
\<close>

fun scan_string :: "jstr \<Rightarrow> (jstr \<times> nat \<times> jstr) option" where
  "scan_string [] = None"
| "scan_string (c # s) =
     (if c = 39 then
        (case s of
           d # s' \<Rightarrow>
             if d = 39 then map_option (\<lambda>(v, n, r). (39 # v, n + 2, r)) (scan_string s')
             else Some ([], 1, s)
         | [] \<Rightarrow> Some ([], 1, s))
      else map_option (\<lambda>(v, n, r). (c # v, n + 1, r)) (scan_string s))"

text \<open>The number token: digits, and a fraction only when a digit follows the point.\<close>

definition scan_number :: "jstr \<Rightarrow> jstr" where
  "scan_number s =
     (let ds = takeWhile is_digit s; r = dropWhile is_digit s
      in case r of
           p # d # r' \<Rightarrow> if p = 46 \<and> is_digit d then ds @ 46 # takeWhile is_digit (d # r') else ds
         | _ \<Rightarrow> ds)"

definition two_unit_ops :: "jstr list" where
  "two_unit_ops = [js ''!='', js ''<='', js ''>='']"

definition one_unit_ops :: jstr where
  "one_unit_ops = js ''+-*/=<>().,''"

definition unterminated :: jstr where
  "unterminated = js ''Unterminated string literal''"

definition unexpected :: "nat \<Rightarrow> jstr" where
  "unexpected c = js ''Unexpected character '' @ [34, c, 34]"

lemma scan_string_length: "scan_string s = Some (v, n, r) \<Longrightarrow> length s = n + length r \<and> 0 < n"
  by (induction s arbitrary: v n r rule: scan_string.induct)
    (force split: if_splits list.splits)+

lemma scan_number_digit [simp]: "is_digit c \<Longrightarrow> scan_number (c # s) \<noteq> []"
  by (auto simp: scan_number_def Let_def split: list.splits)

text \<open>\<open>tokenize\<close>: the loop over the text, \<open>i\<close> its index and the list the text from \<open>i\<close> on.\<close>

function tokenize_from :: "nat \<Rightarrow> jstr \<Rightarrow> parse_error + token list" where
  "tokenize_from i [] = Inr [tok Eof [] i i]"
| "tokenize_from i (c # s) =
     (if is_space c then tokenize_from (i + 1) s
      else if ident_start c then
        (let w = takeWhile ident_part (c # s); n = length w
         in bindE (tokenize_from (i + n) (drop n (c # s))) (\<lambda>ts. Inr (tok Ident w i (i + n) # ts)))
      else if is_digit c then
        (let w = scan_number (c # s); n = length w
         in bindE (tokenize_from (i + n) (drop n (c # s))) (\<lambda>ts. Inr (tok Num w i (i + n) # ts)))
      else if c = 39 then
        (case scan_string s of
           None \<Rightarrow> Inl (unterminated, i)
         | Some (v, n, r) \<Rightarrow>
             bindE (tokenize_from (i + n + 1) r) (\<lambda>ts.
               Inr ((tok String (take (n + 1) (c # s)) i (i + n + 1))\<lparr>tvalue := v\<rparr> # ts)))
      else if take 2 (c # s) \<in> set two_unit_ops then
        bindE (tokenize_from (i + 2) (drop 2 (c # s)))
          (\<lambda>ts. Inr (tok Op (take 2 (c # s)) i (i + 2) # ts))
      else if c \<in> set one_unit_ops then
        bindE (tokenize_from (i + 1) s) (\<lambda>ts. Inr (tok Op [c] i (i + 1) # ts))
      else Inl (unexpected c, i))"
  by pat_completeness auto

termination
  by (relation "measure (\<lambda>(i, s). length s)")
    (auto simp: ident_start_def ident_part_def dest: scan_string_length)

declare tokenize_from.simps(2) [simp del]

definition tokenize :: "jstr \<Rightarrow> parse_error + token list" where
  "tokenize t = tokenize_from 0 t"

subsection \<open>The parser\<close>

datatype outcome = Done expr "token list" | Fail jstr nat | NoFuel

definition bindP :: "outcome \<Rightarrow> (expr \<Rightarrow> token list \<Rightarrow> outcome) \<Rightarrow> outcome" where
  "bindP r f = (case r of Done e ts \<Rightarrow> f e ts | Fail m i \<Rightarrow> Fail m i | NoFuel \<Rightarrow> NoFuel)"

lemma bindP_simps [simp]:
  "bindP (Done e ts) f = f e ts" "bindP (Fail m i) f = Fail m i" "bindP NoFuel f = NoFuel"
  by (simp_all add: bindP_def)

lemma bindP_Done_iff: "bindP r f = Done e ts \<longleftrightarrow> (\<exists>x us. r = Done x us \<and> f x us = Done e ts)"
  by (cases r) auto

lemma bindP_NoFuel_iff: "bindP r f = NoFuel \<longleftrightarrow> r = NoFuel \<or> (\<exists>x us. r = Done x us \<and> f x us = NoFuel)"
  by (cases r) auto

definition current :: "token list \<Rightarrow> token" where
  "current ts = (case ts of [] \<Rightarrow> tok Eof [] 0 0 | t # _ \<Rightarrow> t)"

definition advance :: "token list \<Rightarrow> token list" where
  "advance ts = (if kind (current ts) \<noteq> Eof then tl ts else ts)"

definition is_keyword :: "token list \<Rightarrow> jstr \<Rightarrow> bool" where
  "is_keyword ts w \<longleftrightarrow> kind (current ts) = Ident \<and> to_lower (ttext (current ts)) = w"

definition is_op :: "token list \<Rightarrow> jstr \<Rightarrow> bool" where
  "is_op ts x \<longleftrightarrow> kind (current ts) = Op \<and> ttext (current ts) = x"

text \<open>The operator of a table that the current token is, if it is one of them.\<close>

definition op_in :: "(jstr \<times> binary_op) list \<Rightarrow> token list \<Rightarrow> binary_op option" where
  "op_in tbl ts = (if kind (current ts) = Op then map_of tbl (ttext (current ts)) else None)"

definition comparison_ops :: "(jstr \<times> binary_op) list" where
  "comparison_ops =
     [(js ''='', Eq), (js ''!='', Ne), (js ''<'', Lt), (js ''<='', Le), (js ''>'', Gt), (js ''>='', Ge)]"

definition additive_ops :: "(jstr \<times> binary_op) list" where
  "additive_ops = [(js ''+'', Add), (js ''-'', Sub)]"

definition multiplicative_ops :: "(jstr \<times> binary_op) list" where
  "multiplicative_ops = [(js ''*'', Mul), (js ''/'', Div)]"

definition quoted :: "jstr \<Rightarrow> jstr" where
  "quoted s = 34 # s @ [34]"

definition describe :: "token \<Rightarrow> jstr" where
  "describe t = (if kind t = Eof then js ''end of expression'' else quoted (ttext t))"

definition fail_message :: "token list \<Rightarrow> jstr \<Rightarrow> jstr" where
  "fail_message ts what = js ''Expected '' @ what @ js '', found '' @ describe (current ts)"

definition fail_expected :: "token list \<Rightarrow> jstr \<Rightarrow> parse_error" where
  "fail_expected ts what = (fail_message ts what, t_start (current ts))"

definition expect_op :: "jstr \<Rightarrow> token list \<Rightarrow> parse_error + token \<times> token list" where
  "expect_op x ts =
     (if \<not> is_op ts x then Inl (fail_expected ts (quoted x)) else Inr (current ts, advance ts))"

definition expect_ident :: "jstr \<Rightarrow> token list \<Rightarrow> parse_error + token \<times> token list" where
  "expect_ident what ts =
     (if kind (current ts) \<noteq> Ident then Inl (fail_expected ts what) else Inr (current ts, advance ts))"

definition span_of :: "token \<Rightarrow> span" where
  "span_of t = \<lparr>s_start = t_start t, s_end = t_end t\<rparr>"

definition binary :: "binary_op \<Rightarrow> expr \<Rightarrow> expr \<Rightarrow> expr" where
  "binary p l r = Binary p l r (e_start l) (e_end r)"

definition a_section :: jstr where
  "a_section = js ''a tabular section name''"

definition a_field :: jstr where
  "a_field = js ''a field name''"

definition unknown_ident :: "jstr \<Rightarrow> jstr" where
  "unknown_ident s =
     js ''Unknown identifier '' @ quoted s
       @ js ''; expected doc.<field>, row.<field>, sum(...) or count(...)''"

text \<open>\<open>parseWord\<close>: the current token is an identifier.\<close>

definition parse_word :: "token list \<Rightarrow> parse_error + expr \<times> token list" where
  "parse_word ts =
     (let t = current ts; w = to_lower (ttext t); us = advance ts
      in if w = js ''true'' \<or> w = js ''false'' then
           Inr (Boolean (w = js ''true'') (t_start t) (t_end t), us)
         else if w = js ''null'' then Inr (Null (t_start t) (t_end t), us)
         else if w = js ''sum'' then
           bindE (expect_op (js ''('') us) (\<lambda>(_, us).
           bindE (expect_ident a_section us) (\<lambda>(section, us).
           bindE (expect_op (js ''.'') us) (\<lambda>(_, us).
           bindE (expect_ident a_field us) (\<lambda>(field, us).
           bindE (expect_op (js '')'') us) (\<lambda>(close, us).
             Inr (Sum (ttext section) (ttext field) (span_of section) (span_of field)
                    (t_start t) (t_end close), us))))))
         else if w = js ''count'' then
           bindE (expect_op (js ''('') us) (\<lambda>(_, us).
           bindE (expect_ident a_section us) (\<lambda>(section, us).
           bindE (expect_op (js '')'') us) (\<lambda>(close, us).
             Inr (Count (ttext section) (span_of section) (t_start t) (t_end close), us))))
         else if w = js ''doc'' \<or> w = js ''row'' then
           bindE (expect_op (js ''.'') us) (\<lambda>(_, us).
           bindE (expect_ident a_field us) (\<lambda>(name, us).
             Inr (Field (if w = js ''doc'' then Doc else Row) (ttext name) (span_of name)
                    (t_start t) (t_end name), us)))
         else Inl (unknown_ident (ttext t), t_start t))"

definition of_sum :: "parse_error + expr \<times> token list \<Rightarrow> outcome" where
  "of_sum r = (case r of Inl (m, i) \<Rightarrow> Fail m i | Inr (e, ts) \<Rightarrow> Done e ts)"

text \<open>
  The levels of the grammar. Only \<open>parsePrimary\<close> goes back to the top (a parenthesis), so
  the methods below take that call as \<open>rec\<close>; \<open>parse_or\<close> ties the knot. A loop and a
  method that calls itself spend one unit of fuel per turn.
\<close>

definition parse_primary :: "(token list \<Rightarrow> outcome) \<Rightarrow> token list \<Rightarrow> outcome" where
  "parse_primary rec ts =
     (let t = current ts
      in if kind t = Num then Done (Number (ttext t) (t_start t) (t_end t)) (advance ts)
         else if kind t = String then Done (Str (tvalue t) (t_start t) (t_end t)) (advance ts)
         else if is_op ts (js ''('') then
           bindP (rec (advance ts)) (\<lambda>x us.
             case expect_op (js '')'') us of
               Inl (m, i) \<Rightarrow> Fail m i
             | Inr (close, vs) \<Rightarrow> Done (rebound (t_start t) (t_end close) x) vs)
         else if kind t = Ident then of_sum (parse_word ts)
         else of_sum (Inl (fail_expected ts (js ''an expression''))))"

fun parse_unary :: "(token list \<Rightarrow> outcome) \<Rightarrow> nat \<Rightarrow> token list \<Rightarrow> outcome" where
  "parse_unary rec 0 ts = NoFuel"
| "parse_unary rec (Suc n) ts =
     (if is_op ts (js ''-'')
      then bindP (parse_unary rec n (advance ts))
             (\<lambda>x. Done (Unary Neg x (t_start (current ts)) (e_end x)))
      else parse_primary rec ts)"

text \<open>\<open>while (isOp(..)) left = binary(op, left, next())\<close>, for one table of operators.\<close>

fun binary_loop ::
  "(token list \<Rightarrow> binary_op option) \<Rightarrow> (token list \<Rightarrow> outcome) \<Rightarrow> nat \<Rightarrow> expr \<Rightarrow> token list \<Rightarrow> outcome"
where
  "binary_loop op_at next 0 l ts = NoFuel"
| "binary_loop op_at next (Suc n) l ts =
     (case op_at ts of
        Some p \<Rightarrow> bindP (next (advance ts)) (\<lambda>r. binary_loop op_at next n (binary p l r))
      | None \<Rightarrow> Done l ts)"

definition parse_multiplicative :: "(token list \<Rightarrow> outcome) \<Rightarrow> nat \<Rightarrow> token list \<Rightarrow> outcome" where
  "parse_multiplicative rec n ts =
     bindP (parse_unary rec n ts) (binary_loop (op_in multiplicative_ops) (parse_unary rec n) n)"

definition parse_additive :: "(token list \<Rightarrow> outcome) \<Rightarrow> nat \<Rightarrow> token list \<Rightarrow> outcome" where
  "parse_additive rec n ts =
     bindP (parse_multiplicative rec n ts)
       (binary_loop (op_in additive_ops) (parse_multiplicative rec n) n)"

definition parse_comparison :: "(token list \<Rightarrow> outcome) \<Rightarrow> nat \<Rightarrow> token list \<Rightarrow> outcome" where
  "parse_comparison rec n ts =
     bindP (parse_additive rec n ts) (\<lambda>l us.
       case op_in comparison_ops us of
         Some p \<Rightarrow> bindP (parse_additive rec n (advance us)) (\<lambda>r. Done (binary p l r))
       | None \<Rightarrow> Done l us)"

fun parse_not :: "(token list \<Rightarrow> outcome) \<Rightarrow> nat \<Rightarrow> token list \<Rightarrow> outcome" where
  "parse_not rec 0 ts = NoFuel"
| "parse_not rec (Suc n) ts =
     (if is_keyword ts (js ''not'')
      then bindP (parse_not rec n (advance ts))
             (\<lambda>x. Done (Unary Not x (t_start (current ts)) (e_end x)))
      else parse_comparison rec (Suc n) ts)"

text \<open>The operator of a keyword token.\<close>

definition keyword_op :: "jstr \<Rightarrow> binary_op \<Rightarrow> token list \<Rightarrow> binary_op option" where
  "keyword_op w p ts = (if is_keyword ts w then Some p else None)"

definition parse_and :: "(token list \<Rightarrow> outcome) \<Rightarrow> nat \<Rightarrow> token list \<Rightarrow> outcome" where
  "parse_and rec n ts =
     bindP (parse_not rec n ts) (binary_loop (keyword_op (js ''and'') And) (parse_not rec n) n)"

fun parse_or :: "nat \<Rightarrow> token list \<Rightarrow> outcome" where
  "parse_or 0 ts = NoFuel"
| "parse_or (Suc n) ts =
     bindP (parse_and (parse_or n) n ts)
       (binary_loop (keyword_op (js ''or'') Or) (parse_and (parse_or n) n) n)"

definition parse_fuel :: "token list \<Rightarrow> nat" where
  "parse_fuel ts = length ts + 2"

text \<open>\<open>Parser.parse\<close>, then \<open>parseExpression\<close>.\<close>

definition parse_tokens :: "token list \<Rightarrow> parse_result" where
  "parse_tokens ts =
     (case parse_or (parse_fuel ts) ts of
        Done e us \<Rightarrow>
          if kind (current us) \<noteq> Eof
          then (case fail_expected us (js ''end of expression'') of (m, i) \<Rightarrow> ParseFail m i)
          else ParseOk e
      | Fail m i \<Rightarrow> ParseFail m i
      | NoFuel \<Rightarrow> OutOfFuel)"

definition parse_expression :: "jstr \<Rightarrow> parse_result" where
  "parse_expression t =
     (case tokenize t of Inl (m, i) \<Rightarrow> ParseFail m i | Inr ts \<Rightarrow> parse_tokens ts)"


subsection \<open>What every accepted expression satisfies: the grammar contract\<close>

text \<open>
  A relation between the tokens before, the node and the tokens after that is kept by every
  production of the grammar holds of every successful parse. The contract is proved once;
  the shrinking of the tokens, the spans and the lexical form below are its instances.
\<close>

locale grammar_contract =
  fixes R :: "token list \<Rightarrow> expr \<Rightarrow> token list \<Rightarrow> bool"
  assumes number: "kind (current ts) = Num \<Longrightarrow>
      R ts (Number (ttext (current ts)) (t_start (current ts)) (t_end (current ts))) (advance ts)"
    and str: "kind (current ts) = String \<Longrightarrow>
      R ts (Str (tvalue (current ts)) (t_start (current ts)) (t_end (current ts))) (advance ts)"
    and paren: "is_op ts (js ''('') \<Longrightarrow> R (advance ts) x us \<Longrightarrow> is_op us (js '')'') \<Longrightarrow>
      R ts (rebound (t_start (current ts)) (t_end (current us)) x) (advance us)"
    and word: "kind (current ts) = Ident \<Longrightarrow> parse_word ts = Inr (x, us) \<Longrightarrow> R ts x us"
    and prefix_op: "kind (current ts) \<noteq> Eof \<Longrightarrow> R (advance ts) x us \<Longrightarrow>
      R ts (Unary q x (t_start (current ts)) (e_end x)) us"
    and infix_op: "R ts l us \<Longrightarrow> kind (current us) \<noteq> Eof \<Longrightarrow> R (advance us) r vs \<Longrightarrow>
      R ts (binary p l r) vs"
begin

definition sound :: "(token list \<Rightarrow> outcome) \<Rightarrow> bool" where
  "sound f \<longleftrightarrow> (\<forall>ts x us. f ts = Done x us \<longrightarrow> R ts x us)"

lemma soundI: "(\<And>ts x us. f ts = Done x us \<Longrightarrow> R ts x us) \<Longrightarrow> sound f"
  by (simp add: sound_def)

lemma soundD: "sound f \<Longrightarrow> f ts = Done x us \<Longrightarrow> R ts x us"
  by (simp add: sound_def)

lemma primary_sound: "sound rec \<Longrightarrow> sound (parse_primary rec)"
  by (rule soundI)
    (auto simp: parse_primary_def Let_def bindP_Done_iff expect_op_def of_sum_def
      number str split: if_splits sum.splits prod.splits dest: soundD word paren)

lemma unary_sound: "sound rec \<Longrightarrow> sound (parse_unary rec n)"
proof (induction n)
  case 0
  show ?case by (simp add: sound_def)
next
  case (Suc n)
  then show ?case
    using primary_sound [of rec]
    by (intro soundI) (auto simp: bindP_Done_iff is_op_def split: if_splits
        dest: soundD intro!: prefix_op)
qed

lemma loop_sound:
  assumes "sound next" "\<And>ts p. op_at ts = Some p \<Longrightarrow> kind (current ts) \<noteq> Eof"
  shows "R ts l us \<Longrightarrow> binary_loop op_at next n l us = Done x vs \<Longrightarrow> R ts x vs"
proof (induction n arbitrary: l us)
  case 0
  then show ?case by simp
next
  case (Suc n)
  then show ?case
    using assms by (force split: option.splits simp: bindP_Done_iff dest: soundD infix_op)
qed

lemma loop_level_sound:
  assumes "sound f" "\<And>ts p. op_at ts = Some p \<Longrightarrow> kind (current ts) \<noteq> Eof"
  shows "sound (\<lambda>ts. bindP (f ts) (binary_loop op_at f n))"
  using assms by (intro soundI) (auto simp: bindP_Done_iff dest: soundD intro: loop_sound)

lemma op_in_not_Eof: "op_in tbl ts = Some p \<Longrightarrow> kind (current ts) \<noteq> Eof"
  by (auto simp: op_in_def split: if_splits)

lemma keyword_op_not_Eof: "keyword_op w q ts = Some p \<Longrightarrow> kind (current ts) \<noteq> Eof"
  by (auto simp: keyword_op_def is_keyword_def split: if_splits)

lemma multiplicative_sound: "sound rec \<Longrightarrow> sound (parse_multiplicative rec n)"
  unfolding parse_multiplicative_def
  by (intro loop_level_sound unary_sound op_in_not_Eof)

lemma additive_sound: "sound rec \<Longrightarrow> sound (parse_additive rec n)"
  unfolding parse_additive_def
  by (intro loop_level_sound multiplicative_sound op_in_not_Eof)

lemma comparison_sound: "sound rec \<Longrightarrow> sound (parse_comparison rec n)"
  by (intro soundI) (auto simp: parse_comparison_def bindP_Done_iff split: option.splits
      intro: soundD [OF additive_sound]
        infix_op [OF soundD [OF additive_sound] op_in_not_Eof soundD [OF additive_sound]])

lemma not_sound: "sound rec \<Longrightarrow> sound (parse_not rec n)"
proof (induction n)
  case 0
  show ?case by (simp add: sound_def)
next
  case (Suc n)
  then show ?case
    using comparison_sound [of rec]
    by (intro soundI) (auto simp: bindP_Done_iff is_keyword_def split: if_splits
        dest: soundD intro!: prefix_op)
qed

lemma and_sound: "sound rec \<Longrightarrow> sound (parse_and rec n)"
  unfolding parse_and_def
  by (intro loop_level_sound not_sound keyword_op_not_Eof)

lemma or_sound: "sound (parse_or n)"
proof (induction n)
  case 0
  show ?case by (simp add: sound_def)
next
  case (Suc n)
  then show ?case
    by (simp del: parse_or.simps(1) add: parse_or.simps(2) [abs_def])
      (intro loop_level_sound and_sound keyword_op_not_Eof)
qed

lemma parse_or_R: "parse_or n ts = Done x us \<Longrightarrow> R ts x us"
  by (rule soundD [OF or_sound])

end

subsection \<open>The parser consumes its tokens and never runs out of fuel\<close>

definition shrinks :: "token list \<Rightarrow> expr \<Rightarrow> token list \<Rightarrow> bool" where
  "shrinks ts x us \<longleftrightarrow> length us < length ts"

lemma advance_shorter: "kind (current ts) \<noteq> Eof \<Longrightarrow> length (advance ts) < length ts"
  by (cases ts) (auto simp: advance_def current_def tok_def)

lemma length_advance: "length (advance ts) \<le> length ts"
  by (simp add: advance_def)

lemma expect_op_Inr: "expect_op x ts = Inr (t, us) \<longleftrightarrow> is_op ts x \<and> t = current ts \<and> us = advance ts"
  by (auto simp: expect_op_def)

lemma expect_ident_Inr:
  "expect_ident w ts = Inr (t, us) \<longleftrightarrow> kind (current ts) = Ident \<and> t = current ts \<and> us = advance ts"
  by (auto simp: expect_ident_def)

lemma parse_word_shorter:
  "kind (current ts) = Ident \<Longrightarrow> parse_word ts = Inr (x, us) \<Longrightarrow> length us < length ts"
  using advance_shorter [of ts] length_advance
  by (auto simp: parse_word_def Let_def bindE_eq_Inr expect_op_Inr expect_ident_Inr
      split: if_splits) (meson le_less_trans le_trans)+

interpretation shrink: grammar_contract shrinks
proof
  show "kind (current us) \<noteq> Eof \<Longrightarrow> shrinks ts l us \<Longrightarrow> shrinks (advance us) r vs \<Longrightarrow> shrinks ts (binary p l r) vs"
    for ts l us r vs p
    using advance_shorter [of us] by (simp add: shrinks_def)
  show "is_op ts (js ''('') \<Longrightarrow> shrinks (advance ts) x us \<Longrightarrow> is_op us (js '')'') \<Longrightarrow>
      shrinks ts (rebound (t_start (current ts)) (t_end (current us)) x) (advance us)" for ts x us
    using advance_shorter [of ts] length_advance [of us] by (simp add: shrinks_def is_op_def)
qed (auto simp: shrinks_def is_op_def advance_shorter dest: advance_shorter parse_word_shorter)


lemmas parse_or_shorter = shrink.parse_or_R [unfolded shrinks_def]

text \<open>Fuel: a level with enough for its tokens returns or rejects.\<close>

definition total_upto :: "nat \<Rightarrow> (token list \<Rightarrow> outcome) \<Rightarrow> bool" where
  "total_upto m f \<longleftrightarrow> (\<forall>ts. length ts \<le> m \<longrightarrow> f ts \<noteq> NoFuel)"

lemma of_sum_not_NoFuel [simp]: "of_sum r \<noteq> NoFuel"
  by (simp add: of_sum_def split: sum.splits prod.splits)

lemma total_primary: "total_upto m rec \<Longrightarrow> length ts \<le> Suc m \<Longrightarrow> parse_primary rec ts \<noteq> NoFuel"
  using advance_shorter [of ts]
  by (auto simp: total_upto_def parse_primary_def Let_def bindP_NoFuel_iff is_op_def
      split: sum.splits prod.splits)

lemma total_uptoI: "(\<And>ts. length ts \<le> m \<Longrightarrow> f ts \<noteq> NoFuel) \<Longrightarrow> total_upto m f"
  by (simp add: total_upto_def)

lemma total_uptoD: "total_upto m f \<Longrightarrow> length ts \<le> m \<Longrightarrow> f ts \<noteq> NoFuel"
  by (simp add: total_upto_def)

lemma total_unary:
  "total_upto m rec \<Longrightarrow> length ts \<le> Suc m \<Longrightarrow> length ts < n \<Longrightarrow> parse_unary rec n ts \<noteq> NoFuel"
proof (induction n arbitrary: ts)
  case 0
  then show ?case by simp
next
  case (Suc n)
  then show ?case
    using total_primary [of m rec ts] advance_shorter [of ts]
    by (auto simp: bindP_NoFuel_iff is_op_def)
qed

lemma total_loop:
  assumes "total_upto k next" "shrink.sound next"
    and "\<And>ts p. op_at ts = Some p \<Longrightarrow> kind (current ts) \<noteq> Eof"
  shows "length ts \<le> k \<Longrightarrow> length ts < n \<Longrightarrow> binary_loop op_at next n l ts \<noteq> NoFuel"
proof (induction n arbitrary: l ts)
  case 0
  then show ?case by simp
next
  case (Suc n)
  show ?case
  proof (cases "op_at ts")
    case None
    then show ?thesis by simp
  next
    case (Some p)
    then have adv: "length (advance ts) < length ts"
      using assms(3) advance_shorter by blast
    have "next (advance ts) \<noteq> NoFuel"
      using assms(1) adv Suc.prems by (simp add: total_upto_def)
    moreover have "binary_loop op_at next n (binary p l r) us \<noteq> NoFuel"
      if "next (advance ts) = Done r us" for r us
      using shrink.soundD [OF assms(2) that] adv Suc.prems
      by (intro Suc.IH) (auto simp: shrinks_def)
    ultimately show ?thesis using Some by (auto simp: bindP_NoFuel_iff)
  qed
qed

lemma total_loop_level:
  assumes "total_upto k f" "shrink.sound f" "k < n"
    and "\<And>ts p. op_at ts = Some p \<Longrightarrow> kind (current ts) \<noteq> Eof"
  shows "total_upto k (\<lambda>ts. bindP (f ts) (binary_loop op_at f n))"
proof (rule total_uptoI)
  fix ts :: "token list"
  assume k: "length ts \<le> k"
  have "binary_loop op_at f n x us \<noteq> NoFuel" if "f ts = Done x us" for x us
    using shrink.soundD [OF assms(2) that] k assms(3)
    by (intro total_loop [OF assms(1,2,4)]) (auto simp: shrinks_def)
  then show "bindP (f ts) (binary_loop op_at f n) \<noteq> NoFuel"
    using total_uptoD [OF assms(1) k] by (auto simp: bindP_NoFuel_iff)
qed

text \<open>
  The interface a parenthesis relies on: the call back to the top returns on every list of
  at most \<open>m\<close> tokens and consumes what it accepts.
\<close>

locale sized_subparser =
  fixes m :: nat and rec :: "token list \<Rightarrow> outcome"
  assumes rec_total: "total_upto m rec" and rec_sound: "shrink.sound rec"
begin

lemma total_multiplicative: "k \<le> Suc m \<Longrightarrow> k < n \<Longrightarrow> total_upto k (parse_multiplicative rec n)"
  unfolding parse_multiplicative_def
  by (intro total_loop_level shrink.unary_sound rec_sound shrink.op_in_not_Eof total_uptoI
      total_unary [OF rec_total]) auto

lemma total_additive: "k \<le> Suc m \<Longrightarrow> k < n \<Longrightarrow> total_upto k (parse_additive rec n)"
  unfolding parse_additive_def
  by (intro total_loop_level shrink.multiplicative_sound rec_sound shrink.op_in_not_Eof
      total_multiplicative)

lemma total_comparison:
  assumes "length ts \<le> Suc m" "length ts < n"
  shows "parse_comparison rec n ts \<noteq> NoFuel"
proof -
  have a: "total_upto (length ts) (parse_additive rec n)"
    using assms by (intro total_additive)
  have "parse_additive rec n (advance us) \<noteq> NoFuel" if "parse_additive rec n ts = Done x us" for x us
    using shrink.soundD [OF shrink.additive_sound [OF rec_sound] that] length_advance [of us]
    by (intro total_uptoD [OF a]) (simp add: shrinks_def)
  then show ?thesis
    using total_uptoD [OF a, of ts]
    by (auto simp: parse_comparison_def bindP_NoFuel_iff split: option.splits)
qed

lemma total_not: "length ts \<le> Suc m \<Longrightarrow> length ts < n \<Longrightarrow> parse_not rec n ts \<noteq> NoFuel"
proof (induction n arbitrary: ts)
  case 0
  then show ?case by simp
next
  case (Suc n)
  then show ?case
    using total_comparison [of ts "Suc n"] advance_shorter [of ts]
    by (auto simp: bindP_NoFuel_iff is_keyword_def)
qed

lemma total_and: "k \<le> Suc m \<Longrightarrow> k < n \<Longrightarrow> total_upto k (parse_and rec n)"
  unfolding parse_and_def
  by (intro total_loop_level shrink.not_sound rec_sound shrink.keyword_op_not_Eof total_uptoI
      total_not) auto

lemma total_or_level:
  "k \<le> Suc m \<Longrightarrow> k < n \<Longrightarrow>
   total_upto k (\<lambda>ts. bindP (parse_and rec n ts)
     (binary_loop (keyword_op (js ''or'') Or) (parse_and rec n) n))"
  by (intro total_loop_level total_and shrink.and_sound rec_sound shrink.keyword_op_not_Eof)

end

lemma parse_or_Nil: "parse_or 2 [] \<noteq> NoFuel"
  by (simp add: numeral_2_eq_2 parse_and_def parse_comparison_def parse_additive_def
      parse_multiplicative_def parse_primary_def current_def tok_def is_op_def is_keyword_def
      of_sum_def fail_expected_def)

lemma total_or: "total_upto m (parse_or (m + 2))"
proof (induction m)
  case 0
  show ?case
    using parse_or_Nil by (intro total_uptoI) (simp add: numeral_2_eq_2 del: parse_or.simps)
next
  case (Suc m)
  then have "sized_subparser m (parse_or (m + 2))"
    using shrink.or_sound by (simp add: sized_subparser_def del: parse_or.simps)
  from sized_subparser.total_or_level [OF this, of "Suc m" "m + 2"]
  show ?case by (simp add: parse_or.simps(2) [abs_def])
qed

interpretation sub: sized_subparser m "parse_or (m + 2)" for m
  by unfold_locales (rule total_or, rule shrink.or_sound)



subsection \<open>Offsets point into the text\<close>

definition slice :: "jstr \<Rightarrow> nat \<Rightarrow> nat \<Rightarrow> jstr" where
  "slice t a b = take (b - a) (drop a t)"

fun tokens_at :: "jstr \<Rightarrow> nat \<Rightarrow> token list \<Rightarrow> bool" where
  "tokens_at t lo [] \<longleftrightarrow> True"
| "tokens_at t lo (k # ts) \<longleftrightarrow>
     lo \<le> t_start k \<and> t_start k \<le> t_end k \<and> t_end k \<le> length t
     \<and> slice t (t_start k) (t_end k) = ttext k \<and> (kind k \<noteq> Eof \<longrightarrow> t_start k < t_end k)
     \<and> tokens_at t (t_end k) ts"

lemma tokens_at_weaken: "tokens_at t lo ts \<Longrightarrow> lo' \<le> lo \<Longrightarrow> tokens_at t lo' ts"
  by (cases ts) auto

lemma scan_string_rest:
  "scan_string s = Some (v, n, r) \<Longrightarrow> 0 < n \<and> n \<le> length s \<and> r = drop n s"
  by (induction s arbitrary: v n r rule: scan_string.induct)
    (fastforce split: if_splits list.splits)+

lemma scan_number_append: "\<exists>r. s = scan_number s @ r"
proof (cases "dropWhile is_digit s")
  case Nil
  then show ?thesis
    using takeWhile_dropWhile_id [of is_digit s]
    by (metis (no_types, lifting) append_Nil2 list.simps(4) scan_number_def)
next
  case (Cons p r)
  then have s: "s = takeWhile is_digit s @ p # r"
    by (metis takeWhile_dropWhile_id)
  show ?thesis
  proof (cases "\<exists>d r'. r = d # r' \<and> p = 46 \<and> is_digit d")
    case True
    then obtain d r' where r: "r = d # r'" "p = 46" "is_digit d" by blast
    then have n: "scan_number s = takeWhile is_digit s @ 46 # takeWhile is_digit (d # r')"
      using Cons by (simp add: scan_number_def)
    have "s = scan_number s @ dropWhile is_digit (d # r')"
      by (subst (1) s, subst n) (simp add: r)
    then show ?thesis by blast
  next
    case False
    then have "scan_number s = takeWhile is_digit s"
      using Cons by (auto simp: scan_number_def Let_def split: list.splits)
    then show ?thesis using s by metis
  qed
qed

lemma scan_number_take: "take (length (scan_number s)) s = scan_number s"
  by (metis append_eq_conv_conj scan_number_append)

lemma takeWhile_take: "take (length (takeWhile P xs)) xs = takeWhile P xs"
  by (metis append_eq_conv_conj takeWhile_dropWhile_id)

lemma drop_more: "drop i t = s \<Longrightarrow> drop (i + n) t = drop n s"
  by (metis add.commute drop_drop)

lemma tokens_at_step:
  assumes "tokens_at t (i + n) us" "drop i t = s" "0 < n" "n \<le> length s"
    and "ttext k = take n s" "t_start k = i" "t_end k = i + n"
  shows "tokens_at t i (k # us)"
proof -
  have "i + n \<le> length t" using assms(3,4) arg_cong [OF assms(2), of length] by simp
  then show ?thesis using assms by (simp add: slice_def)
qed

lemma tokens_at_tokenize_from:
  "tokenize_from i s = Inr ts \<Longrightarrow> drop i t = s \<Longrightarrow> i \<le> length t \<Longrightarrow> tokens_at t i ts"
proof (induction i s arbitrary: ts rule: tokenize_from.induct)
  case (1 i)
  then show ?case by (auto simp: tok_def slice_def)
next
  case (2 i c s)
  note unfold = tokenize_from.simps(2) [of i c s]
  note at = \<open>drop i t = c # s\<close>
  note res = \<open>tokenize_from i (c # s) = Inr ts\<close>
  have len: "i + n \<le> length t" if "n \<le> length (c # s)" for n
    using that arg_cong [OF at, of length] by simp
  note step = tokens_at_step [OF _ at]
  consider "is_space c" | "\<not> is_space c" "ident_start c"
    | "\<not> is_space c" "\<not> ident_start c" "is_digit c"
    | "\<not> is_space c" "\<not> ident_start c" "\<not> is_digit c" "c = 39"
    | "\<not> is_space c" "\<not> ident_start c" "\<not> is_digit c" "c \<noteq> 39" by blast
  then show ?case
  proof cases
    case 1
    then have "tokens_at t (i + 1) ts"
      using "2.IH"(1) [OF 1, of ts] drop_more [OF at, of 1] len [of 1] res by (simp add: unfold)
    then show ?thesis by (rule tokens_at_weaken) simp
  next
    case 2
    let ?w = "takeWhile ident_part (c # s)"
    have w: "?w \<noteq> []" "take (length ?w) (c # s) = ?w" "length ?w \<le> length (c # s)"
      using 2 takeWhile_take [of ident_part "c # s"] length_takeWhile_le [of ident_part "c # s"]
      by (auto simp: ident_start_def ident_part_def)
    obtain us where us: "tokenize_from (i + length ?w) (drop (length ?w) (c # s)) = Inr us"
      and ts: "ts = tok Ident ?w i (i + length ?w) # us"
      using res 2 by (auto simp: unfold Let_def bindE_eq_Inr simp del: takeWhile.simps)
    have "tokens_at t (i + length ?w) us"
      using "2.IH"(2) [OF 2 refl refl us drop_more [OF at] len [OF w(3)]] .
    then show ?thesis
      unfolding ts using w by (intro step) (auto simp: tok_def simp del: takeWhile.simps)
  next
    case 3
    let ?w = "scan_number (c # s)"
    have w: "?w \<noteq> []" "take (length ?w) (c # s) = ?w" "length ?w \<le> length (c # s)"
      using 3 scan_number_take [of "c # s"] scan_number_append [of "c # s"]
      by (auto, metis length_append le_add1 length_Cons)
    obtain us where us: "tokenize_from (i + length ?w) (drop (length ?w) (c # s)) = Inr us"
      and ts: "ts = tok Num ?w i (i + length ?w) # us"
      using res 3 by (auto simp: unfold Let_def bindE_eq_Inr)
    have "tokens_at t (i + length ?w) us"
      using "2.IH"(3) [OF 3 refl refl us drop_more [OF at] len [OF w(3)]] .
    then show ?thesis
      unfolding ts using w by (intro step) (auto simp: tok_def)
  next
    case 4
    then obtain v n r us where sc: "scan_string s = Some (v, n, r)"
      and us: "tokenize_from (i + n + 1) r = Inr us"
      and ts: "ts = (tok String (take (n + 1) (c # s)) i (i + n + 1))\<lparr>tvalue := v\<rparr> # us"
      using res by (auto simp: tokenize_from.simps(2) bindE_eq_Inr split: option.splits)
    have n: "0 < n" "n \<le> length s" "r = drop n s"
      using scan_string_rest [OF sc] by auto
    have "tokens_at t (i + n + 1) us"
      using "2.IH"(4) [OF 4 sc refl refl us] n drop_more [OF at, of "n + 1"] len [of "n + 1"]
      by simp
    then show ?thesis
      unfolding ts using n by (intro step [where n = "n + 1"]) (auto simp: tok_def)
  next
    case 5
    show ?thesis
    proof (cases "take 2 (c # s) \<in> set two_unit_ops")
      case True
      then have l: "2 \<le> length (c # s)" by (cases s) (auto simp: two_unit_ops_def js_def)
      obtain us where us: "tokenize_from (i + 2) (drop 2 (c # s)) = Inr us"
        and ts: "ts = tok Op (take 2 (c # s)) i (i + 2) # us"
        using res 5 True by (auto simp: unfold bindE_eq_Inr)
      have "tokens_at t (i + 2) us"
        using "2.IH"(5) [OF 5 True us drop_more [OF at] len [OF l]] .
      then show ?thesis
        unfolding ts using l by (intro step) (auto simp: tok_def)
    next
      case False
      then obtain us where us: "tokenize_from (i + 1) s = Inr us"
        and ts: "ts = tok Op [c] i (i + 1) # us"
        using res 5 by (auto simp: unfold bindE_eq_Inr split: if_splits)
      have "tokens_at t (i + 1) us"
        using "2.IH"(6) [OF 5 False _ us] res 5 False drop_more [OF at, of 1] len [of 1]
        by (auto simp: unfold split: if_splits)
      then show ?thesis
        unfolding ts by (intro step [where n = 1]) (auto simp: tok_def)
    qed
  qed
qed


text \<open>
  A node is placed in the text: its bounds are in order, the nodes below it and the name
  tokens it records lie inside, and each recorded span is exactly the name in the text.
\<close>

definition name_at :: "jstr \<Rightarrow> jstr \<Rightarrow> span \<Rightarrow> nat \<Rightarrow> nat \<Rightarrow> bool" where
  "name_at t n sp s e \<longleftrightarrow>
     s \<le> s_start sp \<and> s_start sp < s_end sp \<and> s_end sp \<le> e \<and> slice t (s_start sp) (s_end sp) = n"

fun node_ok :: "jstr \<Rightarrow> expr \<Rightarrow> bool" where
  "node_ok t (Field b n fs s e) \<longleftrightarrow> s < e \<and> name_at t n fs s e"
| "node_ok t (Sum sn fn ss fs s e) \<longleftrightarrow>
     s < e \<and> name_at t sn ss s e \<and> name_at t fn fs s e \<and> s_end ss \<le> s_start fs"
| "node_ok t (Count sn ss s e) \<longleftrightarrow> s < e \<and> name_at t sn ss s e"
| "node_ok t (Unary p x s e) \<longleftrightarrow> s < e \<and> s \<le> e_start x \<and> e_end x \<le> e \<and> node_ok t x"
| "node_ok t (Binary p l r s e) \<longleftrightarrow>
     s < e \<and> s \<le> e_start l \<and> e_end l \<le> e_start r \<and> e_end r \<le> e \<and> node_ok t l \<and> node_ok t r"
| "node_ok t x \<longleftrightarrow> e_start x < e_end x"

lemma node_ok_bounds: "node_ok t x \<Longrightarrow> e_start x < e_end x"
  by (cases x) auto

lemma node_ok_rebound:
  "node_ok t x \<Longrightarrow> a \<le> e_start x \<Longrightarrow> e_end x \<le> z \<Longrightarrow> node_ok t (rebound a z x)"
  by (cases x) (auto simp: name_at_def)

definition placed :: "jstr \<Rightarrow> token list \<Rightarrow> expr \<Rightarrow> token list \<Rightarrow> bool" where
  "placed t ts x us \<longleftrightarrow>
     (\<forall>lo. tokens_at t lo ts \<longrightarrow>
        node_ok t x \<and> lo \<le> e_start x \<and> e_end x \<le> length t \<and> tokens_at t (e_end x) us)"

lemma tokens_at_advance:
  assumes "kind (current ts) \<noteq> Eof" "tokens_at t lo ts"
  shows "lo \<le> t_start (current ts)" "t_start (current ts) < t_end (current ts)"
    "t_end (current ts) \<le> length t"
    "slice t (t_start (current ts)) (t_end (current ts)) = ttext (current ts)"
    "tokens_at t (t_end (current ts)) (advance ts)"
  using assms by (cases ts; simp add: advance_def current_def tok_def)+

lemma expect_op_Cons:
  "expect_op x ts = Inr (k, us) \<longleftrightarrow> ts = k # us \<and> kind k = Op \<and> ttext k = x"
  by (cases ts) (auto simp: expect_op_def is_op_def advance_def current_def tok_def)

lemma expect_ident_Cons:
  "expect_ident w ts = Inr (k, us) \<longleftrightarrow> ts = k # us \<and> kind k = Ident"
  by (cases ts) (auto simp: expect_ident_def advance_def current_def tok_def)

lemma current_Cons: "kind (current ts) \<noteq> Eof \<Longrightarrow> ts = current ts # advance ts"
  by (cases ts) (auto simp: advance_def current_def tok_def)

lemma placed_word:
  assumes "kind (current ts) = Ident" "parse_word ts = Inr (x, us)"
  shows "placed t ts x us"
proof -
  obtain k vs where ts: "ts = k # vs" "kind k = Ident" "current ts = k" "advance ts = vs"
    using assms(1) current_Cons [of ts] by (cases ts) (auto simp: current_def tok_def advance_def)
  then show ?thesis
    using assms(2)
    by (auto simp: placed_def parse_word_def Let_def bindE_eq_Inr expect_op_Cons expect_ident_Cons
        name_at_def span_of_def split: if_splits)
qed

interpretation place: grammar_contract "placed t" for t
proof
  fix ts us x p q l r vs
  show "kind (current ts) = Num \<Longrightarrow>
      placed t ts (Number (ttext (current ts)) (t_start (current ts)) (t_end (current ts))) (advance ts)"
    by (auto simp: placed_def intro: tokens_at_advance)
  show "kind (current ts) = String \<Longrightarrow>
      placed t ts (Str (tvalue (current ts)) (t_start (current ts)) (t_end (current ts))) (advance ts)"
    by (auto simp: placed_def intro: tokens_at_advance)
  show "kind (current ts) = Ident \<Longrightarrow> parse_word ts = Inr (x, us) \<Longrightarrow> placed t ts x us"
    by (rule placed_word)
  show "is_op ts (js ''('') \<Longrightarrow> placed t (advance ts) x us \<Longrightarrow> is_op us (js '')'') \<Longrightarrow>
      placed t ts (rebound (t_start (current ts)) (t_end (current us)) x) (advance us)"
    unfolding placed_def
  proof (intro allI impI)
    fix lo
    assume op: "is_op ts (js ''('')" "is_op us (js '')'')" and at: "tokens_at t lo ts"
      and IH: "\<forall>lo. tokens_at t lo (advance ts) \<longrightarrow>
        node_ok t x \<and> lo \<le> e_start x \<and> e_end x \<le> length t \<and> tokens_at t (e_end x) us"
    have k: "kind (current ts) \<noteq> Eof" "kind (current us) \<noteq> Eof"
      using op by (auto simp: is_op_def)
    note a = tokens_at_advance [OF k(1) at]
    note x = IH [rule_format, OF a(5)]
    note z = tokens_at_advance [OF k(2), of t "e_end x"]
    show "node_ok t (rebound (t_start (current ts)) (t_end (current us)) x) \<and>
        lo \<le> e_start (rebound (t_start (current ts)) (t_end (current us)) x) \<and>
        e_end (rebound (t_start (current ts)) (t_end (current us)) x) \<le> length t \<and>
        tokens_at t (e_end (rebound (t_start (current ts)) (t_end (current us)) x)) (advance us)"
      using a x z by (auto intro!: node_ok_rebound)
  qed
  show "kind (current ts) \<noteq> Eof \<Longrightarrow> placed t (advance ts) x us \<Longrightarrow>
      placed t ts (Unary q x (t_start (current ts)) (e_end x)) us"
    unfolding placed_def
  proof (intro allI impI)
    fix lo
    assume k: "kind (current ts) \<noteq> Eof" and at: "tokens_at t lo ts"
      and IH: "\<forall>lo. tokens_at t lo (advance ts) \<longrightarrow>
        node_ok t x \<and> lo \<le> e_start x \<and> e_end x \<le> length t \<and> tokens_at t (e_end x) us"
    note a = tokens_at_advance [OF k at]
    note x = IH [rule_format, OF a(5)]
    show "node_ok t (Unary q x (t_start (current ts)) (e_end x)) \<and>
        lo \<le> e_start (Unary q x (t_start (current ts)) (e_end x)) \<and>
        e_end (Unary q x (t_start (current ts)) (e_end x)) \<le> length t \<and>
        tokens_at t (e_end (Unary q x (t_start (current ts)) (e_end x))) us"
      using a x node_ok_bounds [of t x] by simp
  qed
  show "placed t ts l us \<Longrightarrow> kind (current us) \<noteq> Eof \<Longrightarrow> placed t (advance us) r vs \<Longrightarrow>
      placed t ts (binary p l r) vs"
    unfolding placed_def binary_def
  proof (intro allI impI)
    fix lo
    assume k: "kind (current us) \<noteq> Eof" and at: "tokens_at t lo ts"
      and L: "\<forall>lo. tokens_at t lo ts \<longrightarrow>
        node_ok t l \<and> lo \<le> e_start l \<and> e_end l \<le> length t \<and> tokens_at t (e_end l) us"
      and R: "\<forall>lo. tokens_at t lo (advance us) \<longrightarrow>
        node_ok t r \<and> lo \<le> e_start r \<and> e_end r \<le> length t \<and> tokens_at t (e_end r) vs"
    note l = L [rule_format, OF at]
    note a = tokens_at_advance [OF k, of t "e_end l"]
    note r = R [rule_format, OF a(5)]
    show "node_ok t (Binary p l r (e_start l) (e_end r)) \<and>
        lo \<le> e_start (Binary p l r (e_start l) (e_end r)) \<and>
        e_end (Binary p l r (e_start l) (e_end r)) \<le> length t \<and>
        tokens_at t (e_end (Binary p l r (e_start l) (e_end r))) vs"
      using l a r node_ok_bounds [of t l] node_ok_bounds [of t r] by simp
  qed
qed

lemma parse_expression_ParseOk:
  assumes "parse_expression t = ParseOk x"
  obtains ts us where "tokenize_from 0 t = Inr ts" "parse_or (parse_fuel ts) ts = Done x us"
    "kind (current us) = Eof"
  using assms by (auto simp: parse_expression_def parse_tokens_def tokenize_def
      split: sum.splits outcome.splits prod.splits if_splits)

text \<open>
  C29. Every offset the parser reports is a place in the text: an accepted expression lies
  inside it, every node inside its parent, and the span recorded for a field, a tabular
  section or a summed field is exactly the occurrence of that name, which is what the rename
  cascade replaces.
\<close>

theorem parse_expression_placed:
  "parse_expression t = ParseOk x \<Longrightarrow> node_ok t x \<and> e_end x \<le> length t"
proof -
  assume "parse_expression t = ParseOk x"
  then obtain ts us where ts: "tokenize_from 0 t = Inr ts"
    and x: "parse_or (parse_fuel ts) ts = Done x us"
    by (rule parse_expression_ParseOk)
  have "tokens_at t 0 ts"
    using tokens_at_tokenize_from [OF ts, of t] by simp
  with place.parse_or_R [OF x, of t] show ?thesis
    by (auto simp: placed_def)
qed

lemma tokenize_example:
  "tokenize (js ''doc.a'') =
     Inr [tok Ident (js ''doc'') 0 3, tok Op (js ''.'') 3 4, tok Ident (js ''a'') 4 5, tok Eof [] 5 5]"
  by (simp add: tokenize_def js_def tokenize_from.simps is_space_def ident_start_def ident_part_def
      is_lower_def is_upper_def is_digit_def two_unit_ops_def one_unit_ops_def)
    (simp add: eval_nat_numeral)

lemma parse_example:
  "parse_expression (js ''doc.a'') = ParseOk (Field Doc (js ''a'') \<lparr>s_start = 4, s_end = 5\<rparr> 0 5)"
  unfolding parse_expression_def tokenize_example
  by (simp add: parse_tokens_def parse_fuel_def
      parse_and_def parse_comparison_def parse_additive_def parse_multiplicative_def
      parse_primary_def parse_word_def current_def advance_def is_op_def is_keyword_def op_in_def
      keyword_op_def tok_def expect_op_def expect_ident_def bindE_def of_sum_def span_of_def
      to_lower_def js_def lower_unit_def is_upper_def Let_def)

lemma parse_expression_placed_witness:
  "node_ok (js ''doc.a'') (Field Doc (js ''a'') \<lparr>s_start = 4, s_end = 5\<rparr> 0 5) \<and> 5 \<le> length (js ''doc.a'')"
  using parse_expression_placed [OF parse_example] by simp

subsection \<open>Walking a tree\<close>

lemma walk_expr_node_ok: "node_ok t x \<Longrightarrow> y \<in> set (walk_expr x) \<Longrightarrow> node_ok t y"
  by (induction x) auto

lemma walk_expr_inside:
  "node_ok t x \<Longrightarrow> y \<in> set (walk_expr x) \<Longrightarrow> e_start x \<le> e_start y \<and> e_end y \<le> e_end x"
proof (induction x)
  case (Binary p l r s e)
  then show ?case using node_ok_bounds [of t l] node_ok_bounds [of t r] by auto
qed auto


subsection \<open>Lexical form of an accepted expression\<close>

definition is_ident :: "jstr \<Rightarrow> bool" where
  "is_ident w \<longleftrightarrow> w \<noteq> [] \<and> ident_start (hd w) \<and> (\<forall>c \<in> set w. ident_part c)"

definition is_number :: "jstr \<Rightarrow> bool" where
  "is_number w \<longleftrightarrow> w \<noteq> [] \<and> is_digit (hd w) \<and> scan_number w = w"

definition token_lexical :: "token \<Rightarrow> bool" where
  "token_lexical k \<longleftrightarrow>
     (kind k = Ident \<longrightarrow> is_ident (ttext k)) \<and> (kind k = Num \<longrightarrow> is_number (ttext k))"

fun lexical :: "expr \<Rightarrow> bool" where
  "lexical (Field b n fs s e) \<longleftrightarrow> is_ident n"
| "lexical (Sum sn fn ss fs s e) \<longleftrightarrow> is_ident sn \<and> is_ident fn"
| "lexical (Count sn ss s e) \<longleftrightarrow> is_ident sn"
| "lexical (Number v s e) \<longleftrightarrow> is_number v"
| "lexical (Unary p x s e) \<longleftrightarrow> lexical x"
| "lexical (Binary p l r s e) \<longleftrightarrow> lexical l \<and> lexical r"
| "lexical x \<longleftrightarrow> True"

lemma lexical_rebound [simp]: "lexical (rebound a z x) = lexical x"
  by (cases x) auto

lemma scan_number_hd: "is_digit c \<Longrightarrow> hd (scan_number (c # s)) = c"
  by (metis append_is_Nil_conv hd_append2 list.sel(1) scan_number_append scan_number_digit)

lemma takeWhile_stop: "\<forall>c \<in> set ds. P c \<Longrightarrow> \<not> P d \<Longrightarrow> takeWhile P (ds @ d # r) = ds"
  by (induction ds) auto

lemma scan_number_all: "\<forall>c \<in> set ds. is_digit c \<Longrightarrow> scan_number ds = ds"
proof -
  assume "\<forall>c \<in> set ds. is_digit c"
  then have "takeWhile is_digit ds = ds" "dropWhile is_digit ds = []"
    by (auto simp: takeWhile_eq_all_conv)
  then show ?thesis by (simp only: scan_number_def Let_def list.case)
qed

lemma scan_number_shape:
  "(\<forall>c \<in> set (scan_number s). is_digit c) \<or>
   (\<exists>ds d r. scan_number s = ds @ 46 # d # r \<and> (\<forall>c \<in> set ds. is_digit c) \<and> is_digit d
      \<and> (\<forall>c \<in> set r. is_digit c))"
proof (cases "\<exists>d r. dropWhile is_digit s = 46 # d # r \<and> is_digit d")
  case True
  then obtain d r where "dropWhile is_digit s = 46 # d # r" "is_digit d" by blast
  then have "scan_number s = takeWhile is_digit s @ 46 # d # takeWhile is_digit r"
    by (simp add: scan_number_def)
  with \<open>is_digit d\<close> show ?thesis by (blast dest: set_takeWhileD)
next
  case False
  then have "scan_number s = takeWhile is_digit s"
    by (auto simp: scan_number_def Let_def split: list.splits)
  then show ?thesis by (auto dest: set_takeWhileD)
qed

lemma scan_number_fraction:
  assumes "\<forall>c \<in> set ds. is_digit c" "is_digit d" "\<forall>c \<in> set r. is_digit c"
  shows "scan_number (ds @ 46 # d # r) = ds @ 46 # d # r"
proof -
  have "\<not> is_digit 46" by (simp add: is_digit_def)
  then have "takeWhile is_digit (ds @ 46 # d # r) = ds"
    "dropWhile is_digit (ds @ 46 # d # r) = 46 # d # r"
    using assms(1) by (auto simp: takeWhile_stop dropWhile_append3 dropWhile_append2)
  moreover have "takeWhile is_digit (d # r) = d # r"
    using assms by simp
  ultimately show ?thesis
    using assms(2) by (simp add: scan_number_def Let_def del: takeWhile.simps)
qed

lemma scan_number_idem: "scan_number (scan_number s) = scan_number s"
  using scan_number_shape [of s] scan_number_all scan_number_fraction by metis

lemma tokenize_lexical: "tokenize_from i s = Inr ts \<Longrightarrow> \<forall>k \<in> set ts. token_lexical k"
proof (induction i s arbitrary: ts rule: tokenize_from.induct)
  case (1 i)
  then show ?case by (auto simp: tok_def token_lexical_def)
next
  case (2 i c s)
  have w: "is_ident (takeWhile ident_part (c # s))" if "ident_start c"
    using that set_takeWhileD [of _ ident_part "c # s"]
    by (auto simp: is_ident_def ident_start_def ident_part_def)
  have n: "is_number (scan_number (c # s))" if "is_digit c"
    using that by (simp add: is_number_def scan_number_hd scan_number_idem)
  note IH = "2.IH"
  have res: "tokenize_from i (c # s) = Inr ts" by fact
  show ?case
    using res IH w n
    by (simp add: tokenize_from.simps(2) Let_def del: takeWhile.simps split: if_splits option.splits)
      (fastforce simp: bindE_eq_Inr token_lexical_def tok_def)+
qed


definition lex_kept :: "token list \<Rightarrow> expr \<Rightarrow> token list \<Rightarrow> bool" where
  "lex_kept ts x us \<longleftrightarrow>
     ((\<forall>k \<in> set ts. token_lexical k) \<longrightarrow> lexical x \<and> (\<forall>k \<in> set us. token_lexical k))"

lemma set_advance: "set (advance ts) \<subseteq> set ts"
  by (cases ts) (auto simp: advance_def)

lemma lex_kept_word:
  assumes "kind (current ts) = Ident" "parse_word ts = Inr (x, us)"
  shows "lex_kept ts x us"
proof -
  obtain k vs where ts: "ts = k # vs" "kind k = Ident" "current ts = k" "advance ts = vs"
    using assms(1) by (cases ts) (auto simp: current_def tok_def advance_def)
  then show ?thesis
    using assms(2)
    by (auto simp: lex_kept_def parse_word_def Let_def bindE_eq_Inr expect_op_Cons
        expect_ident_Cons token_lexical_def split: if_splits)
qed

lemma current_lexical:
  "kind (current ts) = Num \<Longrightarrow> \<forall>k \<in> set ts. token_lexical k \<Longrightarrow> is_number (ttext (current ts))"
  by (cases ts) (auto simp: current_def tok_def token_lexical_def)

lemma advance_lexical:
  "\<forall>k \<in> set ts. token_lexical k \<Longrightarrow> \<forall>k \<in> set (advance ts). token_lexical k"
  using set_advance by blast

interpretation lex: grammar_contract lex_kept
proof
  fix ts us x p q l r vs
  show "kind (current ts) = Num \<Longrightarrow>
      lex_kept ts (Number (ttext (current ts)) (t_start (current ts)) (t_end (current ts))) (advance ts)"
    using current_lexical [of ts] advance_lexical [of ts] unfolding lex_kept_def lexical.simps by blast
  show "kind (current ts) = String \<Longrightarrow>
      lex_kept ts (Str (tvalue (current ts)) (t_start (current ts)) (t_end (current ts))) (advance ts)"
    using advance_lexical [of ts] unfolding lex_kept_def lexical.simps by blast
  show "kind (current ts) = Ident \<Longrightarrow> parse_word ts = Inr (x, us) \<Longrightarrow> lex_kept ts x us"
    by (rule lex_kept_word)
  show "lex_kept (advance ts) x us \<Longrightarrow>
      lex_kept ts (rebound (t_start (current ts)) (t_end (current us)) x) (advance us)"
    using advance_lexical [of ts] advance_lexical [of us] unfolding lex_kept_def lexical_rebound by blast
  show "lex_kept (advance ts) x us \<Longrightarrow>
      lex_kept ts (Unary q x (t_start (current ts)) (e_end x)) us"
    using advance_lexical [of ts] unfolding lex_kept_def lexical.simps by blast
  show "lex_kept ts l us \<Longrightarrow> lex_kept (advance us) r vs \<Longrightarrow> lex_kept ts (binary p l r) vs"
    using advance_lexical [of us] unfolding lex_kept_def binary_def lexical.simps by blast
qed

lemma parse_expression_lexical:
  assumes "parse_expression t = ParseOk x"
  shows "lexical x"
proof -
  obtain ts us where ts: "tokenize_from 0 t = Inr ts"
    and x: "parse_or (parse_fuel ts) ts = Done x us"
    using assms by (rule parse_expression_ParseOk)
  show ?thesis
    using lex.parse_or_R [OF x] tokenize_lexical [OF ts] by (simp add: lex_kept_def)
qed

end
