(* ===== verification/PostingRoundTrip.thy ===== *)
theory PostingRoundTrip
  imports Posting
begin

section \<open>Printing a posting expression and reading it back\<close>

text \<open>
  \<open>unparse\<close> writes a tree as text with every operator in parentheses. Reading that text
  gives the tree back, up to its offsets (\<open>strip\<close>): the grammar of \<open>parse.ts\<close> reaches
  every tree of \<open>ast.ts\<close>, and the text of an accepted expression means the same tree
  whichever way it was written.
\<close>

definition no_span :: span where
  "no_span = \<lparr>s_start = 0, s_end = 0\<rparr>"

primrec strip :: "expr \<Rightarrow> expr" where
  "strip (Field b n fs s e) = Field b n no_span 0 0"
| "strip (Sum sn fn ss fs s e) = Sum sn fn no_span no_span 0 0"
| "strip (Count sn ss s e) = Count sn no_span 0 0"
| "strip (Number v s e) = Number v 0 0"
| "strip (Str v s e) = Str v 0 0"
| "strip (Boolean v s e) = Boolean v 0 0"
| "strip (Null s e) = Null 0 0"
| "strip (Unary p x s e) = Unary p (strip x) 0 0"
| "strip (Binary p l r s e) = Binary p (strip l) (strip r) 0 0"

lemma strip_rebound [simp]: "strip (rebound a z x) = strip x"
  by (cases x) auto

lemma strip_binary [simp]: "strip (binary p l r) = Binary p (strip l) (strip r) 0 0"
  by (simp add: binary_def)

primrec op_text :: "binary_op \<Rightarrow> jstr" where
  "op_text Add = js ''+''"
| "op_text Sub = js ''-''"
| "op_text Mul = js ''*''"
| "op_text Div = js ''/''"
| "op_text Eq = js ''=''"
| "op_text Ne = js ''!=''"
| "op_text Lt = js ''<''"
| "op_text Le = js ''<=''"
| "op_text Gt = js ''>''"
| "op_text Ge = js ''>=''"
| "op_text And = js ''and''"
| "op_text Or = js ''or''"

definition op_kind :: "binary_op \<Rightarrow> token_kind" where
  "op_kind p = (if p = And \<or> p = Or then Ident else Op)"

definition base_text :: "field_base \<Rightarrow> jstr" where
  "base_text b = (case b of Doc \<Rightarrow> js ''doc'' | Row \<Rightarrow> js ''row'')"

fun escape_quotes :: "jstr \<Rightarrow> jstr" where
  "escape_quotes [] = []"
| "escape_quotes (c # s) = (if c = 39 then 39 # 39 # escape_quotes s else c # escape_quotes s)"

definition string_text :: "jstr \<Rightarrow> jstr" where
  "string_text v = 39 # escape_quotes v @ [39]"

definition parens :: "jstr \<Rightarrow> jstr" where
  "parens s = js ''('' @ s @ js '')''"

primrec unparse :: "expr \<Rightarrow> jstr" where
  "unparse (Field b n fs s e) = base_text b @ js ''.'' @ n"
| "unparse (Sum sn fn ss fs s e) = js ''sum'' @ parens (sn @ js ''.'' @ fn)"
| "unparse (Count sn ss s e) = js ''count'' @ parens sn"
| "unparse (Number v s e) = v"
| "unparse (Str v s e) = string_text v"
| "unparse (Boolean v s e) = (if v then js ''true'' else js ''false'')"
| "unparse (Null s e) = js ''null''"
| "unparse (Unary p x s e) =
     parens ((case p of Neg \<Rightarrow> js ''-'' | Not \<Rightarrow> js ''not'' @ [32]) @ unparse x)"
| "unparse (Binary p l r s e) = parens (unparse l @ [32] @ op_text p @ [32] @ unparse r)"

subsection \<open>The tokens of a printed tree\<close>

type_synonym shape = "token_kind \<times> jstr \<times> jstr"

definition shape :: "token \<Rightarrow> shape" where
  "shape k = (kind k, ttext k, tvalue k)"

lemma shape_tok [simp]: "shape (tok k x s e) = (k, x, [])"
  by (simp add: shape_def tok_def)

definition op_tok :: "string \<Rightarrow> shape" where
  "op_tok s = (Op, js s, [])"

definition word_tok :: "jstr \<Rightarrow> shape" where
  "word_tok w = (Ident, w, [])"

primrec toks :: "expr \<Rightarrow> shape list" where
  "toks (Field b n fs s e) = [word_tok (base_text b), op_tok ''.'', word_tok n]"
| "toks (Sum sn fn ss fs s e) =
     [word_tok (js ''sum''), op_tok ''('', word_tok sn, op_tok ''.'', word_tok fn, op_tok '')'']"
| "toks (Count sn ss s e) = [word_tok (js ''count''), op_tok ''('', word_tok sn, op_tok '')'']"
| "toks (Number v s e) = [(Num, v, [])]"
| "toks (Str v s e) = [(String, string_text v, v)]"
| "toks (Boolean v s e) = [word_tok (if v then js ''true'' else js ''false'')]"
| "toks (Null s e) = [word_tok (js ''null'')]"
| "toks (Unary p x s e) =
     [op_tok ''('', (case p of Neg \<Rightarrow> op_tok ''-'' | Not \<Rightarrow> word_tok (js ''not''))]
       @ toks x @ [op_tok '')'']"
| "toks (Binary p l r s e) =
     op_tok ''('' # toks l @ (op_kind p, op_text p, []) # toks r @ [op_tok '')'']"

text \<open>
  \<open>lexes D s ks\<close>: the text \<open>s\<close> before anything that starts with a code unit of \<open>D\<close> is
  read as the tokens \<open>ks\<close>, and the tokenizer goes on after it.
\<close>

definition lexes :: "nat set \<Rightarrow> jstr \<Rightarrow> shape list \<Rightarrow> bool" where
  "lexes D s ks \<longleftrightarrow>
     (\<forall>i rest. (rest = [] \<or> hd rest \<in> D) \<longrightarrow>
        (\<exists>us. map shape us = ks \<and>
           tokenize_from i (s @ rest) =
             bindE (tokenize_from (i + length s) rest) (\<lambda>ts. Inr (us @ ts))))"

lemma lexes_append:
  assumes "lexes D s ks" "lexes D' s' ks'" "s' \<noteq> []" "hd s' \<in> D"
  shows "lexes D' (s @ s') (ks @ ks')"
  unfolding lexes_def
proof (intro allI impI)
  fix i rest
  assume "rest = [] \<or> hd rest \<in> D'"
  then obtain us' where us': "map shape us' = ks'"
    "tokenize_from (i + length s) (s' @ rest) =
       bindE (tokenize_from (i + length s + length s') rest) (\<lambda>ts. Inr (us' @ ts))"
    using assms(2) unfolding lexes_def by blast
  have "s' @ rest = [] \<or> hd (s' @ rest) \<in> D"
    using assms(3,4) by simp
  then obtain us where us: "map shape us = ks"
    "tokenize_from i (s @ s' @ rest) =
       bindE (tokenize_from (i + length s) (s' @ rest)) (\<lambda>ts. Inr (us @ ts))"
    using assms(1) unfolding lexes_def by blast
  have "bindE (bindE r (\<lambda>ts. Inr (us' @ ts))) (\<lambda>ts. Inr (us @ ts)) = bindE r (\<lambda>ts. Inr ((us @ us') @ ts))"
    for r :: "parse_error + token list"
    by (cases r) auto
  then show "\<exists>us. map shape us = ks @ ks' \<and>
      tokenize_from i ((s @ s') @ rest) =
        bindE (tokenize_from (i + length (s @ s')) rest) (\<lambda>ts. Inr (us @ ts))"
    using us us' by (intro exI [of _ "us @ us'"]) (simp add: add.assoc)
qed

lemma lexes_mono: "lexes D s ks \<Longrightarrow> D' \<subseteq> D \<Longrightarrow> lexes D' s ks"
  unfolding lexes_def by blast

lemma lexes_space: "lexes UNIV [32] []"
  by (auto simp: lexes_def tokenize_from.simps(2) is_space_def intro!: exI [of _ "[]"] split: sum.splits)
    (metis bindE_def sum.case_eq_if sum.collapse)

lemma lexes_one_unit:
  assumes "\<not> is_space c" "\<not> ident_start c" "\<not> is_digit c" "c \<noteq> 39" "c \<in> set one_unit_ops"
    and "\<And>d. d \<in> D \<Longrightarrow> [c, d] \<notin> set two_unit_ops"
  shows "lexes D [c] [(Op, [c], [])]"
  unfolding lexes_def
proof (intro allI impI)
  fix i rest
  assume "rest = [] \<or> hd rest \<in> D"
  then have "take 2 (c # rest) \<notin> set two_unit_ops"
    using assms(6) by (cases rest) (auto simp: two_unit_ops_def js_def)
  then show "\<exists>us. map shape us = [(Op, [c], [])] \<and>
      tokenize_from i ([c] @ rest) = bindE (tokenize_from (i + length [c]) rest) (\<lambda>ts. Inr (us @ ts))"
    using assms by (intro exI [of _ "[tok Op [c] i (i + 1)]"]) (simp add: tokenize_from.simps(2))
qed


text \<open>What may follow a word, and what may follow a number or a string.\<close>

definition after_word :: "nat set" where
  "after_word = {32, 40, 41, 46}"

definition after_value :: "nat set" where
  "after_value = {32, 41}"

lemma after_value_word: "after_value \<subseteq> after_word"
  by (auto simp: after_value_def after_word_def)

lemma takeWhile_before:
  "\<forall>c \<in> set w. P c \<Longrightarrow> rest = [] \<or> \<not> P (hd rest) \<Longrightarrow> takeWhile P (w @ rest) = w"
  by (cases rest) (auto simp: takeWhile_stop)

lemma lexes_ident:
  assumes "is_ident w"
  shows "lexes after_word w [word_tok w]"
  unfolding lexes_def
proof (intro allI impI)
  fix i rest
  assume d: "rest = [] \<or> hd rest \<in> after_word"
  obtain c v where w: "w = c # v" "ident_start c" "\<forall>c \<in> set w. ident_part c"
    using assms by (cases w) (auto simp: is_ident_def)
  have "\<not> is_space c"
    using w(2) by (auto simp: ident_start_def is_space_def is_upper_def is_lower_def)
  moreover have "takeWhile ident_part (w @ rest) = w"
    using d w(3) by (intro takeWhile_before)
      (auto simp: after_word_def ident_part_def is_upper_def is_lower_def is_digit_def)
  ultimately show "\<exists>us. map shape us = [word_tok w] \<and>
      tokenize_from i (w @ rest) = bindE (tokenize_from (i + length w) rest) (\<lambda>ts. Inr (us @ ts))"
    using w(1,2) by (intro exI [of _ "[tok Ident w i (i + length w)]"])
      (simp add: word_tok_def tokenize_from.simps(2) Let_def del: takeWhile.simps)
qed

lemma scan_number_before:
  assumes "scan_number w = w" "rest = [] \<or> hd rest \<in> after_value"
  shows "scan_number (w @ rest) = w"
proof -
  have rest: "rest = [] \<or> \<not> is_digit (hd rest) \<and> hd rest \<noteq> 46"
    using assms(2) by (auto simp: after_value_def is_digit_def)
  have dot: "\<not> is_digit 46" by (simp add: is_digit_def)
  from scan_number_shape [of w] assms(1)
  consider "\<forall>c \<in> set w. is_digit c"
    | ds d r where "w = ds @ 46 # d # r" "\<forall>c \<in> set ds. is_digit c" "is_digit d"
        "\<forall>c \<in> set r. is_digit c" by auto
  then show ?thesis
  proof cases
    case 1
    then have "takeWhile is_digit (w @ rest) = w" "dropWhile is_digit (w @ rest) = rest"
      using rest by (cases rest; auto simp: takeWhile_before dropWhile_append2)+
    then show ?thesis
      using rest by (auto simp: scan_number_def Let_def split: list.splits)
  next
    case 2
    then have "takeWhile is_digit (w @ rest) = ds" "dropWhile is_digit (w @ rest) = 46 # d # r @ rest"
      using dot by (auto simp: takeWhile_stop dropWhile_append2)
    moreover have "takeWhile is_digit (d # r @ rest) = d # r"
      using takeWhile_before [of "d # r" is_digit rest] 2 rest by auto
    ultimately show ?thesis
      using 2 by (simp add: scan_number_def Let_def del: takeWhile.simps)
  qed
qed

lemma lexes_number:
  assumes "is_number w"
  shows "lexes after_value w [(Num, w, [])]"
  unfolding lexes_def
proof (intro allI impI)
  fix i rest
  assume d: "rest = [] \<or> hd rest \<in> after_value"
  obtain c v where w: "w = c # v" "is_digit c"
    using assms by (cases w) (auto simp: is_number_def)
  have "\<not> is_space c" "\<not> ident_start c"
    using w(2) by (auto simp: ident_start_def is_space_def is_upper_def is_lower_def is_digit_def)
  moreover have "scan_number (w @ rest) = w"
    using assms d by (intro scan_number_before) (simp_all add: is_number_def)
  ultimately show "\<exists>us. map shape us = [(Num, w, [])] \<and>
      tokenize_from i (w @ rest) = bindE (tokenize_from (i + length w) rest) (\<lambda>ts. Inr (us @ ts))"
    using w by (intro exI [of _ "[tok Num w i (i + length w)]"])
      (simp add: tokenize_from.simps(2) Let_def)
qed

lemma scan_string_escape:
  "rest = [] \<or> hd rest \<noteq> 39 \<Longrightarrow>
   scan_string (escape_quotes v @ 39 # rest) = Some (v, length (escape_quotes v) + 1, rest)"
  by (induction v) (auto split: list.splits)

lemma lexes_string: "lexes after_value (string_text v) [(String, string_text v, v)]"
  unfolding lexes_def
proof (intro allI impI)
  fix i rest
  assume d: "rest = [] \<or> hd rest \<in> after_value"
  let ?n = "length (escape_quotes v)"
  have "scan_string (escape_quotes v @ 39 # rest) = Some (v, ?n + 1, rest)"
    using d by (intro scan_string_escape) (auto simp: after_value_def)
  moreover have "\<not> is_space 39" "\<not> ident_start 39" "\<not> is_digit 39"
    by (simp_all add: ident_start_def is_space_def is_upper_def is_lower_def is_digit_def)
  ultimately show "\<exists>us. map shape us = [(String, string_text v, v)] \<and>
      tokenize_from i (string_text v @ rest) =
        bindE (tokenize_from (i + length (string_text v)) rest) (\<lambda>ts. Inr (us @ ts))"
    by (intro exI [of _ "[(tok String (string_text v) i (i + length (string_text v)))\<lparr>tvalue := v\<rparr>]"])
      (simp add: tokenize_from.simps(2) string_text_def shape_def tok_def)
qed

lemma lexes_op_text: "lexes {32} (op_text p) [(op_kind p, op_text p, [])]"
proof -
  have two: "lexes {32} s [(Op, s, [])]" if op: "s \<in> set two_unit_ops" for s
    unfolding lexes_def
  proof (intro allI impI)
    fix i rest
    obtain c d where s: "s = [c, d]" using op by (auto simp: two_unit_ops_def js_def)
    have "\<not> is_space c" "\<not> ident_start c" "\<not> is_digit c" "c \<noteq> 39"
      using op s by (auto simp: two_unit_ops_def js_def is_space_def ident_start_def is_upper_def
          is_lower_def is_digit_def)
    then show "\<exists>us. map shape us = [(Op, s, [])] \<and>
        tokenize_from i (s @ rest) = bindE (tokenize_from (i + length s) rest) (\<lambda>ts. Inr (us @ ts))"
      using s op by (intro exI [of _ "[tok Op s i (i + 2)]"]) (simp add: tokenize_from.simps(2))
  qed
  have word: "lexes {32} w [word_tok w]" if "is_ident w" for w
    using lexes_ident [OF that] by (rule lexes_mono) (simp add: after_word_def)
  have one: "lexes {32} [c] [(Op, [c], [])]"
    if "c \<in> {42, 43, 45, 47, 60, 61, 62}" for c
    using that by (intro lexes_one_unit)
      (auto simp: two_unit_ops_def one_unit_ops_def js_def is_space_def ident_start_def
        is_upper_def is_lower_def is_digit_def)
  show ?thesis
    using two [of "op_text p"] word [of "op_text p"] one [of "hd (op_text p)"]
    by (cases p) (auto simp: two_unit_ops_def op_kind_def word_tok_def is_ident_def js_def
        ident_start_def ident_part_def is_lower_def)
qed

lemma lexes_open: "lexes UNIV (js ''('') [op_tok ''('']"
  and lexes_close: "lexes UNIV (js '')'') [op_tok '')'']"
  and lexes_dot: "lexes UNIV (js ''.'') [op_tok ''.'']"
  and lexes_minus: "lexes UNIV (js ''-'') [op_tok ''-'']"
  using lexes_one_unit [of 40 UNIV] lexes_one_unit [of 41 UNIV] lexes_one_unit [of 46 UNIV]
    lexes_one_unit [of 45 UNIV]
  by (simp_all add: two_unit_ops_def one_unit_ops_def js_def op_tok_def is_space_def
      ident_start_def is_upper_def is_lower_def is_digit_def)

lemma lexes_parens:
  assumes "lexes after_value s ks" "s \<noteq> []"
  shows "lexes UNIV (parens s) (op_tok ''('' # ks @ [op_tok '')''])"
proof -
  have "lexes UNIV (s @ js '')'') (ks @ [op_tok '')''])"
    using assms(1) lexes_close by (rule lexes_append) (simp_all add: js_def after_value_def)
  with lexes_open have "lexes UNIV (js ''('' @ s @ js '')'') ([op_tok ''(''] @ ks @ [op_tok '')''])"
    by (rule lexes_append) (simp_all add: assms)
  then show ?thesis by (simp add: parens_def)
qed


lemma is_ident_not_Nil: "is_ident w \<Longrightarrow> w \<noteq> []"
  by (simp add: is_ident_def)

lemma ident_hd: "is_ident w \<Longrightarrow> hd w \<notin> after_word"
  by (cases w) (auto simp: is_ident_def ident_start_def after_word_def is_upper_def is_lower_def)

lemma is_ident_base: "is_ident (base_text b)"
  by (cases b) (auto simp: base_text_def is_ident_def js_def ident_start_def ident_part_def is_lower_def)

lemma unparse_not_Nil: "lexical x \<Longrightarrow> unparse x \<noteq> []"
  by (cases x) (auto simp: is_number_def string_text_def parens_def js_def base_text_def)

lemma lexes_dotted:
  assumes "is_ident a" "is_ident b"
  shows "lexes after_word (a @ js ''.'' @ b) [word_tok a, op_tok ''.'', word_tok b]"
proof -
  have "lexes after_word (js ''.'' @ b) ([op_tok ''.''] @ [word_tok b])"
    using lexes_dot lexes_ident [OF assms(2)] by (rule lexes_append) (simp_all add: is_ident_not_Nil assms)
  with lexes_ident [OF assms(1)]
  have "lexes after_word (a @ js ''.'' @ b) ([word_tok a] @ [op_tok ''.''] @ [word_tok b])"
    by (rule lexes_append) (simp_all add: js_def after_word_def)
  then show ?thesis by simp
qed

lemma lexes_call:
  assumes "is_ident f" "lexes after_value s ks" "s \<noteq> []"
  shows "lexes after_value (f @ parens s) (word_tok f # op_tok ''('' # ks @ [op_tok '')''])"
  using lexes_append [OF lexes_ident [OF assms(1)] lexes_parens [OF assms(2,3)]]
  by (auto simp: parens_def js_def after_word_def intro: lexes_mono)

lemma lexes_operator:
  assumes "lexes D s ks" "s \<noteq> []"
  shows "lexes D ([32] @ op_text p @ [32] @ s) ((op_kind p, op_text p, []) # ks)"
proof -
  have "lexes D ([32] @ s) ([] @ ks)"
    using lexes_space assms by (rule lexes_append) simp
  with lexes_op_text have "lexes D (op_text p @ [32] @ s) ([(op_kind p, op_text p, [])] @ [] @ ks)"
    by (rule lexes_append) simp_all
  with lexes_space have "lexes D ([32] @ op_text p @ [32] @ s) ([] @ [(op_kind p, op_text p, [])] @ [] @ ks)"
    by (rule lexes_append) (cases p; simp add: js_def)+
  then show ?thesis by simp
qed

lemma lexes_word_value: "lexes after_word s ks \<Longrightarrow> lexes after_value s ks"
  by (erule lexes_mono) (rule after_value_word)

lemma lexes_unparse: "lexical x \<Longrightarrow> lexes after_value (unparse x) (toks x)"
proof (induction x)
  case (Field b n fs s e)
  then show ?case
    using lexes_dotted [OF is_ident_base, of n b] by (auto intro: lexes_word_value)
next
  case (Sum sn fn ss fs s e)
  have "lexes after_value (sn @ js ''.'' @ fn) [word_tok sn, op_tok ''.'', word_tok fn]"
    using lexes_dotted [of sn fn] Sum by (auto intro: lexes_word_value)
  from lexes_call [OF _ this, of "js ''sum''"] Sum show ?case
    by (auto simp: is_ident_def js_def ident_start_def ident_part_def is_lower_def)
next
  case (Count sn ss s e)
  have "lexes after_value sn [word_tok sn]"
    using lexes_ident [of sn] Count by (auto intro: lexes_word_value)
  from lexes_call [OF _ this, of "js ''count''"] Count show ?case
    by (auto simp: is_ident_def js_def ident_start_def ident_part_def is_lower_def)
next
  case (Number v s e)
  then show ?case by (simp add: lexes_number)
next
  case (Str v s e)
  then show ?case by (simp add: lexes_string)
next
  case (Boolean v s e)
  have "is_ident (js ''true'')" "is_ident (js ''false'')"
    by (auto simp: is_ident_def js_def ident_start_def ident_part_def is_lower_def)
  then show ?case
    using lexes_ident by (auto intro: lexes_word_value)
next
  case (Null s e)
  have "is_ident (js ''null'')"
    by (auto simp: is_ident_def js_def ident_start_def ident_part_def is_lower_def)
  then show ?case
    using lexes_ident by (auto intro: lexes_word_value)
next
  case (Unary p x s e)
  then have x: "lexes after_value (unparse x) (toks x)" "unparse x \<noteq> []"
    by (simp_all add: unparse_not_Nil)
  have "is_ident (js ''not'')"
    by (auto simp: is_ident_def js_def ident_start_def ident_part_def is_lower_def)
  then have n: "lexes after_word (js ''not'') [word_tok (js ''not'')]"
    by (rule lexes_ident)
  have sp: "lexes after_value ([32] @ unparse x) ([] @ toks x)"
    using lexes_space x by (rule lexes_append) simp
  have "lexes after_value ((case p of Neg \<Rightarrow> js ''-'' | Not \<Rightarrow> js ''not'' @ [32]) @ unparse x)
      ((case p of Neg \<Rightarrow> op_tok ''-'' | Not \<Rightarrow> word_tok (js ''not'')) # toks x)"
    using lexes_append [OF lexes_minus x] lexes_append [OF n sp] by (cases p) (auto simp: after_word_def)
  from lexes_parens [OF this] x(2) show ?case
    by (auto intro: lexes_mono)
next
  case (Binary p l r s e)
  then have l: "lexes after_value (unparse l) (toks l)" "unparse l \<noteq> []"
    and r: "lexes after_value (unparse r) (toks r)" "unparse r \<noteq> []"
    by (simp_all add: unparse_not_Nil)
  have "lexes after_value (unparse l @ [32] @ op_text p @ [32] @ unparse r)
      (toks l @ (op_kind p, op_text p, []) # toks r)"
    using l(1) lexes_operator [OF r] by (rule lexes_append) (simp_all add: after_value_def)
  from lexes_parens [OF this] l(2) show ?case
    by (auto intro: lexes_mono)
qed

lemma tokenize_unparse:
  assumes "lexical x"
  obtains ts where "tokenize (unparse x) = Inr ts" "map shape ts = toks x @ [(Eof, [], [])]"
proof -
  obtain us where "map shape us = toks x"
    "tokenize_from 0 (unparse x @ []) =
       bindE (tokenize_from (0 + length (unparse x)) []) (\<lambda>ts. Inr (us @ ts))"
    using lexes_unparse [OF assms] unfolding lexes_def by blast
  then show ?thesis
    by (intro that [of "us @ [tok Eof [] (length (unparse x)) (length (unparse x))]"])
      (simp_all add: tokenize_def)
qed


subsection \<open>Parsing the printed tokens\<close>

lemma shape_Cons:
  "map shape ts = (k, w, v) # ss \<longleftrightarrow>
     (\<exists>t us. ts = t # us \<and> kind t = k \<and> ttext t = w \<and> tvalue t = v \<and> map shape us = ss)"
  by (cases ts) (auto simp: shape_def)

lemma current_Cons_simp [simp]: "current (t # ts) = t"
  by (simp add: current_def)

lemma advance_Cons_simp [simp]: "kind t \<noteq> Eof \<Longrightarrow> advance (t # ts) = ts"
  by (simp add: advance_def)

lemma loop_stop: "op_at ts = None \<Longrightarrow> 0 < n \<Longrightarrow> binary_loop op_at f n l ts = Done l ts"
  by (cases n) auto

lemma loop_once:
  "op_at ts = Some p \<Longrightarrow> f (advance ts) = Done r us \<Longrightarrow> op_at us = None \<Longrightarrow> 1 < n \<Longrightarrow>
   binary_loop op_at f n l ts = Done (binary p l r) us"
  by (cases n) (auto simp: loop_stop)

text \<open>The token that ends an operand: an operator of no level below \<open>and\<close>, or the end.\<close>

definition closing :: "token list \<Rightarrow> bool" where
  "closing ts \<longleftrightarrow>
     (is_op ts (js '')'') \<or> kind (current ts) = Eof)"

lemma closing_ops [simp]:
  assumes "closing ts"
  shows "op_in multiplicative_ops ts = None" "op_in additive_ops ts = None"
    "op_in comparison_ops ts = None" "keyword_op (js ''and'') And ts = None"
    "keyword_op (js ''or'') Or ts = None"
  using assms
  by (auto simp: closing_def is_op_def op_in_def keyword_op_def is_keyword_def
      multiplicative_ops_def additive_ops_def comparison_ops_def)

text \<open>The first token of an operand that is neither a sign nor \<open>not\<close>.\<close>

definition plain_start :: "token list \<Rightarrow> bool" where
  "plain_start ts \<longleftrightarrow> \<not> is_op ts (js ''-'') \<and> \<not> is_keyword ts (js ''not'')"

lemma toks_plain_start: "map shape ts = toks x @ ss \<Longrightarrow> plain_start ts"
  by (cases x)
    (auto simp: shape_Cons plain_start_def is_op_def is_keyword_def word_tok_def op_tok_def
      base_text_def to_lower_def js_def lower_unit_def is_upper_def string_text_def
      split: field_base.splits if_splits)

lemma infix_tables:
  assumes "shape k = (op_kind p, op_text p, [])"
  shows "op_in multiplicative_ops (k # vs) = (if p \<in> {Mul, Div} then Some p else None)"
    and "op_in additive_ops (k # vs) = (if p \<in> {Add, Sub} then Some p else None)"
    and "op_in comparison_ops (k # vs) = (if p \<in> {Eq, Ne, Lt, Le, Gt, Ge} then Some p else None)"
    and "keyword_op (js ''and'') And (k # vs) = (if p = And then Some p else None)"
    and "keyword_op (js ''or'') Or (k # vs) = (if p = Or then Some p else None)"
  using assms
  by (cases p; auto simp: op_in_def keyword_op_def is_keyword_def multiplicative_ops_def
      additive_ops_def comparison_ops_def op_kind_def shape_def to_lower_def js_def
      lower_unit_def is_upper_def)+

text \<open>An operand read by \<open>parsePrimary\<close>, seen from each level of the grammar.\<close>

locale operand =
  fixes rec :: "token list \<Rightarrow> outcome" and n :: nat
  assumes fuel: "3 \<le> n"
begin

lemma unary_of_primary:
  "parse_primary rec ts = Done x us \<Longrightarrow> plain_start ts \<Longrightarrow> parse_unary rec n ts = Done x us"
  using fuel by (cases n) (auto simp: plain_start_def)

lemma multiplicative_of_unary:
  "parse_unary rec n ts = Done x us \<Longrightarrow> op_in multiplicative_ops us = None \<Longrightarrow>
   parse_multiplicative rec n ts = Done x us"
  using fuel by (simp add: parse_multiplicative_def loop_stop)

lemma additive_of_multiplicative:
  "parse_multiplicative rec n ts = Done x us \<Longrightarrow> op_in additive_ops us = None \<Longrightarrow>
   parse_additive rec n ts = Done x us"
  using fuel by (simp add: parse_additive_def loop_stop)

lemma comparison_of_additive:
  "parse_additive rec n ts = Done x us \<Longrightarrow> op_in comparison_ops us = None \<Longrightarrow>
   parse_comparison rec n ts = Done x us"
  using fuel by (simp add: parse_comparison_def)

lemma not_of_comparison:
  "parse_comparison rec n ts = Done x us \<Longrightarrow> \<not> is_keyword ts (js ''not'') \<Longrightarrow>
   parse_not rec n ts = Done x us"
  using fuel by (cases n) auto

lemma and_of_not:
  "parse_not rec n ts = Done x us \<Longrightarrow> keyword_op (js ''and'') And us = None \<Longrightarrow>
   parse_and rec n ts = Done x us"
  using fuel by (simp add: parse_and_def loop_stop)

lemmas up_from_unary =
  multiplicative_of_unary additive_of_multiplicative comparison_of_additive

text \<open>One operator between two operands, at the level that owns it.\<close>

lemma binary_level:
  assumes l: "parse_unary rec n ts = Done l us" "\<not> is_keyword ts (js ''not'')"
    and r: "parse_unary rec n vs = Done r ws" "\<not> is_keyword vs (js ''not'')"
    and us: "us = k # vs" "shape k = (op_kind p, op_text p, [])"
    and ws: "closing ws" and no_or: "p \<noteq> Or"
  shows "parse_and rec n ts = Done (binary p l r) ws"
proof -
  have n: "1 < n" using fuel by auto
  note tables = infix_tables [OF us(2), of vs, folded us(1)]
  have adv: "advance us = vs" using us by (auto simp: shape_def op_kind_def split: if_splits)
  note r_up = up_from_unary not_of_comparison and_of_not r ws
  have mult: ?thesis if "parse_multiplicative rec n ts = Done (binary p l r) ws"
    using that l ws by (simp add: up_from_unary not_of_comparison and_of_not)
  have add: ?thesis if "parse_additive rec n ts = Done (binary p l r) ws"
    using that l ws by (simp add: up_from_unary not_of_comparison and_of_not)
  have cmp: ?thesis if "parse_comparison rec n ts = Done (binary p l r) ws"
    using that l ws by (simp add: up_from_unary not_of_comparison and_of_not)
  consider "p \<in> {Mul, Div}" | "p \<in> {Add, Sub}" | "p \<in> {Eq, Ne, Lt, Le, Gt, Ge}" | "p = And"
    using no_or by (cases p) auto
  then show ?thesis
  proof cases
    case 1
    then have "parse_multiplicative rec n ts = Done (binary p l r) ws"
      using l tables adv n by (simp add: parse_multiplicative_def loop_once r_up)
    then show ?thesis by (rule mult)
  next
    case 2
    then have "parse_multiplicative rec n ts = Done l us"
      using l tables by (auto intro: multiplicative_of_unary)
    then have "parse_additive rec n ts = Done (binary p l r) ws"
      using 2 tables adv n by (simp add: parse_additive_def loop_once r_up)
    then show ?thesis by (rule add)
  next
    case 3
    then have "parse_additive rec n ts = Done l us"
      using l tables by (auto intro!: up_from_unary)
    then have "parse_comparison rec n ts = Done (binary p l r) ws"
      using 3 tables adv by (simp add: parse_comparison_def r_up)
    then show ?thesis by (rule cmp)
  next
    case 4
    then have "parse_not rec n ts = Done l us"
      using l tables by (auto intro!: up_from_unary not_of_comparison)
    then show ?thesis
      using 4 tables adv n by (simp add: parse_and_def loop_once r_up)
  qed
qed

lemma and_of_unary:
  "parse_unary rec n ts = Done x us \<Longrightarrow> \<not> is_keyword ts (js ''not'') \<Longrightarrow> closing us \<Longrightarrow>
   parse_and rec n ts = Done x us"
  by (simp add: up_from_unary not_of_comparison and_of_not)

end

lemma or_of_and:
  "parse_and (parse_or n) n ts = Done x us \<Longrightarrow> closing us \<Longrightarrow> 0 < n \<Longrightarrow>
   parse_or (Suc n) ts = Done x us"
  by (simp add: loop_stop)

interpretation opnd: operand "parse_or (n + 3)" "n + 3" for n
  by unfold_locales simp

text \<open>An operator expression inside parentheses, read from the top.\<close>

lemma or_binary:
  assumes l: "parse_primary (parse_or n) ts = Done l us" "plain_start ts"
    and r: "parse_primary (parse_or n) vs = Done r ws" "plain_start vs"
    and us: "us = k # vs" "shape k = (op_kind p, op_text p, [])"
    and ws: "closing ws" and n: "3 \<le> n"
  shows "parse_or (Suc n) ts = Done (binary p l r) ws"
proof -
  obtain m where m: "n = m + 3" using n by (metis add.commute le_Suc_ex)
  have not: "\<not> is_keyword ts (js ''not'')" "\<not> is_keyword vs (js ''not'')"
    using l(2) r(2) by (auto simp: plain_start_def)
  have lu: "parse_unary (parse_or n) n ts = Done l us"
    and ru: "parse_unary (parse_or n) n vs = Done r ws"
    using opnd.unary_of_primary l r unfolding m by blast+
  show ?thesis
  proof (cases "p = Or")
    case False
    then show ?thesis
      using opnd.binary_level [of m, folded m, OF lu not(1) ru not(2) us ws] n ws
      by (intro or_of_and) auto
  next
    case True
    note tables = infix_tables [OF us(2), of vs, folded us(1)]
    have "parse_and (parse_or n) n ts = Done l us"
      using lu not(1) True tables unfolding m
      by (auto intro!: opnd.up_from_unary opnd.not_of_comparison opnd.and_of_not)
    moreover have "parse_and (parse_or n) n vs = Done r ws"
      using opnd.and_of_unary [of m, folded m, OF ru not(2) ws] .
    moreover have "advance us = vs"
      using us by (auto simp: shape_def op_kind_def split: if_splits)
    ultimately show ?thesis
      using True tables ws n by (simp add: loop_once)
  qed
qed

lemma or_sign:
  assumes u: "parse_unary (parse_or n) n ts = Done x us" and k: "\<not> is_keyword ts (js ''not'')"
    and us: "closing us" and n: "3 \<le> n"
  shows "parse_or (Suc n) ts = Done x us"
proof -
  obtain m where m: "n = m + 3" using n by (metis add.commute le_Suc_ex)
  show ?thesis
    using opnd.and_of_unary [of m, folded m, OF u k us] us n by (intro or_of_and) auto
qed

lemma primary_in_unary:
  "parse_primary rec ts = Done x us \<Longrightarrow> plain_start ts \<Longrightarrow> 0 < n \<Longrightarrow> parse_unary rec n ts = Done x us"
  by (cases n) (auto simp: plain_start_def)

lemma or_neg:
  assumes x: "parse_primary (parse_or n) ts = Done x us" "plain_start ts"
    and k: "shape k = op_tok ''-''" and us: "closing us" and n: "4 \<le> n"
  shows "parse_or (Suc n) (k # ts) = Done (Unary Neg x (t_start k) (e_end x)) us"
proof -
  obtain m where m: "n = Suc m" "0 < m" using n by (cases n) auto
  have "is_op (k # ts) (js ''-'')" "\<not> is_keyword (k # ts) (js ''not'')" "kind k \<noteq> Eof"
    using k by (auto simp: shape_def op_tok_def is_op_def is_keyword_def)
  moreover have "parse_unary (parse_or n) m ts = Done x us"
    using x m(2) by (rule primary_in_unary)
  ultimately have "parse_unary (parse_or n) n (k # ts) = Done (Unary Neg x (t_start k) (e_end x)) us"
    using m(1) by simp
  then show ?thesis
    using \<open>\<not> is_keyword (k # ts) (js ''not'')\<close> us n by (intro or_sign) auto
qed

lemma not_of_primary:
  assumes x: "parse_primary rec ts = Done x us" "plain_start ts" and us: "closing us" and n: "0 < n"
  shows "parse_not rec n ts = Done x us"
proof -
  obtain m where m: "n = Suc m" using n by (cases n) auto
  have "parse_unary rec n ts = Done x us"
    using x n by (rule primary_in_unary)
  then show ?thesis
    using x(2) us m
    by (simp add: parse_comparison_def parse_additive_def parse_multiplicative_def loop_stop
        plain_start_def del: parse_unary.simps)
qed

lemma or_not:
  assumes x: "parse_primary (parse_or n) ts = Done x us" "plain_start ts"
    and k: "shape k = word_tok (js ''not'')" and us: "closing us" and n: "4 \<le> n"
  shows "parse_or (Suc n) (k # ts) = Done (Unary Not x (t_start k) (e_end x)) us"
proof -
  obtain m where m: "n = Suc m" "0 < m" using n by (cases n) auto
  have "is_keyword (k # ts) (js ''not'')" "kind k \<noteq> Eof"
    using k by (auto simp: shape_def word_tok_def is_keyword_def to_lower_def js_def
        lower_unit_def is_upper_def)
  moreover have "parse_not (parse_or n) m ts = Done x us"
    using x us m(2) by (rule not_of_primary)
  ultimately have "parse_not (parse_or n) n (k # ts) = Done (Unary Not x (t_start k) (e_end x)) us"
    using m(1) by simp
  then show ?thesis
    using us n by (intro or_of_and) (auto simp: parse_and_def loop_stop)
qed

lemma shape_split:
  "map shape ts = k # ss \<longleftrightarrow> (\<exists>t us. ts = t # us \<and> shape t = k \<and> map shape us = ss)"
  by (cases ts) auto

lemma shape_op_tok: "shape t = op_tok w \<longleftrightarrow> kind t = Op \<and> ttext t = js w \<and> tvalue t = []"
  by (simp add: shape_def op_tok_def)

lemma shape_word_tok: "shape t = word_tok w \<longleftrightarrow> kind t = Ident \<and> ttext t = w \<and> tvalue t = []"
  by (simp add: shape_def word_tok_def)

lemmas shape_simps = shape_split shape_op_tok shape_word_tok

definition reads :: "nat \<Rightarrow> expr \<Rightarrow> token list \<Rightarrow> shape list \<Rightarrow> bool" where
  "reads n x ts ss \<longleftrightarrow>
     (\<exists>y us. parse_primary (parse_or n) ts = Done y us \<and> strip y = strip x \<and> map shape us = ss)"

lemma primary_word:
  "kind t = Ident \<Longrightarrow> parse_primary rec (t # us) = of_sum (parse_word (t # us))"
  by (simp add: parse_primary_def is_op_def)

lemma expect_Cons [simp]:
  "kind t = Op \<Longrightarrow> ttext t = w \<Longrightarrow> expect_op w (t # us) = Inr (t, us)"
  "kind t = Ident \<Longrightarrow> expect_ident what (t # us) = Inr (t, us)"
  by (simp_all add: expect_op_def expect_ident_def is_op_def)

lemma lower_words:
  "to_lower (js ''sum'') = js ''sum''" "to_lower (js ''count'') = js ''count''"
  "to_lower (js ''doc'') = js ''doc''" "to_lower (js ''row'') = js ''row''"
  "to_lower (js ''true'') = js ''true''" "to_lower (js ''false'') = js ''false''"
  "to_lower (js ''null'') = js ''null''"
  by (simp_all add: to_lower_def js_def lower_unit_def is_upper_def)

lemmas read_word = shape_simps reads_def primary_word parse_word_def of_sum_def lower_words Let_def
  bindE_def span_of_def

lemma reads_atoms:
  "map shape ts = toks (Field b w fs s e) @ ss \<Longrightarrow> reads n (Field b w fs s e) ts ss"
  "map shape ts = toks (Sum sn fn ss' fs s e) @ ss \<Longrightarrow> reads n (Sum sn fn ss' fs s e) ts ss"
  "map shape ts = toks (Count sn ss' s e) @ ss \<Longrightarrow> reads n (Count sn ss' s e) ts ss"
  "map shape ts = toks (Boolean v s e) @ ss \<Longrightarrow> reads n (Boolean v s e) ts ss"
  "map shape ts = toks (Null s e) @ ss \<Longrightarrow> reads n (Null s e) ts ss"
  subgoal by (cases b) (clarsimp simp: read_word base_text_def)+
  subgoal by (clarsimp simp: read_word)
  subgoal by (clarsimp simp: read_word)
  subgoal by (cases v) (clarsimp simp: read_word)+
  subgoal by (clarsimp simp: read_word)
  done

lemma reads_literals:
  "map shape ts = toks (Number w s e) @ ss \<Longrightarrow> reads n (Number w s e) ts ss"
  "map shape ts = toks (Str w s e) @ ss \<Longrightarrow> reads n (Str w s e) ts ss"
  by (clarsimp simp: shape_split reads_def parse_primary_def; simp add: shape_def)+

lemma reads_parens:
  assumes t: "shape t = op_tok ''(''" and inner: "parse_or n ts = Done y us"
    and y: "strip y = strip x" and us: "map shape us = op_tok '')'' # ss"
  shows "reads n x (t # ts) ss"
proof -
  obtain c vs where c: "us = c # vs" "kind c = Op" "ttext c = js '')''" "map shape vs = ss"
    using us by (auto simp: shape_simps)
  have "parse_primary (parse_or n) (t # ts) = Done (rebound (t_start t) (t_end c) y) vs"
    using t inner c by (simp add: shape_simps parse_primary_def is_op_def expect_op_def)
  then show ?thesis using y c(4) by (auto simp: reads_def)
qed

lemma closing_paren: "map shape us = op_tok '')'' # ss \<Longrightarrow> closing us"
  by (auto simp: shape_simps closing_def is_op_def)

lemma reads_unary:
  assumes IH: "\<And>n ts ss. map shape ts = toks x @ ss \<Longrightarrow> length (toks x) + 2 \<le> n \<Longrightarrow> reads n x ts ss"
    and ts: "map shape ts = toks (Unary p x s e) @ ss" and n: "length (toks (Unary p x s e)) + 2 \<le> n"
  shows "reads n (Unary p x s e) ts ss"
proof -
  obtain m where m: "n = Suc m" "length (toks x) + 2 \<le> m" "4 \<le> m"
    using n by (cases n) auto
  obtain t k vs where t: "ts = t # k # vs" "shape t = op_tok ''(''"
      "shape k = (case p of Neg \<Rightarrow> op_tok ''-'' | Not \<Rightarrow> word_tok (js ''not''))"
      "map shape vs = toks x @ op_tok '')'' # ss"
    using ts by (auto simp: shape_split)
  obtain y us where y: "parse_primary (parse_or m) vs = Done y us" "strip y = strip x"
      "map shape us = op_tok '')'' # ss"
    using IH [OF t(4) m(2)] by (auto simp: reads_def)
  have "parse_or n (k # vs) = Done (Unary p y (t_start k) (e_end y)) us"
    using t(3) m(1,3) or_neg [OF y(1) toks_plain_start [OF t(4)] _ closing_paren [OF y(3)]]
      or_not [OF y(1) toks_plain_start [OF t(4)] _ closing_paren [OF y(3)]]
    by (cases p) auto
  then show ?thesis
    using t(2) y(2,3) unfolding t(1) by (intro reads_parens) auto
qed

lemma reads_binary:
  assumes IHl: "\<And>n ts ss. map shape ts = toks l @ ss \<Longrightarrow> length (toks l) + 2 \<le> n \<Longrightarrow> reads n l ts ss"
    and IHr: "\<And>n ts ss. map shape ts = toks r @ ss \<Longrightarrow> length (toks r) + 2 \<le> n \<Longrightarrow> reads n r ts ss"
    and ts: "map shape ts = toks (Binary p l r s e) @ ss"
    and n: "length (toks (Binary p l r s e)) + 2 \<le> n"
  shows "reads n (Binary p l r s e) ts ss"
proof -
  obtain m where m: "n = Suc m" "length (toks l) + 2 \<le> m" "length (toks r) + 2 \<le> m" "3 \<le> m"
    using n by (cases n) auto
  obtain t vs where t: "ts = t # vs" "shape t = op_tok ''(''"
      "map shape vs = toks l @ (op_kind p, op_text p, []) # toks r @ op_tok '')'' # ss"
    using ts by (auto simp: shape_split)
  obtain y us where y: "parse_primary (parse_or m) vs = Done y us" "strip y = strip l"
      "map shape us = (op_kind p, op_text p, []) # toks r @ op_tok '')'' # ss"
    using IHl [OF t(3) m(2)] by (auto simp: reads_def)
  obtain k ws where k: "us = k # ws" "shape k = (op_kind p, op_text p, [])"
      "map shape ws = toks r @ op_tok '')'' # ss"
    using y(3) by (auto simp: shape_split)
  obtain z xs where z: "parse_primary (parse_or m) ws = Done z xs" "strip z = strip r"
      "map shape xs = op_tok '')'' # ss"
    using IHr [OF k(3) m(3)] by (auto simp: reads_def)
  have "parse_or n vs = Done (binary p y z) xs"
    unfolding m(1)
    by (rule or_binary [OF y(1) toks_plain_start [OF t(3)] z(1) toks_plain_start [OF k(3)] k(1,2)
          closing_paren [OF z(3)] m(4)])
  then show ?thesis
    using t(2) y(2) z(2,3) unfolding t(1) by (intro reads_parens) auto
qed

lemma reads_toks:
  "map shape ts = toks x @ ss \<Longrightarrow> length (toks x) + 2 \<le> n \<Longrightarrow> reads n x ts ss"
proof (induction x arbitrary: n ts ss)
  case (Unary p x s e)
  show ?case by (rule reads_unary [OF Unary.IH Unary.prems])
next
  case (Binary p l r s e)
  show ?case by (rule reads_binary [OF Binary.IH Binary.prems])
qed (simp_all only: reads_atoms reads_literals)

lemma parse_unparse:
  assumes "lexical x"
  obtains y where "parse_expression (unparse x) = ParseOk y" "strip y = strip x"
proof -
  obtain ts where ts: "tokenize (unparse x) = Inr ts" "map shape ts = toks x @ [(Eof, [], [])]"
    using assms by (rule tokenize_unparse)
  have len: "length ts = length (toks x) + 1"
    using arg_cong [OF ts(2), of length] by simp
  obtain y us where y: "parse_primary (parse_or (length ts + 1)) ts = Done y us" "strip y = strip x"
      "map shape us = [(Eof, [], [])]"
    using reads_toks [OF ts(2), of "length ts + 1"] len by (auto simp: reads_def)
  have eof: "kind (current us) = Eof"
    using y(3) by (auto simp: shape_def)
  have start: "plain_start ts"
    using ts(2) by (rule toks_plain_start)
  have nz: "Suc 0 \<le> length (toks x)"
    by (cases x) auto
  have "parse_or (Suc (length ts + 1)) ts = Done y us"
    using y(1) start eof len nz
    by (intro or_sign primary_in_unary) (auto simp: plain_start_def closing_def)
  then show ?thesis
    using ts(1) eof y(2)
    by (intro that [of y]) (simp_all add: parse_expression_def parse_tokens_def parse_fuel_def
        del: parse_or.simps)
qed

text \<open>
  C20. Round trip. The text of any tree whose names and numbers are tokens, with every
  operator in parentheses, is accepted by \<open>parseExpression\<close>, and the tree it gives is the
  same tree up to offsets: precedence, associativity, quoting and keywords lose nothing.
\<close>

theorem parse_expression_round_trip:
  assumes "lexical x"
  shows "\<exists>y. parse_expression (unparse x) = ParseOk y \<and> strip y = strip x"
  using parse_unparse [OF assms] by blast

lemma parse_expression_round_trip_witness:
  "\<exists>y. parse_expression (unparse (Unary Not (Number (js ''3'') 0 0) 0 0)) = ParseOk y \<and>
     strip y = Unary Not (Number (js ''3'') 0 0) 0 0"
  using parse_expression_round_trip [of "Unary Not (Number (js ''3'') 0 0) 0 0"]
  by (simp add: is_number_def js_def is_digit_def scan_number_def)

text \<open>
  An accepted expression has a normal form: printing the tree that \<open>parseExpression\<close>
  gives and reading the text again gives the same tree, up to offsets.
\<close>

theorem parse_expression_stable:
  assumes "parse_expression t = ParseOk x"
  shows "\<exists>y. parse_expression (unparse x) = ParseOk y \<and> strip y = strip x"
  using parse_unparse [OF parse_expression_lexical [OF assms]] by blast

lemma parse_expression_stable_witness:
  "\<exists>x y. parse_expression (js ''doc.a'') = ParseOk x \<and>
     parse_expression (unparse x) = ParseOk y \<and> strip y = strip x"
proof -
  show ?thesis
    using parse_expression_stable [OF parse_example] parse_example by blast
qed

end
