(* ===== verification/Decimal.thy ===== *)
theory Decimal
  imports Prelude Complex_Main
begin

section \<open>Decimal text and the numbers of JSON\<close>

text \<open>
  The decimal arithmetic of \<open>model/schemas/value-type.ts\<close>: \<open>decimalParts\<close>,
  \<open>compareDecimals\<close> and \<open>fitsNumeric\<close>, which work on text so that no value is rounded. A
  JavaScript number is held as what \<open>String\<close> shows of it: the shortest decimal
  \<open>m * 10 ^ e\<close> that reads back as the same number. The meaning of a text is a rational;
  the code's comparison and its \<open>numeric(p, s)\<close> test are proved against it.
\<close>

subsection \<open>Texts\<close>

definition all_digits :: "jstr \<Rightarrow> bool" where
  "all_digits s \<longleftrightarrow> (\<forall>c \<in> set s. is_digit c)"

lemma all_digits_simps [simp]:
  "all_digits []" "all_digits (c # s) \<longleftrightarrow> is_digit c \<and> all_digits s"
  "all_digits (s @ t) \<longleftrightarrow> all_digits s \<and> all_digits t"
  by (auto simp: all_digits_def)

lemma all_digits_show_nat [simp]: "all_digits (show_nat n)"
  using show_nat_digits by (auto simp: all_digits_def)

lemma all_digits_takeWhile [simp]: "all_digits (takeWhile is_digit s)"
  by (auto simp: all_digits_def dest: set_takeWhileD)

lemma all_digits_take: "all_digits s \<Longrightarrow> all_digits (take n s)"
  by (auto simp: all_digits_def dest: in_set_takeD)

lemma all_digits_drop: "all_digits s \<Longrightarrow> all_digits (drop n s)"
  by (auto simp: all_digits_def dest: in_set_dropD)

lemma all_digits_replicate [simp]: "all_digits (replicate n 48)"
  by (auto simp: all_digits_def is_digit_def)

definition is_sign :: "nat \<Rightarrow> bool" where
  "is_sign c \<longleftrightarrow> c = 43 \<or> c = 45"

definition strip_sign :: "jstr \<Rightarrow> jstr" where
  "strip_sign s = (if s \<noteq> [] \<and> is_sign (hd s) then tl s else s)"

definition negative :: "jstr \<Rightarrow> bool" where
  "negative s \<longleftrightarrow> s \<noteq> [] \<and> hd s = 45"

text \<open>\<open>/^[+-]?\d+$/\<close>, and \<open>Number\<close> or \<open>BigInt\<close> of such a text.\<close>

definition integer_text :: "jstr \<Rightarrow> bool" where
  "integer_text s \<longleftrightarrow> strip_sign s \<noteq> [] \<and> all_digits (strip_sign s)"

definition int_of_text :: "jstr \<Rightarrow> int" where
  "int_of_text s =
     (let n = int (digits_val (strip_sign s)) in if negative s then - n else n)"

text \<open>\<open>DECIMAL = /^[+-]?(\d+(\.\d*)?|\.\d+)$/\<close>.\<close>

definition decimal_text :: "jstr \<Rightarrow> bool" where
  "decimal_text s =
     (let r = strip_sign s; w = takeWhile is_digit r; q = drop (length w) r
      in if w \<noteq> [] then q = [] \<or> hd q = 46 \<and> all_digits (tl q)
         else q \<noteq> [] \<and> hd q = 46 \<and> tl q \<noteq> [] \<and> all_digits (tl q))"

subsection \<open>JavaScript numbers\<close>

datatype jsnum = NaN | Infinity | NegInfinity | Dec int int

text \<open>\<open>Number::toString\<close> for the digits \<open>|m|\<close> and the exponent \<open>e\<close> of a finite number.\<close>

definition exp_text :: "int \<Rightarrow> jstr" where
  "exp_text i = 101 # (if i < 0 then 45 else 43) # show_nat (nat \<bar>i\<bar>)"

definition digits_text :: "jstr \<Rightarrow> int \<Rightarrow> jstr" where
  "digits_text ds e =
     (let k = int (length ds); n = k + e
      in if k \<le> n \<and> n \<le> 21 then ds @ replicate (nat e) 48
         else if 0 < n \<and> n \<le> 21 then take (nat n) ds @ [46] @ drop (nat n) ds
         else if - 6 < n \<and> n \<le> 0 then [48, 46] @ replicate (nat (- n)) 48 @ ds
         else if k = 1 then ds @ exp_text (n - 1)
         else take 1 ds @ [46] @ drop 1 ds @ exp_text (n - 1))"

fun num_text :: "jsnum \<Rightarrow> jstr" where
  "num_text NaN = js ''NaN''"
| "num_text Infinity = js ''Infinity''"
| "num_text NegInfinity = js ''-Infinity''"
| "num_text (Dec m e) =
     (if m = 0 then [48]
      else if m < 0 then 45 # digits_text (show_nat (nat (- m))) e
      else digits_text (show_nat (nat m)) e)"

text \<open>The integer a number is, if it is one (\<open>Number.isInteger\<close>).\<close>

fun num_int :: "jsnum \<Rightarrow> int option" where
  "num_int (Dec m e) =
     (if 0 \<le> e then Some (m * 10 ^ nat e)
      else if 10 ^ nat (- e) dvd m then Some (m div 10 ^ nat (- e)) else None)"
| "num_int _ = None"

definition safe_integer :: "jsnum \<Rightarrow> bool" where
  "safe_integer x = (case num_int x of None \<Rightarrow> False | Some i \<Rightarrow> \<bar>i\<bar> \<le> 2 ^ 53 - 1)"

fun num_finite :: "jsnum \<Rightarrow> bool" where
  "num_finite (Dec m e) = True"
| "num_finite _ = False"

subsection \<open>Comparing decimals\<close>

text \<open>
  \<open>decimalParts\<close>: \<open>None\<close> stands for the \<open>TypeError\<close> of destructuring the \<open>null\<close> that
  \<open>exec\<close> gives on a text of another form.
\<close>

definition exponent_value :: "jstr \<Rightarrow> int option" where
  "exponent_value s =
     (if s = [] then Some 0
      else if (hd s = 101 \<or> hd s = 69) \<and> integer_text (tl s) then Some (int_of_text (tl s))
      else None)"

definition decimal_parts :: "jstr \<Rightarrow> (int \<times> int) option" where
  "decimal_parts t =
     (let r = strip_sign t;
          whole = takeWhile is_digit r;
          q = drop (length whole) r;
          q' = (if q \<noteq> [] \<and> hd q = 46 then tl q else q);
          fraction = takeWhile is_digit q';
          value = int (digits_val (whole @ fraction))
      in case exponent_value (drop (length fraction) q') of
           None \<Rightarrow> None
         | Some e \<Rightarrow> Some (if negative t then - value else value, e - int (length fraction)))"

definition compare_decimals :: "jstr \<Rightarrow> jstr \<Rightarrow> int option" where
  "compare_decimals a b =
     (case (decimal_parts a, decimal_parts b) of
        (Some (m, e), Some (n, f)) \<Rightarrow>
          (let exp = min e f; x = m * 10 ^ nat (e - exp); y = n * 10 ^ nat (f - exp)
           in Some (if x < y then - 1 else if x > y then 1 else 0))
      | _ \<Rightarrow> None)"

text \<open>The rational a decimal text denotes.\<close>

definition pow10 :: "int \<Rightarrow> rat" where
  "pow10 e = (if 0 \<le> e then 10 ^ nat e else 1 / 10 ^ nat (- e))"

lemma pow10_pos [simp]: "0 < pow10 e"
  by (simp add: pow10_def)

lemma pow10_nonzero [simp]: "pow10 e \<noteq> 0"
  using pow10_pos [of e] by linarith

lemma pow10_0 [simp]: "pow10 0 = 1"
  by (simp add: pow10_def)

lemma pow10_nat: "pow10 (int n) = 10 ^ n"
  by (simp add: pow10_def)

lemma pow10_powi: "pow10 e = 10 powi e"
  by (simp add: pow10_def power_int_def inverse_eq_divide power_one_over)

lemma pow10_add: "pow10 (a + b) = pow10 a * pow10 b"
  by (simp add: pow10_powi power_int_add)

lemma pow10_diff: "pow10 (a - b) = pow10 a / pow10 b"
  by (simp add: pow10_powi power_int_diff)

definition decimal_value :: "jstr \<Rightarrow> rat option" where
  "decimal_value t = map_option (\<lambda>(m, e). of_int m * pow10 e) (decimal_parts t)"

lemma compare_decimals_value:
  assumes "decimal_value a = Some x" "decimal_value b = Some y"
  shows "compare_decimals a b = Some (if x < y then - 1 else if x > y then 1 else 0)"
proof -
  obtain m e n f where a: "decimal_parts a = Some (m, e)" "x = of_int m * pow10 e"
    and b: "decimal_parts b = Some (n, f)" "y = of_int n * pow10 f"
    using assms by (auto simp: decimal_value_def)
  define k where "k = min e f"
  have x: "x = of_int (m * 10 ^ nat (e - k)) * pow10 k"
    using pow10_add [of "e - k" k] by (simp add: a(2) pow10_def k_def)
  have y: "y = of_int (n * 10 ^ nat (f - k)) * pow10 k"
    using pow10_add [of "f - k" k] by (simp add: b(2) pow10_def k_def)
  show ?thesis
    unfolding compare_decimals_def a(1) b(1) x y by (simp add: k_def [symmetric] Let_def del: of_int_mult)
qed

lemma compare_decimals_None: "compare_decimals a b = None \<longleftrightarrow> decimal_value a = None \<or> decimal_value b = None"
  by (auto simp: compare_decimals_def decimal_value_def Let_def split: option.splits)

subsection \<open>The value of a printed number\<close>

lemma takeWhile_all_before:
  "all_digits w \<Longrightarrow> rest = [] \<or> \<not> is_digit (hd rest) \<Longrightarrow> takeWhile is_digit (w @ rest) = w"
  by (induction w) (auto simp: takeWhile_eq_Nil_iff)

lemma digits_val_zeros [simp]: "digits_val (replicate n 48) = 0"
proof (induction n)
  case (Suc n)
  have "digits_val (replicate (Suc n) 48) = digits_val (replicate n 48 @ [48])"
    by (simp add: replicate_append_same)
  then show ?case using Suc by simp
qed simp

lemma digits_val_zero_Cons [simp]: "digits_val (48 # s) = digits_val s"
  using digits_val_append [of "[48]" s] by (simp add: digits_val_def)

lemma exponent_value_exp_text [simp]: "exponent_value (exp_text i) = Some i"
proof -
  have "hd (show_nat n) \<noteq> 43" "hd (show_nat n) \<noteq> 45" for n
    using bspec [OF show_nat_digits [of n], of "hd (show_nat n)"] by (auto simp: is_digit_def)
  then show ?thesis
    by (auto simp: exponent_value_def exp_text_def integer_text_def int_of_text_def strip_sign_def
        is_sign_def negative_def Let_def)
qed

lemma hd_exp_text: "hd (exp_text i) = 101"
  by (simp add: exp_text_def)

text \<open>Every text the model prints has this shape: a sign, digits, a fraction, an exponent.\<close>

definition decimal_shape :: "jstr \<Rightarrow> jstr \<Rightarrow> jstr \<Rightarrow> jstr \<Rightarrow> jstr \<Rightarrow> bool" where
  "decimal_shape sg w dot f ex \<longleftrightarrow>
     sg \<in> {[], [43], [45]} \<and> all_digits w \<and> all_digits f \<and> (w \<noteq> [] \<or> f \<noteq> [])
     \<and> (dot = [46] \<or> dot = [] \<and> f = []) \<and> (ex = [] \<or> hd ex \<in> {69, 101})"

lemma strip_sign_append:
  "r \<noteq> [] \<Longrightarrow> \<not> is_sign (hd r) \<Longrightarrow> sg \<in> {[], [43], [45]} \<Longrightarrow>
   strip_sign (sg @ r) = r \<and> (negative (sg @ r) \<longleftrightarrow> sg = [45])"
  by (auto simp: strip_sign_def negative_def is_sign_def)

lemma decimal_parts_shape:
  assumes "decimal_shape sg w dot f ex"
  shows "decimal_parts (sg @ w @ dot @ f @ ex) =
    (case exponent_value ex of
       None \<Rightarrow> None
     | Some e \<Rightarrow> Some ((if sg = [45] then - 1 else 1) * int (digits_val (w @ f)), e - int (length f)))"
proof -
  let ?r = "w @ dot @ f @ ex"
  have w: "all_digits w" "all_digits f" using assms by (auto simp: decimal_shape_def)
  have "is_digit (hd ?r) \<or> hd ?r = 46"
    using assms by (cases w) (auto simp: decimal_shape_def)
  then have hd: "?r \<noteq> []" "\<not> is_sign (hd ?r)"
    using assms by (auto simp: decimal_shape_def is_sign_def is_digit_def)
  have sg: "strip_sign (sg @ ?r) = ?r" "negative (sg @ ?r) \<longleftrightarrow> sg = [45]"
    using strip_sign_append [OF hd, of sg] assms unfolding decimal_shape_def by blast+
  have ex: "ex = [] \<or> \<not> is_digit (hd ex) \<and> hd ex \<noteq> 46"
    using assms by (auto simp: decimal_shape_def is_digit_def)
  have "takeWhile is_digit ?r = w"
    using assms ex w by (intro takeWhile_all_before) (auto simp: decimal_shape_def is_digit_def)
  then have w': "takeWhile is_digit (w @ dot @ f @ ex) = w" .
  have f: "takeWhile is_digit (f @ ex) = f"
    using ex w by (intro takeWhile_all_before) auto
  consider "dot = [46]" | "dot = []" "f = []" "ex = []" | "dot = []" "f = []" "ex \<noteq> []" "hd ex \<in> {69, 101}"
    using assms by (auto simp: decimal_shape_def)
  then show ?thesis
    unfolding decimal_parts_def sg w' Let_def by cases (use f in \<open>auto split: option.split\<close>)
qed

lemma decimal_value_shape:
  assumes "decimal_shape sg w dot f ex" "exponent_value ex = Some e"
  shows "decimal_value (sg @ w @ dot @ f @ ex) =
    Some ((if sg = [45] then - 1 else 1) * (of_nat (digits_val (w @ f)) * pow10 (e - int (length f))))"
  using assms by (simp add: decimal_value_def decimal_parts_shape)

lemma digits_text_shape:
  assumes ds: "all_digits ds" "ds \<noteq> []"
  obtains w dot f ex x where
    "digits_text ds e = w @ dot @ f @ ex" "decimal_shape [] w dot f ex" "exponent_value ex = Some x"
    "ex = [] \<or> ex = exp_text x"
    "of_nat (digits_val (w @ f)) * pow10 (x - int (length f)) = of_nat (digits_val ds) * pow10 e"
proof -
  define k where "k = int (length ds)"
  define n where "n = k + e"
  have k: "0 < k" using ds by (simp add: k_def)
  have no_exp: "exponent_value [] = Some 0" by (simp add: exponent_value_def)
  have digits: "all_digits (take j ds)" "all_digits (drop j ds)" for j
    using ds by (simp_all add: all_digits_take all_digits_drop)
  consider (plain) "k \<le> n" "n \<le> 21" | (point) "\<not> (k \<le> n \<and> n \<le> 21)" "0 < n" "n \<le> 21"
    | (small) "\<not> (k \<le> n \<and> n \<le> 21)" "- 6 < n" "n \<le> 0"
    | (one) "\<not> (k \<le> n \<and> n \<le> 21)" "\<not> (0 < n \<and> n \<le> 21)" "\<not> (- 6 < n \<and> n \<le> 0)" "k = 1"
    | (many) "\<not> (k \<le> n \<and> n \<le> 21)" "\<not> (0 < n \<and> n \<le> 21)" "\<not> (- 6 < n \<and> n \<le> 0)" "k \<noteq> 1"
    by linarith
  then show thesis
  proof cases
    case plain
    then have "pow10 e = 10 ^ nat e" by (simp add: n_def pow10_def)
    then show thesis
      using plain ds no_exp
      by (intro that [of "ds @ replicate (nat e) 48" "[]" "[]" "[]" 0])
        (auto simp: digits_text_def Let_def k_def n_def decimal_shape_def digits_val_append)
  next
    case point
    then have "nat n \<le> length ds" "nat n \<noteq> 0" "int (length ds) - n = - e"
      by (auto simp: k_def n_def)
    then show thesis
      using point ds digits no_exp
      by (intro that [of "take (nat n) ds" "[46]" "drop (nat n) ds" "[]" 0])
        (auto simp: digits_text_def Let_def k_def n_def decimal_shape_def)
  next
    case small
    then show thesis
      using ds digits no_exp k
      by (intro that [of "[48]" "[46]" "replicate (nat (- n)) 48 @ ds" "[]" 0])
        (auto simp: digits_text_def Let_def k_def n_def decimal_shape_def digits_val_append
          is_digit_def)
  next
    case one
    then show thesis
      using ds
      by (intro that [of ds "[]" "[]" "exp_text (n - 1)" "n - 1"])
        (auto simp: digits_text_def Let_def k_def [symmetric] n_def decimal_shape_def hd_exp_text)
  next
    case many
    have "k + e - 1 - int (length ds - Suc 0) = e"
      using ds(2) by (cases ds) (simp_all add: k_def)
    then show thesis
      using many ds digits
      by (intro that [of "take 1 ds" "[46]" "drop 1 ds" "exp_text (n - 1)" "n - 1"])
        (auto simp: digits_text_def Let_def k_def [symmetric] n_def decimal_shape_def hd_exp_text)
  qed
qed

text \<open>The text of a number denotes the number: \<open>String\<close> loses nothing that comparing needs.\<close>

lemma decimal_value_num_text: "decimal_value (num_text (Dec m e)) = Some (of_int m * pow10 e)"
proof (cases "m = 0")
  case True
  then show ?thesis
    by (simp add: decimal_value_def decimal_parts_def strip_sign_def negative_def is_sign_def
        is_digit_def exponent_value_def digits_val_def)
next
  case False
  define ds where "ds = show_nat (nat \<bar>m\<bar>)"
  have "all_digits ds" "ds \<noteq> []" by (simp_all add: ds_def)
  then obtain w dot f ex x where t: "digits_text ds e = w @ dot @ f @ ex" "decimal_shape [] w dot f ex"
      "exponent_value ex = Some x" "ex = [] \<or> ex = exp_text x"
      "of_nat (digits_val (w @ f)) * pow10 (x - int (length f)) = of_nat (digits_val ds) * pow10 e"
    by (rule digits_text_shape)
  have v: "of_nat (digits_val ds) = rat_of_int \<bar>m\<bar>" by (simp add: ds_def of_nat_nat)
  show ?thesis
  proof (cases "m < 0")
    case True
    then have "decimal_shape [45] w dot f ex" using t(2) by (simp add: decimal_shape_def)
    from decimal_value_shape [OF this t(3)] show ?thesis
      using True t(1,5) v by (simp add: ds_def)
  next
    case False
    then show ?thesis
      using decimal_value_shape [OF t(2,3)] \<open>m \<noteq> 0\<close> t(1,5) v by (simp add: ds_def)
  qed
qed

subsection \<open>The condition of a numeric type\<close>

text \<open>\<open>/^([^eE]*)[eE]([+-]?\d+)$/\<close>: the mantissa and the exponent, when the text has one.\<close>

definition is_e :: "nat \<Rightarrow> bool" where
  "is_e c \<longleftrightarrow> c = 101 \<or> c = 69"

definition exponent_split :: "jstr \<Rightarrow> jstr \<times> int" where
  "exponent_split t =
     (let m = takeWhile (\<lambda>c. \<not> is_e c) t; r = drop (length m) t
      in if r \<noteq> [] \<and> integer_text (tl r) then (m, int_of_text (tl r)) else (t, 0))"

definition zero_digit :: "nat \<Rightarrow> bool" where
  "zero_digit c \<longleftrightarrow> c = 48"

definition drop_trailing_zeros :: "jstr \<Rightarrow> jstr" where
  "drop_trailing_zeros s = rev (dropWhile zero_digit (rev s))"

definition fits_numeric :: "jstr \<Rightarrow> nat option \<Rightarrow> nat option \<Rightarrow> bool" where
  "fits_numeric t precision scale =
     (case exponent_split t of (mantissa, exponent) \<Rightarrow>
        if \<not> decimal_text mantissa then False
        else (case precision of
          None \<Rightarrow> True
        | Some p \<Rightarrow>
            (let parts = split_on 46 (strip_sign mantissa);
                 whole = hd parts;
                 fraction = (case tl parts of [] \<Rightarrow> [] | f # _ \<Rightarrow> f);
                 digits = whole @ fraction;
                 point = int (length whole) + exponent;
                 significant = dropWhile zero_digit digits;
                 leading = int (length digits) - int (length significant);
                 trimmed = drop_trailing_zeros significant
             in if trimmed = [] then True
                else let integer_digits = max 0 (point - leading);
                         fraction_digits = max 0 (leading + int (length trimmed) - point);
                         allowed = int (case scale of None \<Rightarrow> 0 | Some n \<Rightarrow> n)
                     in integer_digits \<le> int p - allowed \<and> fraction_digits \<le> allowed)))"

text \<open>A value of \<open>numeric(p, s)\<close>: a multiple of \<open>10 ^ -s\<close> with at most \<open>p\<close> digits.\<close>

definition numeric_value :: "nat \<Rightarrow> nat \<Rightarrow> rat \<Rightarrow> bool" where
  "numeric_value p s v \<longleftrightarrow> (\<exists>k::int. v * 10 ^ s = of_int k \<and> \<bar>k\<bar> < 10 ^ p)"

lemma numeric_value_minusI: "numeric_value p s v \<Longrightarrow> numeric_value p s (- v)"
proof -
  assume "numeric_value p s v"
  then obtain k :: int where "v * 10 ^ s = of_int k" "\<bar>k\<bar> < 10 ^ p" by (auto simp: numeric_value_def)
  then show ?thesis unfolding numeric_value_def by (intro exI [of _ "- k"]) simp
qed

lemma numeric_value_minus [simp]: "numeric_value p s (- v) = numeric_value p s v"
  using numeric_value_minusI [of p s v] numeric_value_minusI [of p s "- v"] by auto

lemma digits_val_lower: "all_digits s \<Longrightarrow> s \<noteq> [] \<Longrightarrow> hd s \<noteq> 48 \<Longrightarrow> 10 ^ (length s - 1) \<le> digits_val s"
proof (induction s rule: rev_induct)
  case (snoc c s)
  show ?case
  proof (cases "s = []")
    case True
    then show ?thesis using snoc.prems by (auto simp: is_digit_def digits_val_def)
  next
    case False
    then have "10 ^ (length s - 1) \<le> digits_val s" using snoc by simp
    then have "10 * 10 ^ (length s - 1) \<le> 10 * digits_val s" by simp
    moreover have "(10::nat) * 10 ^ (length s - 1) = 10 ^ length s"
      using False by (cases s) auto
    ultimately show ?thesis by simp
  qed
qed simp

lemma digits_val_not_dvd:
  assumes "all_digits s" "s \<noteq> []" "last s \<noteq> 48"
  shows "\<not> 10 dvd digits_val s"
proof -
  obtain r c where s: "s = r @ [c]" using assms(2) by (cases s rule: rev_cases) auto
  have "\<not> 10 dvd c - 48"
    using assms s by (auto simp: is_digit_def dest!: dvd_imp_le)
  moreover have "10 dvd 10 * digits_val r + (c - 48) \<longleftrightarrow> 10 dvd c - 48"
    by (rule dvd_add_right_iff) simp
  ultimately show ?thesis unfolding s digits_val_snoc by blast
qed

text \<open>The digits without their zeros: the same value, scaled, with no digit to spare.\<close>

lemma trimmed_digits:
  assumes "all_digits s"
  defines "z \<equiv> dropWhile zero_digit s"
  defines "d \<equiv> drop_trailing_zeros z"
  shows "digits_val s = digits_val d * 10 ^ (length z - length d)" "length d \<le> length z"
    "d \<noteq> [] \<Longrightarrow> 10 ^ (length d - 1) \<le> digits_val d \<and> digits_val d < 10 ^ length d \<and> \<not> 10 dvd digits_val d"
proof -
  let ?a = "takeWhile zero_digit s" and ?b = "rev (takeWhile zero_digit (rev z))"
  have s: "s = ?a @ z" by (simp add: z_def)
  have z: "z = d @ ?b"
    unfolding d_def drop_trailing_zeros_def
    by (metis rev_append rev_rev_ident takeWhile_dropWhile_id)
  have a: "?a = replicate (length ?a) 48" and b: "?b = replicate (length ?b) 48"
    by (intro replicate_eqI; auto simp: zero_digit_def dest: set_takeWhileD)+
  have "all_digits d" using assms(1) s z by (metis all_digits_simps(3))
  have "digits_val s = digits_val z"
    using s a by (metis add_0 digits_val_append digits_val_zeros mult_zero_left)
  also have "\<dots> = digits_val d * 10 ^ length ?b"
    using z b by (metis add.right_neutral digits_val_append digits_val_zeros)
  finally show "digits_val s = digits_val d * 10 ^ (length z - length d)"
    using arg_cong [OF z, of length] by simp
  show "length d \<le> length z" using arg_cong [OF z, of length] by simp
  assume d: "d \<noteq> []"
  have "last d \<noteq> 48"
    using d hd_dropWhile [of zero_digit "rev z"]
    by (auto simp: d_def drop_trailing_zeros_def last_rev zero_digit_def)
  moreover have "hd d \<noteq> 48"
  proof -
    have "z \<noteq> []" "hd z = hd d" using d z by (metis append_is_Nil_conv, metis hd_append2)
    then show ?thesis using hd_dropWhile [of zero_digit s] by (auto simp: z_def zero_digit_def)
  qed
  ultimately show "10 ^ (length d - 1) \<le> digits_val d \<and> digits_val d < 10 ^ length d \<and> \<not> 10 dvd digits_val d"
    using \<open>all_digits d\<close> d digits_val_lower digits_val_not_dvd digits_val_bound [of d]
    by (auto simp: all_digits_def)
qed

lemma numeric_value_scaled:
  assumes n: "10 ^ (k - 1) \<le> n" "n < 10 ^ k" "\<not> 10 dvd n" and k: "0 < k" and s: "s \<le> p"
  shows "numeric_value p s (of_nat n * pow10 e) \<longleftrightarrow>
    max 0 (e + int k) \<le> int p - int s \<and> max 0 (- e) \<le> int s"
proof (cases "0 \<le> e + int s")
  case True
  define j where "j = nat (e + int s)"
  have "pow10 e * 10 ^ s = pow10 (int j)"
    using True by (simp add: j_def pow10_add pow10_nat)
  then have v: "of_nat n * pow10 e * 10 ^ s = rat_of_int (int n * 10 ^ j)"
    by (simp add: mult.assoc pow10_nat)
  have "numeric_value p s (of_nat n * pow10 e) \<longleftrightarrow> \<bar>int n * 10 ^ j\<bar> < 10 ^ p"
    unfolding numeric_value_def v of_int_eq_iff by auto
  also have "\<dots> \<longleftrightarrow> int (n * 10 ^ j) < int (10 ^ p)"
    by (simp add: abs_mult)
  also have "\<dots> \<longleftrightarrow> n * 10 ^ j < 10 ^ p"
    unfolding of_nat_less_iff ..
  also have "\<dots> \<longleftrightarrow> k + j \<le> p"
  proof
    assume less: "n * 10 ^ j < 10 ^ p"
    have "10 ^ (k - 1 + j) \<le> n * 10 ^ j"
      using n(1) by (simp add: power_add)
    then have "(10::nat) ^ (k - 1 + j) < 10 ^ p" using less by linarith
    then have "k - 1 + j < p" by simp
    then show "k + j \<le> p" using k by simp
  next
    assume "k + j \<le> p"
    then have "(10::nat) ^ (k + j) \<le> 10 ^ p" by simp
    moreover have "n * 10 ^ j < 10 ^ (k + j)"
      using n(2) by (simp add: power_add)
    ultimately show "n * 10 ^ j < 10 ^ p" by linarith
  qed
  also have "\<dots> \<longleftrightarrow> max 0 (e + int k) \<le> int p - int s \<and> max 0 (- e) \<le> int s"
    using True s by (auto simp: j_def)
  finally show ?thesis .
next
  case False
  define j where "j = nat (- (e + int s))"
  have j0: "0 < j" "e + int s + int j = 0"
    using False by (auto simp: j_def)
  have "pow10 (e + int s + int j) = pow10 e * 10 ^ s * 10 ^ j"
    by (simp only: pow10_add pow10_nat)
  then have j: "0 < j" "pow10 e * 10 ^ s * 10 ^ j = 1"
    using j0 by simp_all
  have "\<not> numeric_value p s (of_nat n * pow10 e)"
  proof
    assume "numeric_value p s (of_nat n * pow10 e)"
    then obtain i :: int where i: "of_nat n * pow10 e * 10 ^ s = rat_of_int i"
      by (auto simp: numeric_value_def)
    have "rat_of_int (int n) = rat_of_int (i * 10 ^ j)"
    proof -
      have "rat_of_int (i * 10 ^ j) = of_nat n * (pow10 e * 10 ^ s * 10 ^ j)"
        using i by (simp add: mult.assoc [symmetric])
      then show ?thesis using j(2) by simp
    qed
    then have "int n = i * 10 ^ j" by (simp only: of_int_eq_iff)
    then have "int 10 dvd int n" using j(1) by (simp add: dvd_mult dvd_power)
    then show False using n(3) by (simp only: int_dvd_int_iff)
  qed
  then show ?thesis using False by auto
qed

text \<open>The parts of a decimal text with an optional exponent.\<close>

lemma decimal_text_parts:
  assumes "decimal_text m"
  obtains sg w dot f where "m = sg @ w @ dot @ f" "decimal_shape sg w dot f []"
proof -
  define r where "r = strip_sign m"
  define w where "w = takeWhile is_digit r"
  define q where "q = drop (length w) r"
  have r: "r = w @ q" unfolding w_def q_def by (metis append_take_drop_id takeWhile_eq_take)
  have m: "m = (if m \<noteq> [] \<and> is_sign (hd m) then [hd m] else []) @ r"
    by (simp add: r_def strip_sign_def)
  have q: "q = [] \<and> w \<noteq> [] \<or> q \<noteq> [] \<and> hd q = 46 \<and> all_digits (tl q) \<and> (w \<noteq> [] \<or> tl q \<noteq> [])"
    using assms by (auto simp: decimal_text_def r_def w_def q_def Let_def split: if_splits)
  have "all_digits w" by (simp add: w_def)
  then show thesis
    using q m r
    by (intro that [of "if m \<noteq> [] \<and> is_sign (hd m) then [hd m] else []" w
          "if q = [] then [] else [46]" "tl q"])
      (auto simp: decimal_shape_def is_sign_def neq_Nil_conv)
qed

lemma split_shape:
  assumes "decimal_shape sg w dot f []"
  shows "hd (split_on 46 (strip_sign (sg @ w @ dot @ f))) = w"
    and "(case tl (split_on 46 (strip_sign (sg @ w @ dot @ f))) of [] \<Rightarrow> [] | x # _ \<Rightarrow> x) = f"
proof -
  let ?r = "w @ dot @ f"
  have "is_digit (hd ?r) \<or> hd ?r = 46"
    using assms by (cases w) (auto simp: decimal_shape_def)
  then have hd: "?r \<noteq> []" "\<not> is_sign (hd ?r)"
    using assms by (auto simp: decimal_shape_def is_sign_def is_digit_def)
  have s: "strip_sign (sg @ ?r) = ?r"
    using strip_sign_append [OF hd, of sg] assms unfolding decimal_shape_def by blast
  have "46 \<notin> set w" "46 \<notin> set f"
    using assms by (auto simp: decimal_shape_def all_digits_def is_digit_def)
  then have "split_on 46 ?r = (if dot = [] then [w] else [w, f])"
    using assms by (auto simp: decimal_shape_def split_on_absent split_on_append)
  then show "hd (split_on 46 (strip_sign (sg @ w @ dot @ f))) = w"
    "(case tl (split_on 46 (strip_sign (sg @ w @ dot @ f))) of [] \<Rightarrow> [] | x # _ \<Rightarrow> x) = f"
    using assms unfolding s by (auto simp: decimal_shape_def)
qed

lemma exponent_split_parts:
  assumes "exponent_split t = (m, e)" "decimal_text m"
  obtains sg w dot f ex where "m = sg @ w @ dot @ f" "t = sg @ w @ dot @ f @ ex"
    "decimal_shape sg w dot f ex" "decimal_shape sg w dot f []" "exponent_value ex = Some e"
proof -
  obtain sg w dot f where m: "m = sg @ w @ dot @ f" "decimal_shape sg w dot f []"
    using assms(2) by (rule decimal_text_parts)
  define p where "p = takeWhile (\<lambda>c. \<not> is_e c) t"
  define r where "r = drop (length p) t"
  have t: "t = p @ r" unfolding p_def r_def by (metis append_take_drop_id takeWhile_eq_take)
  show thesis
  proof (cases "r \<noteq> [] \<and> integer_text (tl r)")
    case True
    then have "p = m" "e = int_of_text (tl r)"
      using assms(1) unfolding exponent_split_def p_def [symmetric] Let_def r_def [symmetric] by simp_all
    moreover have "is_e (hd r)"
      using True t by (metis append_Nil2 append_eq_conv_conj p_def r_def hd_dropWhile dropWhile_eq_drop)
    ultimately show thesis
      using True m t
      by (intro that [of sg w dot f r])
        (auto simp: decimal_shape_def is_e_def exponent_value_def)
  next
    case False
    then have "m = t" "e = 0"
      using assms(1) unfolding exponent_split_def p_def [symmetric] Let_def r_def [symmetric] by auto
    then show thesis
      using m by (intro that [of sg w dot f "[]"]) (auto simp: exponent_value_def)
  qed
qed

text \<open>
  The digit counting of \<open>fitsNumeric\<close> decides the set of values of \<open>numeric(p, s)\<close>.
\<close>

lemma fits_numeric_value:
  assumes "exponent_split t = (m, e)" "decimal_text m" "s \<le> p"
  obtains v where "decimal_value t = Some v" "fits_numeric t (Some p) (Some s) \<longleftrightarrow> numeric_value p s v"
proof -
  obtain sg w dot f ex where t: "m = sg @ w @ dot @ f" "t = sg @ w @ dot @ f @ ex"
    "decimal_shape sg w dot f ex" "decimal_shape sg w dot f []" "exponent_value ex = Some e"
    using assms(1,2) by (rule exponent_split_parts)
  define D where "D = w @ f"
  define v where "v = rat_of_nat (digits_val D) * pow10 (e - int (length f))"
  have val: "decimal_value t = Some ((if sg = [45] then - 1 else 1) * v)"
    using decimal_value_shape [OF t(3,5)] by (simp add: t(2) v_def D_def)
  have D: "all_digits D" using t(4) by (simp add: D_def decimal_shape_def)
  define z where "z = dropWhile zero_digit D"
  define d where "d = drop_trailing_zeros z"
  note trim = trimmed_digits [OF D, folded z_def, folded d_def]
  have fits: "fits_numeric t (Some p) (Some s) \<longleftrightarrow>
      d = [] \<or> max 0 (int (length w) + e - (int (length D) - int (length z))) \<le> int p - int s
        \<and> max 0 (int (length D) - int (length z) + int (length d) - (int (length w) + e)) \<le> int s"
    using assms(2) unfolding fits_numeric_def assms(1) t(1)
    by (simp add: split_shape [OF t(4)] D_def [symmetric] z_def [symmetric] d_def [symmetric] Let_def)
  have "fits_numeric t (Some p) (Some s) \<longleftrightarrow> numeric_value p s v"
  proof (cases "d = []")
    case True
    then have "v = 0" using trim(1) by (simp add: v_def)
    then show ?thesis using True fits by (auto simp: numeric_value_def intro!: exI [of _ 0])
  next
    case False
    define E where "E = int (length z - length d) + (e - int (length f))"
    have v: "v = of_nat (digits_val d) * pow10 E"
      unfolding v_def trim(1) E_def pow10_add [of "int (length z - length d)"] pow10_nat by simp
    have lens: "int (length w) + e - (int (length D) - int (length z)) = E + int (length d)"
      "int (length D) - int (length z) + int (length d) - (int (length w) + e) = - E"
      using trim(2) by (auto simp: E_def D_def)
    show ?thesis
      using numeric_value_scaled [of "length d" "digits_val d" s p E] trim(3) [OF False] False assms(3)
      unfolding fits lens v by simp
  qed
  then show thesis
    using val by (cases "sg = [45]") (auto intro: that [of v] that [of "- v"])
qed

end
