(* ===== verification/Dates.thy ===== *)
theory Dates
  imports Decimal
begin

section \<open>Calendar dates and moments\<close>

text \<open>
  \<open>isDate\<close> and \<open>isDateTime\<close> of \<open>model/schemas/value-type.ts\<close>. The code checks a day by
  writing it into a JavaScript \<open>Date\<close> and reading it back, so this theory holds the part of
  \<open>Date\<close> that does so (ECMAScript \<open>MakeDay\<close>, \<open>YearFromTime\<close>, \<open>MonthFromTime\<close> and
  \<open>DateFromTime\<close>, on whole days) and the proof that the detour decides the Gregorian
  calendar.
\<close>

subsection \<open>The day arithmetic of Date\<close>

definition leap :: "int \<Rightarrow> bool" where
  "leap y \<longleftrightarrow> y mod 4 = 0 \<and> (y mod 100 \<noteq> 0 \<or> y mod 400 = 0)"

definition day_from_year :: "int \<Rightarrow> int" where
  "day_from_year y =
     365 * (y - 1970) + (y - 1969) div 4 - (y - 1901) div 100 + (y - 1601) div 400"

definition days_in_year :: "int \<Rightarrow> int" where
  "days_in_year y = (if leap y then 366 else 365)"

definition month_lengths :: "int \<Rightarrow> int list" where
  "month_lengths y = [31, if leap y then 29 else 28, 31, 30, 31, 30, 31, 31, 30, 31, 30, 31]"

definition days_in_month :: "int \<Rightarrow> nat \<Rightarrow> int" where
  "days_in_month y m = month_lengths y ! m"

definition month_start :: "int \<Rightarrow> nat \<Rightarrow> int" where
  "month_start y m = sum_list (take m (month_lengths y))"

text \<open>\<open>MakeDay(year, month, date)\<close>: a month outside 0..11 moves the year.\<close>

definition make_day :: "int \<Rightarrow> int \<Rightarrow> int \<Rightarrow> int" where
  "make_day y m d =
     (let ym = y + m div 12 in day_from_year ym + month_start ym (nat (m mod 12)) + d - 1)"

text \<open>\<open>YearFromTime\<close>: down from a year that starts after the day.\<close>

lemma div_bounds:
  fixes x n :: int
  assumes "0 < n"
  shows "n * (x div n) \<le> x" "x < n * (x div n) + n"
  using mult_div_mod_eq [of n x] pos_mod_bound [OF assms, of x] pos_mod_sign [OF assms, of x]
  by linarith+

lemma div_step:
  fixes x n :: int
  assumes "0 < n"
  shows "(x + 1) div n = x div n + (if n dvd x + 1 then 1 else 0)"
proof (cases "n dvd x + 1")
  case True
  then obtain k where k: "x + 1 = n * k" by blast
  have "x div n = k - 1"
    using assms k by (intro int_div_pos_eq [of _ _ _ "n - 1"]) (auto simp: algebra_simps)
  then show ?thesis using True assms k by simp
next
  case False
  have "x mod n + 1 \<noteq> n"
  proof
    assume "x mod n + 1 = n"
    then have "x + 1 = n * (x div n) + n" using mult_div_mod_eq [of n x] by linarith
    then show False using False by (metis dvd_add dvd_refl dvd_triv_left)
  qed
  then have "(x + 1) div n = x div n"
    using mult_div_mod_eq [of n x] pos_mod_bound [OF assms, of x] pos_mod_sign [OF assms, of x]
    by (intro int_div_pos_eq [of _ _ _ "x mod n + 1"]) auto
  then show ?thesis using False by simp
qed

lemma leap_count:
  fixes a b c y :: int
  assumes "Q \<Longrightarrow> R" "R \<Longrightarrow> P"
  shows "365 * (y + 1 - 1970) + (a + (if P then 1 else 0)) - (b + (if R then 1 else 0))
      + (c + (if Q then 1 else 0))
    = 365 * (y - 1970) + a - b + c + (if P \<and> (\<not> R \<or> Q) then 366 else 365)"
  using assms by (cases P; cases Q; cases R) simp_all

lemma day_from_year_Suc: "day_from_year (y + 1) = day_from_year y + days_in_year y"
proof -
  have shift: "n dvd y - n * j \<longleftrightarrow> y mod n = 0" for n j :: int
    by (simp add: dvd_diff_left_iff mod_eq_0_iff_dvd)
  have 4: "(y + 1 - 1969) div 4 = (y - 1969) div 4 + (if y mod 4 = 0 then 1 else 0)"
    using div_step [of 4 "y - 1969"] shift [of 4 492] by (simp add: algebra_simps)
  have 100: "(y + 1 - 1901) div 100 = (y - 1901) div 100 + (if y mod 100 = 0 then 1 else 0)"
    using div_step [of 100 "y - 1901"] shift [of 100 19] by (simp add: algebra_simps)
  have 400: "(y + 1 - 1601) div 400 = (y - 1601) div 400 + (if y mod 400 = 0 then 1 else 0)"
    using div_step [of 400 "y - 1601"] shift [of 400 4] by (simp add: algebra_simps)
  have "(100::int) dvd 400" "(4::int) dvd 100"
    by simp_all
  then have m: "y mod 400 = 0 \<Longrightarrow> y mod 100 = 0" "y mod 100 = 0 \<Longrightarrow> y mod 4 = 0"
    by (meson dvd_trans mod_0_imp_dvd dvd_imp_mod_0)+
  show ?thesis
    using m unfolding day_from_year_def days_in_year_def leap_def 4 100 400
    by (intro leap_count) blast+
qed

lemma days_in_year_bounds: "365 \<le> days_in_year y" "days_in_year y \<le> 366"
  by (simp_all add: days_in_year_def)

lemma day_from_year_strict: "y < z \<Longrightarrow> day_from_year y < day_from_year z"
proof (induction z rule: int_gr_induct)
  case base
  then show ?case using day_from_year_Suc [of y] days_in_year_bounds(1) [of y] by simp
next
  case (step z)
  then show ?case using day_from_year_Suc [of z] days_in_year_bounds(1) [of z] by simp
qed

function year_down :: "int \<Rightarrow> int \<Rightarrow> int" where
  "year_down d y = (if d < day_from_year y then year_down d (y - 1) else y)"
  by pat_completeness auto
termination
proof (relation "measure (\<lambda>(d, y). nat (day_from_year y - d))")
  fix d y :: int
  assume "d < day_from_year y"
  moreover have "day_from_year (y - 1) < day_from_year y"
    by (rule day_from_year_strict) simp
  ultimately show "((d, y - 1), d, y) \<in> measure (\<lambda>(d, y). nat (day_from_year y - d))"
    by simp
qed simp

declare year_down.simps [simp del]

definition year_from_day :: "int \<Rightarrow> int" where
  "year_from_day d = year_down d (1971 + (if 0 \<le> d then d div 365 else d div 366))"

fun month_down :: "int \<Rightarrow> int \<Rightarrow> nat \<Rightarrow> nat" where
  "month_down y k 0 = 0"
| "month_down y k (Suc m) = (if month_start y (Suc m) \<le> k then Suc m else month_down y k m)"

definition month_from_day :: "int \<Rightarrow> nat" where
  "month_from_day d = (let y = year_from_day d in month_down y (d - day_from_year y) 11)"

definition date_from_day :: "int \<Rightarrow> int" where
  "date_from_day d =
     (let y = year_from_day d in d - day_from_year y - month_start y (month_from_day d) + 1)"

subsection \<open>Reading the calendar back\<close>

lemma year_downI:
  "day_from_year y \<le> d \<Longrightarrow> d < day_from_year (y + 1) \<Longrightarrow> y \<le> z \<Longrightarrow> year_down d z = y"
proof (induction d z rule: year_down.induct)
  case (1 d z)
  show ?case
  proof (cases "d < day_from_year z")
    case True
    then have "y \<le> z - 1" using 1 by (cases "y = z") auto
    then show ?thesis using 1 True by (subst year_down.simps) auto
  next
    case False
    then have "\<not> y + 1 \<le> z"
      using 1(3) day_from_year_strict [of "y + 1" z] by (cases "y + 1 = z") auto
    then show ?thesis using 1(4) False by (subst year_down.simps) auto
  qed
qed

lemma century_bound:
  fixes k :: int
  assumes "0 \<le> k"
  shows "(70 + k) div 100 \<le> (2 + k) div 4" "0 \<le> (370 + k) div 400"
    "(69 - k) div 100 \<le> (1 - k) div 4 + (369 - k) div 400 + k"
proof -
  show "0 \<le> (370 + k) div 400" using assms by simp
  show "(70 + k) div 100 \<le> (2 + k) div 4"
    using div_bounds [of 100 "70 + k"] div_bounds [of 4 "2 + k"] assms by linarith
  have "(1 - k) - 4 < 4 * ((1 - k) div 4)" "100 * ((69 - k) div 100) \<le> 69 - k"
    "(369 - k) - 400 < 400 * ((369 - k) div 400)"
    using div_bounds [of 4 "1 - k"] div_bounds [of 100 "69 - k"] div_bounds [of 400 "369 - k"]
    by linarith+
  moreover have "k = 0 \<or> k = 1 \<or> k = 2 \<or> 3 \<le> k" using assms by linarith
  ultimately show "(69 - k) div 100 \<le> (1 - k) div 4 + (369 - k) div 400 + k"
    by (elim disjE) simp_all
qed

lemma year_start_bound: "d < day_from_year (1971 + (if 0 \<le> d then d div 365 else d div 366))"
proof (cases "0 \<le> d")
  case True
  define k where "k = d div 365"
  have d: "d < 365 * k + 365" "0 \<le> k"
    using True unfolding k_def by (simp_all add: div_bounds)
  have "day_from_year (1971 + k) = 365 * k + 365 + ((2 + k) div 4 - (70 + k) div 100) + (370 + k) div 400"
    by (simp add: day_from_year_def)
  also have "\<dots> \<ge> 365 * k + 365"
    using century_bound [OF d(2)] by linarith
  finally show ?thesis using True d(1) unfolding k_def by simp
next
  case False
  define k where "k = - (d div 366) - 1"
  have k: "0 \<le> k" "d div 366 = - k - 1" using False by (auto simp: k_def)
  have d: "d < - 366 * k"
    using div_bounds(2) [of 366 d] k(2) by simp
  have "day_from_year (1970 - k) = - 365 * k + (1 - k) div 4 - (69 - k) div 100 + (369 - k) div 400"
    by (simp add: day_from_year_def)
  also have "\<dots> \<ge> - 366 * k"
    using century_bound(3) [OF k(1)] by linarith
  finally show ?thesis using False d k(2) by simp
qed

lemma year_from_dayI:
  assumes "day_from_year y \<le> d" "d < day_from_year (y + 1)"
  shows "year_from_day d = y"
proof -
  let ?z = "1971 + (if 0 \<le> d then d div 365 else d div 366)"
  have "\<not> ?z \<le> y"
    using assms(1) year_start_bound [of d] day_from_year_strict [of ?z y] by (cases "?z = y") auto
  then show ?thesis
    unfolding year_from_day_def by (intro year_downI assms) simp
qed

lemma day_from_year_below: "day_from_year (year_down d y) \<le> d"
proof (induction d y rule: year_down.induct)
  case (1 d y)
  then show ?case by (subst year_down.simps) (auto simp: year_down.simps [of d y])
qed

lemma day_before_next:
  "d < day_from_year (y + 1) \<Longrightarrow> d < day_from_year (year_down d y + 1)"
proof (induction d y rule: year_down.induct)
  case (1 d y)
  then show ?case by (subst year_down.simps) auto
qed

lemma year_from_day_bounds:
  "day_from_year (year_from_day d) \<le> d" "d < day_from_year (year_from_day d + 1)"
proof -
  let ?z = "1971 + (if 0 \<le> d then d div 365 else d div 366)"
  show "day_from_year (year_from_day d) \<le> d"
    unfolding year_from_day_def by (rule day_from_year_below)
  have "d < day_from_year (?z + 1)"
    using year_start_bound [of d] day_from_year_strict [of ?z "?z + 1"] by simp
  then show "d < day_from_year (year_from_day d + 1)"
    unfolding year_from_day_def by (rule day_before_next)
qed

lemma length_month_lengths [simp]: "length (month_lengths y) = 12"
  by (simp add: month_lengths_def)

lemma month_start_Suc: "m < 12 \<Longrightarrow> month_start y (Suc m) = month_start y m + days_in_month y m"
  by (simp add: month_start_def days_in_month_def take_Suc_conv_app_nth)

lemma month_start_0 [simp]: "month_start y 0 = 0"
  by (simp add: month_start_def)

lemma month_start_12: "month_start y 12 = days_in_year y"
  by (simp add: month_start_def month_lengths_def days_in_year_def eval_nat_numeral)

lemma days_in_month_pos: "m < 12 \<Longrightarrow> 28 \<le> days_in_month y m"
proof -
  assume "m < 12"
  moreover have "\<forall>n \<in> set (month_lengths y). 28 \<le> n" by (simp add: month_lengths_def)
  ultimately show ?thesis
    unfolding days_in_month_def by (metis length_month_lengths nth_mem)
qed

lemma month_start_mono: "m \<le> n \<Longrightarrow> n \<le> 12 \<Longrightarrow> month_start y m \<le> month_start y n"
proof (induction n)
  case 0
  then show ?case by simp
next
  case (Suc n)
  then show ?case
    using month_start_Suc [of n y] days_in_month_pos [of n y] by (cases "m = Suc n") auto
qed

lemma month_downI:
  "month_start y m \<le> k \<Longrightarrow> k < month_start y (Suc m) \<Longrightarrow> m \<le> n \<Longrightarrow> n < 12 \<Longrightarrow>
   month_down y k n = m"
proof (induction n)
  case 0
  then show ?case by simp
next
  case (Suc n)
  show ?case
  proof (cases "m = Suc n")
    case True
    then show ?thesis using Suc.prems by simp
  next
    case False
    then have "month_start y (Suc m) \<le> month_start y (Suc n)"
      using Suc.prems by (intro month_start_mono) auto
    then show ?thesis using Suc False by auto
  qed
qed

lemma month_down_bounds:
  "0 \<le> k \<Longrightarrow> k < month_start y (Suc n) \<Longrightarrow>
   month_down y k n \<le> n \<and> month_start y (month_down y k n) \<le> k
     \<and> k < month_start y (Suc (month_down y k n))"
  by (induction n) auto

definition valid_day :: "int \<Rightarrow> int \<Rightarrow> int \<Rightarrow> bool" where
  "valid_day y m d \<longleftrightarrow> 1 \<le> m \<and> m \<le> 12 \<and> 1 \<le> d \<and> d \<le> days_in_month y (nat (m - 1))"

text \<open>What \<open>Date\<close> reads back is always a day of the calendar.\<close>

lemma read_back_valid:
  "valid_day (year_from_day t) (int (month_from_day t) + 1) (date_from_day t)"
proof -
  define y where "y = year_from_day t"
  define k where "k = t - day_from_year y"
  have k: "0 \<le> k" "k < month_start y (Suc 11)"
    using year_from_day_bounds [of t] day_from_year_Suc [of y] month_start_12 [of y]
    by (auto simp: y_def k_def)
  define m where "m = month_down y k 11"
  have m: "m < 12" "month_start y m \<le> k" "k < month_start y (Suc m)"
    using month_down_bounds [OF k] by (auto simp: m_def)
  have "month_from_day t = m" "date_from_day t = k - month_start y m + 1"
    by (simp_all add: month_from_day_def date_from_day_def y_def k_def m_def Let_def)
  then show ?thesis
    using m month_start_Suc [OF m(1), of y] by (simp add: valid_day_def y_def [symmetric])
qed

text \<open>A day of the calendar is read back as it was written.\<close>

lemma read_back_same:
  assumes "valid_day y m d"
  shows "year_from_day (make_day y (m - 1) d) = y"
    and "int (month_from_day (make_day y (m - 1) d)) = m - 1"
    and "date_from_day (make_day y (m - 1) d) = d"
proof -
  define n where "n = nat (m - 1)"
  have n: "n < 12" "m - 1 = int n" "1 \<le> d" "d \<le> days_in_month y n"
    using assms by (auto simp: valid_day_def n_def)
  define k where "k = month_start y n + d - 1"
  have t: "make_day y (m - 1) d = day_from_year y + k"
    using n(1) by (simp add: make_day_def n(2) k_def)
  have m: "month_start y n \<le> k" "k < month_start y (Suc n)"
    using n month_start_Suc [OF n(1), of y] by (auto simp: k_def)
  moreover have "0 \<le> month_start y n"
    using month_start_mono [of 0 n y] n(1) by simp
  moreover have "month_start y (Suc n) \<le> days_in_year y"
    using month_start_mono [of "Suc n" 12 y] n(1) by (simp add: month_start_12)
  ultimately have y: "year_from_day (day_from_year y + k) = y"
    using day_from_year_Suc [of y] by (intro year_from_dayI) auto
  have down: "month_down y k 11 = n"
    using m n(1) by (intro month_downI) auto
  show "year_from_day (make_day y (m - 1) d) = y"
    using y t by simp
  show "int (month_from_day (make_day y (m - 1) d)) = m - 1"
    using y down n(2) unfolding t by (simp add: month_from_day_def)
  show "date_from_day (make_day y (m - 1) d) = d"
    using y down unfolding t by (simp add: date_from_day_def month_from_day_def) (simp add: k_def)
qed

subsection \<open>The text of a day\<close>

text \<open>\<open>/^(\d{4})-(\d{2})-(\d{2})$/\<close>.\<close>

definition date_text :: "jstr \<Rightarrow> (jstr \<times> jstr \<times> jstr) option" where
  "date_text t =
     (let y = take 4 t; m = take 2 (drop 5 t); d = drop 8 t
      in if length t = 10 \<and> t ! 4 = 45 \<and> t ! 7 = 45 \<and> all_digits y \<and> all_digits m \<and> all_digits d
         then Some (y, m, d) else None)"

definition is_date :: "jstr \<Rightarrow> bool" where
  "is_date t =
     (case date_text t of
        None \<Rightarrow> False
      | Some (ys, ms, ds) \<Rightarrow>
          (let year = int (digits_val ys); month = int (digits_val ms); day = int (digits_val ds)
           in if year < 1 then False
              else let date = make_day year (month - 1) day
                   in year_from_day date = year \<and> int (month_from_day date) = month - 1
                      \<and> date_from_day date = day))"

text \<open>
  \<open>DATE_TIME_TEXT\<close>: the date, hours and minutes, then the seconds and the zone, each with
  its default when it is absent.
\<close>

definition two_digits :: "jstr \<Rightarrow> (jstr \<times> jstr) option" where
  "two_digits s = (if 2 \<le> length s \<and> all_digits (take 2 s) then Some (take 2 s, drop 2 s) else None)"

definition zone_text :: "jstr \<Rightarrow> (jstr \<times> jstr) option" where
  "zone_text s =
     (case s of
        [] \<Rightarrow> None
      | c # r \<Rightarrow>
          if c = 90 then (if r = [] then Some (js ''0'', js ''0'') else None)
          else if c = 43 \<or> c = 45 then
            (case two_digits r of
               None \<Rightarrow> None
             | Some (h, q) \<Rightarrow>
                 if q = [] then Some (h, js ''0'')
                 else let q' = (if hd q = 58 then tl q else q)
                      in (case two_digits q' of
                            Some (m, []) \<Rightarrow> Some (h, m)
                          | _ \<Rightarrow> None))
          else None)"

definition seconds_text :: "jstr \<Rightarrow> (jstr \<times> jstr) option" where
  "seconds_text s =
     (if s \<noteq> [] \<and> hd s = 58 then
        (case two_digits (tl s) of
           None \<Rightarrow> None
         | Some (sec, r) \<Rightarrow>
             if r \<noteq> [] \<and> hd r = 46 then
               (let f = takeWhile is_digit (tl r)
                in if f = [] then None else Some (sec, drop (length f) (tl r)))
             else Some (sec, r))
      else Some (js ''0'', s))"

definition is_date_time :: "jstr \<Rightarrow> bool" where
  "is_date_time t =
     (if length t < 16 \<or> t ! 10 \<noteq> 84 \<or> t ! 13 \<noteq> 58
         \<or> \<not> all_digits (take 2 (drop 11 t)) \<or> \<not> all_digits (take 2 (drop 14 t)) then False
      else (case seconds_text (drop 16 t) of
              None \<Rightarrow> False
            | Some (sec, zone) \<Rightarrow>
                (case zone_text zone of
                   None \<Rightarrow> False
                 | Some (zh, zm) \<Rightarrow>
                     is_date (take 10 t)
                     \<and> digits_val (take 2 (drop 11 t)) < 24
                     \<and> digits_val (take 2 (drop 14 t)) < 60
                     \<and> digits_val sec < 60
                     \<and> digits_val zh \<le> 15 \<and> digits_val zm < 60)))"

text \<open>
  C37. The detour over \<open>Date\<close> decides the calendar: a text is accepted exactly when it has the
  form \<open>YYYY-MM-DD\<close>, its year is not 0 and its day exists in its month of that year.
\<close>

theorem is_date_gregorian:
  "is_date t \<longleftrightarrow>
     (\<exists>y m d. date_text t = Some (y, m, d) \<and> 1 \<le> digits_val y
        \<and> valid_day (int (digits_val y)) (int (digits_val m)) (int (digits_val d)))"
proof (cases "date_text t")
  case None
  then show ?thesis by (simp add: is_date_def)
next
  case (Some p)
  obtain ys ms ds where p: "p = (ys, ms, ds)" by (cases p)
  define y m d where "y = int (digits_val ys)" and "m = int (digits_val ms)"
    and "d = int (digits_val ds)"
  define t' where "t' = make_day y (m - 1) d"
  have "year_from_day t' = y \<and> int (month_from_day t') = m - 1 \<and> date_from_day t' = d
      \<longleftrightarrow> valid_day y m d"
    using read_back_same [of y m d] read_back_valid [of t'] by (auto simp: t'_def)
  then have "is_date t \<longleftrightarrow> 1 \<le> y \<and> valid_day y m d"
    using Some p by (auto simp: is_date_def Let_def y_def m_def d_def t'_def)
  then show ?thesis
    using Some p by (auto simp: y_def m_def d_def)
qed

end
