(* ===== verification/Unicode.thy ===== *)
theory Unicode
  imports Prelude
begin

section \<open>Code points and UTF-8\<close>

text \<open>
  The part of \<open>TextEncoder\<close>, \<open>TextDecoder\<close> and of string iteration that the program uses:
  Postgres measures a name in UTF-8 bytes and \<open>varchar(n)\<close> in characters, while a JavaScript
  string is a list of UTF-16 code units.
\<close>

definition high_surrogate :: "nat \<Rightarrow> bool" where
  "high_surrogate c \<longleftrightarrow> 55296 \<le> c \<and> c \<le> 56319"

definition low_surrogate :: "nat \<Rightarrow> bool" where
  "low_surrogate c \<longleftrightarrow> 56320 \<le> c \<and> c \<le> 57343"

text \<open>\<open>[...text]\<close>: a surrogate pair is one element, a lone surrogate another.\<close>

fun code_points :: "jstr \<Rightarrow> nat list" where
  "code_points [] = []"
| "code_points [c] = [c]"
| "code_points (c # d # s) =
     (if high_surrogate c \<and> low_surrogate d
      then (65536 + (c - 55296) * 1024 + (d - 56320)) # code_points s
      else c # code_points (d # s))"

text \<open>Lone surrogates become \<open>U+FFFD\<close> before they are encoded.\<close>

definition scalar_point :: "nat \<Rightarrow> bool" where
  "scalar_point c \<longleftrightarrow> c \<le> 1114111 \<and> \<not> (55296 \<le> c \<and> c \<le> 57343)"

definition scalars :: "jstr \<Rightarrow> nat list" where
  "scalars s = map (\<lambda>c. if high_surrogate c \<or> low_surrogate c then 65533 else c) (code_points s)"

definition utf8_point :: "nat \<Rightarrow> nat list" where
  "utf8_point c =
     (if c < 128 then [c]
      else if c < 2048 then [192 + c div 64, 128 + c mod 64]
      else if c < 65536 then [224 + c div 4096, 128 + c div 64 mod 64, 128 + c mod 64]
      else [240 + c div 262144, 128 + c div 4096 mod 64, 128 + c div 64 mod 64, 128 + c mod 64])"

definition utf8_encode :: "jstr \<Rightarrow> nat list" where
  "utf8_encode s = concat (map utf8_point (scalars s))"

text \<open>
  The decoder: a state is what a multi-byte sequence still needs (bytes, bounds of the next
  byte, the value so far). A byte outside the bounds ends the sequence as \<open>U+FFFD\<close> and is
  read again from the start.
\<close>

type_synonym decoder = "(nat \<times> nat \<times> nat \<times> nat) option"

definition lead_byte :: "nat \<Rightarrow> nat list \<times> decoder" where
  "lead_byte b =
     (if b < 128 then ([b], None)
      else if 194 \<le> b \<and> b \<le> 223 then ([], Some (1, 128, 191, b - 192))
      else if 224 \<le> b \<and> b \<le> 239 then
        ([], Some (2, if b = 224 then 160 else 128, if b = 237 then 159 else 191, b - 224))
      else if 240 \<le> b \<and> b \<le> 244 then
        ([], Some (3, if b = 240 then 144 else 128, if b = 244 then 143 else 191, b - 240))
      else ([65533], None))"

definition next_byte :: "decoder \<Rightarrow> nat \<Rightarrow> nat list \<times> decoder" where
  "next_byte st b =
     (case st of
        None \<Rightarrow> lead_byte b
      | Some (n, lo, hi, acc) \<Rightarrow>
          if b < lo \<or> hi < b then (case lead_byte b of (out, st') \<Rightarrow> (65533 # out, st'))
          else let acc' = acc * 64 + (b - 128)
               in if n = 1 then ([acc'], None) else ([], Some (n - 1, 128, 191, acc')))"

primrec decode_points :: "decoder \<Rightarrow> nat list \<Rightarrow> nat list" where
  "decode_points st [] = (case st of None \<Rightarrow> [] | Some _ \<Rightarrow> [65533])"
| "decode_points st (b # bs) =
     (case next_byte st b of (out, st') \<Rightarrow> out @ decode_points st' bs)"

definition utf16_point :: "nat \<Rightarrow> jstr" where
  "utf16_point c =
     (if c < 65536 then [c] else [55296 + (c - 65536) div 1024, 56320 + (c - 65536) mod 1024])"

definition utf16 :: "nat list \<Rightarrow> jstr" where
  "utf16 cs = concat (map utf16_point cs)"

text \<open>\<open>decoder.decode(bytes)\<close>: a leading byte order mark is dropped.\<close>

definition utf8_decode :: "nat list \<Rightarrow> jstr" where
  "utf8_decode bs =
     (let cs = decode_points None bs
      in utf16 (if cs \<noteq> [] \<and> hd cs = 65279 then tl cs else cs))"

definition clean :: "jstr \<Rightarrow> bool" where
  "clean s \<longleftrightarrow> (\<forall>c \<in> set s. c < 65536)"

subsection \<open>Encoding and decoding\<close>

lemma code_points_scalar:
  "clean s \<Longrightarrow> c \<in> set (code_points s) \<Longrightarrow>
    scalar_point c \<or> high_surrogate c \<or> low_surrogate c"
  by (induction s rule: code_points.induct)
    (auto simp: clean_def scalar_point_def high_surrogate_def low_surrogate_def split: if_splits)

lemma scalars_scalar: "clean s \<Longrightarrow> c \<in> set (scalars s) \<Longrightarrow> scalar_point c"
  using code_points_scalar [of s] by (auto simp: scalars_def scalar_point_def)

lemma decode_point:
  assumes "scalar_point c"
  shows "decode_points None (utf8_point c @ bs) = c # decode_points None bs"
proof -
  consider "c < 128" | "128 \<le> c" "c < 2048" | "2048 \<le> c" "c < 65536" | "65536 \<le> c" "c \<le> 1114111"
    using assms unfolding scalar_point_def by linarith
  then show ?thesis
  proof cases
    case 1
    then show ?thesis by (simp add: utf8_point_def next_byte_def lead_byte_def)
  next
    case 2
    have "2 \<le> c div 64" "c div 64 \<le> 31" using 2 by auto
    then show ?thesis using 2 by (simp add: utf8_point_def next_byte_def lead_byte_def Let_def)
  next
    case 3
    define a b where "a = c div 4096" and "b = c div 64 mod 64"
    have c: "c = (a * 64 + b) * 64 + c mod 64" "a \<le> 15" "b \<le> 63"
      using 3 unfolding a_def b_def by (auto simp: div_mult2_eq [of c 64 64, simplified])
    have "a = 0 \<Longrightarrow> 32 \<le> b" "a = 13 \<Longrightarrow> b \<le> 31"
      using 3 assms c by (auto simp: scalar_point_def)
    moreover have "\<not> 63 < c mod 64" by (simp add: not_less less_Suc_eq_le [symmetric])
    ultimately show ?thesis
      using 3 c(2,3) c(1) [symmetric]
      by (auto simp: utf8_point_def next_byte_def lead_byte_def Let_def a_def [symmetric] b_def [symmetric])
  next
    case 4
    define a b d where "a = c div 262144" and "b = c div 4096 mod 64" and "d = c div 64 mod 64"
    have c: "c = ((a * 64 + b) * 64 + d) * 64 + c mod 64" "a \<le> 4" "b \<le> 63" "d \<le> 63"
      using 4 unfolding a_def b_def d_def by (auto simp: div_mult2_eq [of c 64 64, simplified]
        div_mult2_eq [of c 64 4096, simplified] div_mult2_eq [of "c div 64" 64 64, simplified])
    have "a = 0 \<Longrightarrow> 16 \<le> b" "a = 4 \<Longrightarrow> b \<le> 15"
      using 4 c by auto
    moreover have "\<not> 63 < c mod 64" by (simp add: not_less less_Suc_eq_le [symmetric])
    ultimately show ?thesis
      using 4 c(2,3,4) c(1) [symmetric]
      by (auto simp: utf8_point_def next_byte_def lead_byte_def Let_def a_def [symmetric]
          b_def [symmetric] d_def [symmetric])
  qed
qed

lemma decode_encoded:
  "\<forall>c \<in> set cs. scalar_point c \<Longrightarrow> decode_points None (concat (map utf8_point cs)) = cs"
  by (induction cs) (auto simp: decode_point)

subsection \<open>Clipping at a character boundary\<close>

text \<open>\<open>(byte & 0xc0) === 0x80\<close>\<close>

definition continuation :: "nat \<Rightarrow> bool" where
  "continuation b \<longleftrightarrow> 128 \<le> b \<and> b < 192"

lemma utf8_point_head: "c \<le> 1114111 \<Longrightarrow> utf8_point c \<noteq> [] \<and> \<not> continuation (hd (utf8_point c))"
  by (auto simp: utf8_point_def continuation_def)

lemma utf8_point_tail: "b \<in> set (tl (utf8_point c)) \<Longrightarrow> continuation b"
proof -
  have "c mod 64 < 64" "c div 64 mod 64 < 64" "c div 4096 mod 64 < 64" by simp_all
  then have "\<forall>b \<in> set (tl (utf8_point c)). continuation b"
    by (simp add: utf8_point_def continuation_def)
  then show "b \<in> set (tl (utf8_point c)) \<Longrightarrow> continuation b" by blast
qed

lemma utf8_point_length: "0 < length (utf8_point c)" "length (utf8_point c) \<le> 4"
  by (simp_all add: utf8_point_def)

text \<open>The loop of \<open>clipBytes\<close>: back from the middle of a character to its first byte.\<close>

fun clip_end :: "nat list \<Rightarrow> nat \<Rightarrow> nat" where
  "clip_end bs 0 = 0"
| "clip_end bs (Suc e) =
     (if Suc e < length bs \<and> continuation (bs ! Suc e) then clip_end bs e else Suc e)"

text \<open>\<open>subarray(0, end)\<close> counts a negative end from the end of the array.\<close>

definition clip_bytes :: "nat list \<Rightarrow> int \<Rightarrow> nat list" where
  "clip_bytes bs m =
     (if m < 0 then take (nat (int (length bs) + m)) bs
      else take (clip_end bs (min (nat m) (length bs))) bs)"

lemma clip_end_le: "clip_end bs e \<le> e"
  by (induction bs e rule: clip_end.induct) auto

lemma length_clip_bytes: "0 \<le> m \<Longrightarrow> int (length (clip_bytes bs m)) \<le> m"
  using clip_end_le [of bs "min (nat m) (length bs)"] by (simp add: clip_bytes_def) linarith

fun fit :: "nat list \<Rightarrow> nat \<Rightarrow> nat list" where
  "fit [] n = []"
| "fit (c # cs) n =
     (if length (utf8_point c) \<le> n then c # fit cs (n - length (utf8_point c)) else [])"

lemma fit_prefix: "\<exists>r. cs = fit cs n @ r"
  by (induction cs n rule: fit.induct) auto

lemma length_fit: "length (concat (map utf8_point (fit cs n))) \<le> n"
  by (induction cs n rule: fit.induct) auto

lemma fit_longest: "fit cs n \<noteq> cs \<Longrightarrow> n < length (concat (map utf8_point (fit cs n))) + 4"
proof (induction cs n rule: fit.induct)
  case (2 c cs n)
  then show ?case using utf8_point_length [of c] by (auto split: if_splits)
qed simp

lemma fit_all: "length (concat (map utf8_point cs)) \<le> n \<Longrightarrow> fit cs n = cs"
  by (induction cs n rule: fit.induct) auto

lemma clip_end_inside:
  "\<forall>b \<in> set (tl p). continuation b \<Longrightarrow> e < length p \<Longrightarrow> clip_end (p @ bs) e = 0"
proof (induction e)
  case (Suc e)
  then have "p ! Suc e \<in> set (tl p)"
    by (metis Suc_lessE length_tl diff_Suc_1 nth_mem nth_tl Suc_less_eq length_Cons list.sel(3) list.size(3) not_less_zero neq_Nil_conv)
  then show ?case using Suc by (simp add: nth_append)
qed simp

lemma clip_end_beyond:
  "p \<noteq> [] \<Longrightarrow> bs = [] \<or> \<not> continuation (hd bs) \<Longrightarrow> e \<le> length bs \<Longrightarrow>
   clip_end (p @ bs) (length p + e) = length p + clip_end bs e"
proof (induction e)
  case 0
  then show ?case by (cases p) (auto simp: nth_append hd_conv_nth)
next
  case (Suc e)
  then show ?case by (simp add: nth_append)
qed

lemma clip_end_fit:
  assumes "\<forall>c \<in> set cs. c \<le> 1114111"
  shows "clip_end (concat (map utf8_point cs)) (min n (length (concat (map utf8_point cs))))
    = length (concat (map utf8_point (fit cs n)))"
  using assms
proof (induction cs n rule: fit.induct)
  case (1 n)
  then show ?case by simp
next
  case (2 c cs n)
  let ?p = "utf8_point c" and ?bs = "concat (map utf8_point cs)"
  show ?case
  proof (cases "length ?p \<le> n")
    case True
    have "?bs = [] \<or> \<not> continuation (hd ?bs)"
      using 2(2) utf8_point_head by (cases cs) auto
    moreover have "min n (length (?p @ ?bs)) = length ?p + min (n - length ?p) (length ?bs)"
      using True by auto
    ultimately show ?thesis
      using 2 True utf8_point_length(1) [of c] clip_end_beyond [of ?p ?bs "min (n - length ?p) (length ?bs)"]
      by auto
  next
    case False
    then show ?thesis
      using clip_end_inside [of ?p "min n (length (?p @ ?bs))" ?bs] utf8_point_tail by auto
  qed
qed

text \<open>Clipping keeps whole characters: the longest run of them that fits.\<close>

lemma clip_bytes_fit:
  assumes "\<forall>c \<in> set cs. c \<le> 1114111"
  shows "clip_bytes (concat (map utf8_point cs)) (int n) = concat (map utf8_point (fit cs n))"
proof -
  obtain r where "cs = fit cs n @ r" using fit_prefix by blast
  then have "concat (map utf8_point cs) = concat (map utf8_point (fit cs n)) @ concat (map utf8_point r)"
    by (metis concat_append map_append)
  then show ?thesis
    using clip_end_fit [OF assms, of n] by (simp add: clip_bytes_def)
qed

subsection \<open>Text that comes back from the decoder\<close>

lemma code_points_utf16_point:
  "scalar_point c \<Longrightarrow> code_points (utf16_point c @ s) = c # code_points s"
proof -
  assume c: "scalar_point c"
  show ?thesis
  proof (cases "c < 65536")
    case True
    then have "\<not> high_surrogate c" using c by (auto simp: scalar_point_def high_surrogate_def)
    then show ?thesis using True by (cases s) (auto simp: utf16_point_def)
  next
    case False
    define r where "r = c - 65536"
    have r: "c = r + 65536" "r < 1048576" using False c by (auto simp: r_def scalar_point_def)
    then have "r div 1024 < 1024" by (simp add: less_mult_imp_div_less)
    moreover have "r mod 1024 < 1024" by simp
    ultimately show ?thesis
      using False by (simp add: utf16_point_def r(1) high_surrogate_def low_surrogate_def)
  qed
qed

lemma scalars_utf16_append:
  "\<forall>c \<in> set cs. scalar_point c \<Longrightarrow> scalars (utf16 cs @ s) = cs @ scalars s"
proof (induction cs)
  case Nil
  then show ?case by (simp add: utf16_def)
next
  case (Cons c cs)
  have "\<not> high_surrogate c" "\<not> low_surrogate c"
    using Cons.prems by (auto simp: scalar_point_def high_surrogate_def low_surrogate_def)
  moreover have "utf16 (c # cs) @ s = utf16_point c @ (utf16 cs @ s)"
    by (simp add: utf16_def)
  ultimately show ?case
    using Cons by (simp add: scalars_def code_points_utf16_point)
qed

lemma scalars_Cons:
  "\<not> high_surrogate c \<Longrightarrow> \<not> low_surrogate c \<Longrightarrow> scalars (c # s) = c # scalars s"
  by (cases s) (auto simp: scalars_def)

definition drop_bom :: "nat list \<Rightarrow> nat list" where
  "drop_bom cs = (if cs \<noteq> [] \<and> hd cs = 65279 then tl cs else cs)"

lemma utf8_decode_encoded:
  "\<forall>c \<in> set cs. scalar_point c \<Longrightarrow> utf8_decode (concat (map utf8_point cs)) = utf16 (drop_bom cs)"
  by (simp add: utf8_decode_def decode_encoded drop_bom_def Let_def)

lemma length_drop_bom: "length (concat (map utf8_point (drop_bom cs))) \<le> length (concat (map utf8_point cs))"
  by (cases cs) (auto simp: drop_bom_def)

lemma set_drop_bom: "set (drop_bom cs) \<subseteq> set cs"
  by (cases cs) (auto simp: drop_bom_def)

lemma set_fit: "set (fit cs n) \<subseteq> set cs"
  by (metis Un_iff fit_prefix set_append subsetI)

text \<open>A clipped name as the decoder gives it back.\<close>

lemma decode_clipped:
  assumes "clean s" "0 \<le> m"
  defines "cs \<equiv> drop_bom (fit (scalars s) (nat m))"
  shows "utf8_decode (clip_bytes (utf8_encode s) m) = utf16 cs"
    and "\<forall>c \<in> set cs. scalar_point c"
    and "int (length (concat (map utf8_point cs))) \<le> m"
proof -
  let ?f = "fit (scalars s) (nat m)"
  have sc: "\<forall>c \<in> set (scalars s). scalar_point c" using scalars_scalar assms(1) by blast
  then have f: "\<forall>c \<in> set ?f. scalar_point c" using set_fit by blast
  have "clip_bytes (utf8_encode s) m = concat (map utf8_point ?f)"
    using clip_bytes_fit [of "scalars s" "nat m"] sc assms(2)
    by (auto simp: utf8_encode_def scalar_point_def)
  then show "utf8_decode (clip_bytes (utf8_encode s) m) = utf16 cs"
    using utf8_decode_encoded [OF f] by (simp add: cs_def)
  show "\<forall>c \<in> set cs. scalar_point c" using f set_drop_bom [of ?f] by (auto simp: cs_def)
  show "int (length (concat (map utf8_point cs))) \<le> m"
    using length_drop_bom [of ?f] length_fit [of "scalars s" "nat m"] assms(2) unfolding cs_def by linarith
qed

end
