(* ===== verification/ValueType.thy ===== *)
theory ValueType
  imports Dates Unicode
begin

section \<open>Value types\<close>

text \<open>
  \<open>model/schemas/value-type.ts\<close>: the type of an attribute, a constant or a column, its
  default value and its checks. \<open>isWithinType\<close> decides whether a value of the right JSON
  form lies in the set of values of the type; the \<open>refine\<close> functions list the issues of a
  schema; \<open>defaultViolatesValueChecks\<close> finds a default that the column's own CHECK would
  refuse. Regular expressions of the user (\<open>new RegExp(pattern, "u")\<close>) are the argument
  \<open>rx\<close>: \<open>None\<close> when the pattern does not compile, its test otherwise.
\<close>

datatype logical_type =
  TUUID | TString | TText | TInteger | TSmallInt | TBigInt | TNumeric | TBoolean | TDate
  | TDateTime | TBytes | TJson | TRef

datatype metadata_kind =
  Catalog | Document | Enumeration | InformationRegister | AccumulationRegister | Constant
  | CustomTable | PgEnum | EventSubscription | RightsSet | Role

record metadata_ref =
  ref_kind :: metadata_kind
  ref_name :: jstr

record value_type =
  vtype :: logical_type
  vlength :: "nat option"
  vprecision :: "nat option"
  vscale :: "nat option"
  vref :: "metadata_ref option"
  vallowed :: "metadata_ref list option"
  varray :: "bool option"
  vcross :: bool

text \<open>\<open>{ type }\<close> without parameters.\<close>

definition plain_type :: "logical_type \<Rightarrow> value_type" where
  "plain_type t =
     \<lparr>vtype = t, vlength = None, vprecision = None, vscale = None, vref = None, vallowed = None,
      varray = None, vcross = False\<rparr>"

definition is_array :: "'a value_type_scheme \<Rightarrow> bool" where
  "is_array v \<longleftrightarrow> varray v = Some True"

datatype fill_value = Now | Today | NewUuid

datatype empty_value = EmptyTrue | EmptyObject | EmptyArray

datatype default_value = DStr jstr | DNum jsnum | DBool bool | DFill fill_value | DEmpty empty_value

fun fill_type :: "fill_value \<Rightarrow> logical_type" where
  "fill_type Now = TDateTime"
| "fill_type Today = TDate"
| "fill_type NewUuid = TUUID"

fun fill_distinct_per_row :: "fill_value \<Rightarrow> bool" where
  "fill_distinct_per_row Now = False"
| "fill_distinct_per_row Today = False"
| "fill_distinct_per_row NewUuid = True"

fun is_scalar_default :: "default_value \<Rightarrow> bool" where
  "is_scalar_default (DFill _) = False"
| "is_scalar_default (DEmpty _) = False"
| "is_scalar_default _ = True"

definition default_may_repeat :: "default_value \<Rightarrow> bool" where
  "default_may_repeat d = (\<not> (case d of DFill f \<Rightarrow> fill_distinct_per_row f | _ \<Rightarrow> False))"

subsection \<open>Values of a type\<close>

definition integer_range :: "logical_type \<Rightarrow> (int \<times> int) option" where
  "integer_range t =
     (case t of
        TSmallInt \<Rightarrow> Some (- (2 ^ 15), 2 ^ 15 - 1)
      | TInteger \<Rightarrow> Some (- (2 ^ 31), 2 ^ 31 - 1)
      | TBigInt \<Rightarrow> Some (- (2 ^ 53 - 1), 2 ^ 53 - 1)
      | _ \<Rightarrow> None)"

definition is_hex :: "nat \<Rightarrow> bool" where
  "is_hex c \<longleftrightarrow> is_digit c \<or> 97 \<le> c \<and> c \<le> 102 \<or> 65 \<le> c \<and> c \<le> 70"

text \<open>\<open>UUID_TEXT\<close>: hexadecimal digits with hyphens at 8, 13, 18 and 23.\<close>

definition uuid_text :: "jstr \<Rightarrow> bool" where
  "uuid_text s \<longleftrightarrow> length s = 36 \<and>
     (\<forall>i < 36. if i \<in> {8, 13, 18, 23} then s ! i = 45 else is_hex (s ! i))"

fun fits_type :: "logical_type \<Rightarrow> default_value \<Rightarrow> bool" where
  "fits_type t v =
     (let num = (case v of DNum _ \<Rightarrow> True | _ \<Rightarrow> False); str = (case v of DStr _ \<Rightarrow> True | _ \<Rightarrow> False)
      in case t of
           TBoolean \<Rightarrow> (case v of DBool _ \<Rightarrow> True | _ \<Rightarrow> False)
         | TSmallInt \<Rightarrow> num
         | TInteger \<Rightarrow> num
         | TBigInt \<Rightarrow> num \<or> str
         | TNumeric \<Rightarrow> num \<or> str
         | _ \<Rightarrow> str)"

text \<open>\<open>String(raw)\<close>\<close>

fun default_text :: "default_value \<Rightarrow> jstr" where
  "default_text (DStr s) = s"
| "default_text (DNum n) = num_text n"
| "default_text (DBool b) = (if b then js ''true'' else js ''false'')"
| "default_text _ = js ''[object Object]''"

definition int8_text :: "jstr \<Rightarrow> bool" where
  "int8_text s \<longleftrightarrow> integer_text s \<and> - (2 ^ 63) \<le> int_of_text s \<and> int_of_text s \<le> 2 ^ 63 - 1"

definition in_range :: "int \<times> int \<Rightarrow> jsnum \<Rightarrow> bool" where
  "in_range r n = (case num_int n of None \<Rightarrow> False | Some i \<Rightarrow> fst r \<le> i \<and> i \<le> snd r)"

definition is_number_default :: "default_value \<Rightarrow> bool" where
  "is_number_default d = (case d of DNum _ \<Rightarrow> True | _ \<Rightarrow> False)"

definition is_within_type :: "'a value_type_scheme \<Rightarrow> default_value \<Rightarrow> bool" where
  "is_within_type v raw =
     (let text = default_text raw
      in case (raw, integer_range (vtype v)) of
           (DNum n, Some r) \<Rightarrow> in_range r n
         | _ \<Rightarrow>
             (case vtype v of
                TBigInt \<Rightarrow> int8_text text
              | TNumeric \<Rightarrow>
                  (is_number_default raw \<or> decimal_text text)
                  \<and> fits_numeric text (vprecision v) (vscale v)
              | TUUID \<Rightarrow> uuid_text text
              | TString \<Rightarrow> (case vlength v of None \<Rightarrow> True | Some n \<Rightarrow> length (code_points text) \<le> n)
              | TDate \<Rightarrow> is_date text
              | TDateTime \<Rightarrow> is_date_time text
              | _ \<Rightarrow> True))"

subsection \<open>Issues of a value type\<close>

datatype unique_mode = Unique bool | IgnoreCase

datatype unique_within = WithinOwner | WithinParent

record attribute_value = value_type +
  default_value :: "default_value option"
  unique :: "unique_mode option"
  unique_within :: "unique_within option"
  required :: "bool option"
  non_negative :: bool
  positive :: bool
  min_value :: "default_value option"
  max_value :: "default_value option"
  pattern :: "jstr option"
  min_length :: "nat option"

record issue =
  rule :: string
  message :: string
  ipath :: "string list"
  expected :: "string option"

definition issue_of :: "string \<Rightarrow> string \<Rightarrow> string list \<Rightarrow> issue" where
  "issue_of r m p = \<lparr>rule = r, message = m, ipath = p, expected = None\<rparr>"

definition issue_when :: "bool \<Rightarrow> string \<Rightarrow> string \<Rightarrow> string list \<Rightarrow> issue list" where
  "issue_when b r m p = (if b then [issue_of r m p] else [])"

lemma issue_when_Nil [simp]: "issue_when b r m p = [] \<longleftrightarrow> \<not> b"
  by (simp add: issue_when_def)

definition fill_form :: "logical_type \<Rightarrow> string option" where
  "fill_form t =
     (case t of
        TDateTime \<Rightarrow> Some ''now'' | TDate \<Rightarrow> Some ''today'' | TUUID \<Rightarrow> Some ''newUuid'' | _ \<Rightarrow> None)"

definition dquoted :: "string \<Rightarrow> string" where
  "dquoted s = CHR 0x22 # s @ [CHR 0x22]"

definition refine_object_default :: "'a value_type_scheme \<Rightarrow> default_value \<Rightarrow> issue list" where
  "refine_object_default v d =
     (case d of
        DFill f \<Rightarrow>
          if is_array v \<or> vtype v \<noteq> fill_type f
          then [\<lparr>rule = ''type.default-fill-mismatch'', message = ''fill does not match the logical type'',
                 ipath = [''defaultValue''],
                 expected = Some (case fill_form (vtype v) of
                   Some form \<Rightarrow> if is_array v then '''' else ''{ '' @ dquoted ''fill'' @ '': '' @ dquoted form @ '' }''
                 | None \<Rightarrow> '''')\<rparr>]
          else []
      | DEmpty e \<Rightarrow>
          if (if is_array v then e = EmptyTrue else vtype v = TJson \<and> e \<noteq> EmptyTrue) then []
          else [\<lparr>rule = ''type.default-empty-mismatch'', message = ''empty does not match the logical type'',
                 ipath = [''defaultValue''],
                 expected = Some (if is_array v then ''{ '' @ dquoted ''empty'' @ '': true }''
                   else if vtype v = TJson
                   then ''{ '' @ dquoted ''empty'' @ '': '' @ dquoted ''object'' @ '' } or { '' @ dquoted ''empty''
                     @ '': '' @ dquoted ''array'' @ '' }''
                   else '''')\<rparr>]
      | _ \<Rightarrow> [])"

definition refine_unique :: "attribute_value \<Rightarrow> issue list" where
  "refine_unique v =
     issue_when (unique v = Some IgnoreCase \<and> (is_array v \<or> vtype v \<notin> {TString, TText}))
       ''type.unique-ignore-case-type'' ''unique ignoreCase applies only to a scalar String or Text''
       [''unique'']"

definition refine_unique_within :: "attribute_value \<Rightarrow> issue list" where
  "refine_unique_within v =
     issue_when (unique_within v \<noteq> None \<and> unique v \<in> {None, Some (Unique False)})
       ''attribute.unique-within-requires-unique'' ''uniqueWithin requires unique'' [''uniqueWithin'']"

definition refine_parameters :: "'a value_type_scheme \<Rightarrow> issue list" where
  "refine_parameters v =
     issue_when (vtype v = TString \<and> vlength v = None)
       ''type.length-required'' ''String type requires length'' [''length'']
     @ issue_when (vtype v \<noteq> TString \<and> vlength v \<noteq> None)
       ''type.length-not-allowed'' ''Only String type accepts length'' [''length'']
     @ issue_when (vtype v \<noteq> TNumeric \<and> vprecision v \<noteq> None)
       ''type.precision-not-allowed'' ''Only Numeric type accepts precision'' [''precision'']
     @ issue_when (vscale v \<noteq> None \<and> vprecision v = None)
       ''type.scale-requires-precision'' ''Scale requires precision'' [''scale'']
     @ issue_when (vcross v \<and> vtype v \<noteq> TRef)
       ''type.cross-scope-not-allowed'' ''Only Ref type accepts crossScope'' [''crossScope'']"

definition refine_reference :: "'a value_type_scheme \<Rightarrow> issue list" where
  "refine_reference v =
     (if vtype v = TRef then
        (if vref v = None \<and> vallowed v = None then
           [issue_of ''type.ref-target-required'' ''Ref type requires either ref or allowedTypes'' [''ref'']]
         else issue_when (vref v \<noteq> None \<and> vallowed v \<noteq> None)
           ''type.ref-exclusive'' ''ref and allowedTypes are mutually exclusive'' [''allowedTypes''])
      else
        issue_when (vref v \<noteq> None) ''type.ref-not-allowed'' ''Only Ref type accepts ref'' [''ref'']
        @ issue_when (vallowed v \<noteq> None)
          ''type.ref-not-allowed'' ''Only Ref type accepts allowedTypes'' [''allowedTypes''])"

definition refine_value_type :: "attribute_value \<Rightarrow> issue list" where
  "refine_value_type v =
     refine_parameters v @ refine_reference v @
     (case default_value v of
        None \<Rightarrow> []
      | Some d \<Rightarrow>
          if \<not> is_scalar_default d then refine_object_default v d
          else if is_array v \<or> vallowed v \<noteq> None \<or> vtype v = TBytes \<or> vtype v = TJson then
            [issue_of ''type.default-not-allowed''
               ''defaultValue is not allowed for an array, allowedTypes, Bytes or Json value''
               [''defaultValue'']]
          else if \<not> fits_type (vtype v) d then
            [issue_of ''type.default-mismatch'' ''defaultValue does not match the logical type''
               [''defaultValue'']]
          else issue_when (\<not> is_within_type v d)
            ''type.default-invalid'' ''defaultValue is outside the type'' [''defaultValue''])"

subsection \<open>Issues of the value checks\<close>

definition numeric_bound_type :: "logical_type \<Rightarrow> bool" where
  "numeric_bound_type t \<longleftrightarrow> t \<in> {TInteger, TSmallInt, TBigInt, TNumeric}"

definition is_letter_or_dash :: "nat \<Rightarrow> bool" where
  "is_letter_or_dash c \<longleftrightarrow> is_lower c \<or> is_upper c \<or> c = 45"

text \<open>
  \<open>usesJsOnlyRegexSyntax\<close>: one character of the pattern per turn, two after a backslash.
\<close>

fun js_only_syntax :: "bool \<Rightarrow> jstr \<Rightarrow> bool" where
  "js_only_syntax in_class [] = False"
| "js_only_syntax in_class (c # s) =
     (if c = 92 then
        (case s of
           [] \<Rightarrow> False
         | n # r \<Rightarrow>
             if n = 112 \<or> n = 80 \<or> n = 107 \<or> n = 120 then True
             else if n = 117 \<and> r \<noteq> [] \<and> hd r = 123 then True
             else if \<not> in_class \<and> (n = 98 \<or> n = 66) then True
             else js_only_syntax in_class r)
      else if in_class then js_only_syntax (c \<noteq> 93) s
      else if c = 91 then js_only_syntax True s
      else if c = 40 \<and> s \<noteq> [] \<and> hd s = 63 then
        (case tl s of
           [] \<Rightarrow> js_only_syntax False s
         | mark # r \<Rightarrow>
             if mark = 60 \<and> (r = [] \<or> hd r \<noteq> 61 \<and> hd r \<noteq> 33) then True
             else if is_letter_or_dash mark then True
             else js_only_syntax False s)
      else js_only_syntax False s)"

type_synonym regexp = "jstr \<Rightarrow> (jstr \<Rightarrow> bool) option"

definition bound_fits :: "'a value_type_scheme \<Rightarrow> default_value \<Rightarrow> bool" where
  "bound_fits v b \<longleftrightarrow>
     fits_type (vtype v) b \<and> (is_number_default b \<or> decimal_text (default_text b)) \<and> is_within_type v b"

definition bound_invalid :: "attribute_value \<Rightarrow> default_value option \<Rightarrow> bool" where
  "bound_invalid v b = (case b of None \<Rightarrow> False | Some x \<Rightarrow> \<not> bound_fits v x)"

text \<open>\<open>compareDecimals\<close> of the texts; \<open>None\<close> when it throws.\<close>

definition compare_values :: "default_value \<Rightarrow> default_value \<Rightarrow> int option" where
  "compare_values a b = compare_decimals (default_text a) (default_text b)"

definition bound_order :: "attribute_value \<Rightarrow> issue list option" where
  "bound_order v =
     (case (min_value v, max_value v) of
        (Some a, Some b) \<Rightarrow>
          if bound_invalid v (min_value v) \<or> bound_invalid v (max_value v) then Some []
          else map_option (\<lambda>c. issue_when (c > 0) ''type.bound-order'' ''minValue must not exceed maxValue''
                 [''minValue'']) (compare_values a b)
      | _ \<Rightarrow> Some [])"

definition bound_issues :: "attribute_value \<Rightarrow> issue list" where
  "bound_issues v =
     (let numeric = \<not> is_array v \<and> numeric_bound_type (vtype v);
          textual = \<not> is_array v \<and> vtype v \<in> {TString, TText};
          bound = (\<lambda>set key. issue_when (set \<and> \<not> numeric) ''type.bound-type''
            ''Numeric bounds apply only to a scalar Integer, SmallInt, BigInt or Numeric'' [key]);
          format = (\<lambda>set key. issue_when (set \<and> \<not> textual) ''type.format-type''
            ''pattern and minLength apply only to a scalar String or Text'' [key])
      in bound (non_negative v) ''nonNegative'' @ bound (positive v) ''positive''
         @ bound (min_value v \<noteq> None) ''minValue'' @ bound (max_value v \<noteq> None) ''maxValue''
         @ format (pattern v \<noteq> None) ''pattern'' @ format (min_length v \<noteq> None) ''minLength''
         @ (if numeric then
              issue_when (positive v \<and> non_negative v) ''type.bound-conflict''
                ''positive and nonNegative are mutually exclusive'' [''nonNegative'']
              @ issue_when (bound_invalid v (min_value v)) ''type.bound-invalid''
                ''minValue is outside the type'' [''minValue'']
              @ issue_when (bound_invalid v (max_value v)) ''type.bound-invalid''
                ''maxValue is outside the type'' [''maxValue'']
            else []))"

definition pattern_issues :: "regexp \<Rightarrow> attribute_value \<Rightarrow> issue list" where
  "pattern_issues rx v =
     (case pattern v of
        Some p \<Rightarrow>
          issue_when (\<not> is_array v \<and> vtype v \<in> {TString, TText} \<and> (rx p = None \<or> js_only_syntax False p))
            ''type.pattern-invalid''
            ''pattern is not a valid expression for both JavaScript and Postgres'' [''pattern'']
      | None \<Rightarrow> [])"

definition refine_value_checks :: "regexp \<Rightarrow> attribute_value \<Rightarrow> issue list option" where
  "refine_value_checks rx v =
     (if \<not> is_array v \<and> numeric_bound_type (vtype v)
      then map_option (\<lambda>order. bound_issues v @ order @ pattern_issues rx v) (bound_order v)
      else Some (bound_issues v @ pattern_issues rx v))"

subsection \<open>A default against the checks\<close>

text \<open>
  \<open>defaultViolatesValueChecks\<close>; \<open>None\<close> when it throws (a default or a bound that is no
  decimal, or a pattern that does not compile).
\<close>

fun all_conditions :: "bool option list \<Rightarrow> bool option" where
  "all_conditions [] = Some False"
| "all_conditions (None # cs) = None"
| "all_conditions (Some b # cs) = (if b then Some True else all_conditions cs)"

definition text_violations :: "regexp \<Rightarrow> attribute_value \<Rightarrow> jstr \<Rightarrow> bool option list" where
  "text_violations rx v s =
     (let textual = vtype v \<in> {TString, TText}
      in [Some (textual \<and> required v = Some True \<and> (\<forall>c \<in> set s. is_space c)),
          (case pattern v of
             Some p \<Rightarrow> if textual then map_option (\<lambda>test. \<not> test s) (rx p) else Some False
           | None \<Rightarrow> Some False),
          (case min_length v of
             Some n \<Rightarrow> Some (textual \<and> length (code_points s) < n)
           | None \<Rightarrow> Some False)])"

definition zero :: default_value where
  "zero = DNum (Dec 0 0)"

definition number_violations :: "attribute_value \<Rightarrow> default_value \<Rightarrow> bool option list" where
  "number_violations v d =
     (let less = (\<lambda>b. map_option (\<lambda>c. c < 0) (compare_values d b))
      in [if non_negative v then less zero else Some False,
          if positive v then map_option (\<lambda>c. c \<le> 0) (compare_values d zero) else Some False,
          (case min_value v of Some b \<Rightarrow> less b | None \<Rightarrow> Some False),
          (case max_value v of Some b \<Rightarrow> map_option (\<lambda>c. c > 0) (compare_values d b) | None \<Rightarrow> Some False)])"

definition default_violates :: "regexp \<Rightarrow> attribute_value \<Rightarrow> bool option" where
  "default_violates rx v =
     (case default_value v of
        None \<Rightarrow> Some False
      | Some d \<Rightarrow>
          if \<not> is_scalar_default d then Some False
          else all_conditions
            ((case d of DStr s \<Rightarrow> if is_array v then [] else text_violations rx v s | _ \<Rightarrow> [])
             @ (if \<not> is_array v \<and> numeric_bound_type (vtype v) \<and> (\<forall>b. d \<noteq> DBool b)
                then number_violations v d else [])))"

subsection \<open>The numbers of a type\<close>

lemma decimal_text_shape: "decimal_shape sg w dot f [] \<Longrightarrow> decimal_text (sg @ w @ dot @ f)"
proof -
  assume shape: "decimal_shape sg w dot f []"
  let ?r = "w @ dot @ f"
  have "is_digit (hd ?r) \<or> hd ?r = 46"
    using shape by (cases w) (auto simp: decimal_shape_def)
  then have hd: "?r \<noteq> []" "\<not> is_sign (hd ?r)"
    using shape by (auto simp: decimal_shape_def is_sign_def is_digit_def)
  have s: "strip_sign (sg @ ?r) = ?r"
    using strip_sign_append [OF hd, of sg] shape unfolding decimal_shape_def by blast
  have "takeWhile is_digit ?r = w"
    using shape by (intro takeWhile_all_before) (auto simp: decimal_shape_def is_digit_def)
  then show ?thesis
    using shape unfolding decimal_text_def s Let_def by (auto simp: decimal_shape_def)
qed

lemma not_e_shape: "decimal_shape sg w dot f [] \<Longrightarrow> \<forall>c \<in> set (sg @ w @ dot @ f). \<not> is_e c"
  by (auto simp: decimal_shape_def all_digits_def is_digit_def is_e_def)

lemma exponent_split_plain: "\<forall>c \<in> set t. \<not> is_e c \<Longrightarrow> exponent_split t = (t, 0)"
  by (simp add: exponent_split_def takeWhile_eq_all_conv [THEN iffD2])

lemma exponent_split_exp:
  assumes "\<forall>c \<in> set m. \<not> is_e c"
  shows "exponent_split (m @ exp_text i) = (m, i)"
proof -
  have "exponent_value (exp_text i) = Some i" by simp
  then have "integer_text (tl (exp_text i))" "int_of_text (tl (exp_text i)) = i"
    by (auto simp: exponent_value_def exp_text_def split: if_splits)
  then show ?thesis
    using assms by (simp add: exponent_split_def takeWhile_prefix exp_text_def is_e_def Let_def)
qed

lemma num_text_split:
  obtains k e' where "exponent_split (num_text (Dec m e)) = (k, e')" "decimal_text k"
proof (cases "m = 0")
  case True
  then show thesis
    using that [of "[48]" 0]
    by (simp add: exponent_split_plain is_e_def decimal_text_def strip_sign_def is_sign_def is_digit_def)
next
  case False
  define ds where "ds = show_nat (nat \<bar>m\<bar>)"
  define sg where "sg = (if m < 0 then [45::nat] else [])"
  have n: "num_text (Dec m e) = sg @ digits_text ds e" using False by (simp add: sg_def ds_def)
  have "all_digits ds" "ds \<noteq> []" by (simp_all add: ds_def)
  then obtain w dot f ex x where t: "digits_text ds e = w @ dot @ f @ ex" "decimal_shape [] w dot f ex"
      "exponent_value ex = Some x" "ex = [] \<or> ex = exp_text x"
    by (rule digits_text_shape)
  have shape: "decimal_shape sg w dot f []" using t(2) by (simp add: decimal_shape_def sg_def)
  have full: "num_text (Dec m e) = (sg @ w @ dot @ f) @ ex" using n t(1) by simp
  show thesis
    using t(4) exponent_split_plain [OF not_e_shape [OF shape]] exponent_split_exp [OF not_e_shape [OF shape]]
      decimal_text_shape [OF shape] that unfolding full by (elim disjE) (simp, blast)
qed

text \<open>
  A JSON number is accepted as a value of \<open>Numeric(p, s)\<close> exactly when it is one: the
  digit counting over the exponential or plain text of the number decides
  \<open>value = k / 10 ^ s\<close> with \<open>|k| < 10 ^ p\<close>, without rounding.
\<close>

theorem numeric_number_within:
  assumes "vtype v = TNumeric" "vprecision v = Some p" "vscale v = Some s" "s \<le> p"
  shows "is_within_type v (DNum (Dec m e)) \<longleftrightarrow> numeric_value p s (of_int m * pow10 e)"
proof -
  obtain k e' where split: "exponent_split (num_text (Dec m e)) = (k, e')" "decimal_text k"
    by (rule num_text_split)
  obtain x where "decimal_value (num_text (Dec m e)) = Some x"
    "fits_numeric (num_text (Dec m e)) (Some p) (Some s) \<longleftrightarrow> numeric_value p s x"
    using split assms(4) by (rule fits_numeric_value)
  then show ?thesis
    using assms(1,2,3)
    by (simp add: is_within_type_def integer_range_def is_number_default_def decimal_value_num_text
        del: num_text.simps)
qed

lemma numeric_number_within_witness:
  "is_within_type ((plain_type TNumeric)\<lparr>vprecision := Some 5, vscale := Some 2\<rparr>) (DNum (Dec 125 (-1)))
     \<longleftrightarrow> numeric_value 5 2 (of_int 125 * pow10 (-1))"
  by (rule numeric_number_within) (simp_all add: plain_type_def)

text \<open>
  The same for a decimal string: it is accepted exactly when it has the form of a
  decimal fraction and its value is a value of \<open>Numeric(p, s)\<close>.
\<close>

theorem numeric_text_within:
  assumes "vtype v = TNumeric" "vprecision v = Some p" "vscale v = Some s" "s \<le> p"
  shows "is_within_type v (DStr t) \<longleftrightarrow>
    decimal_text t \<and> (\<exists>x. decimal_value t = Some x \<and> numeric_value p s x)"
proof (cases "decimal_text t")
  case True
  obtain sg w dot f where t: "t = sg @ w @ dot @ f" "decimal_shape sg w dot f []"
    using True by (rule decimal_text_parts)
  have split: "exponent_split t = (t, 0)"
    using not_e_shape [OF t(2)] t(1) by (simp add: exponent_split_plain)
  obtain x where "decimal_value t = Some x" "fits_numeric t (Some p) (Some s) \<longleftrightarrow> numeric_value p s x"
    using split True assms(4) by (rule fits_numeric_value)
  then show ?thesis
    using assms(1,2,3) True by (simp add: is_within_type_def integer_range_def is_number_default_def)
next
  case False
  then show ?thesis
    using assms(1,2,3) by (simp add: is_within_type_def integer_range_def is_number_default_def)
qed

lemma numeric_text_within_witness:
  "is_within_type ((plain_type TNumeric)\<lparr>vprecision := Some 5, vscale := Some 2\<rparr>) (DStr (js ''1.5'')) \<longleftrightarrow>
    decimal_text (js ''1.5'') \<and> (\<exists>x. decimal_value (js ''1.5'') = Some x \<and> numeric_value 5 2 x)"
  by (rule numeric_text_within) (simp_all add: plain_type_def)

subsection \<open>An accepted default against its checks\<close>

lemma integer_text_value: "integer_text s \<Longrightarrow> \<exists>x. decimal_value s = Some x"
proof -
  assume s: "integer_text s"
  define sg where "sg = (if s \<noteq> [] \<and> is_sign (hd s) then [hd s] else [])"
  have "s = sg @ strip_sign s @ [] @ [] @ []" by (simp add: sg_def strip_sign_def)
  moreover have "decimal_shape sg (strip_sign s) [] [] []"
    using s by (auto simp: decimal_shape_def integer_text_def sg_def is_sign_def)
  moreover have "exponent_value [] = Some 0" by (simp add: exponent_value_def)
  ultimately show ?thesis by (metis decimal_value_shape)
qed

lemma decimal_text_value: "decimal_text s \<Longrightarrow> \<exists>x. decimal_value s = Some x"
proof -
  assume "decimal_text s"
  then obtain sg w dot f where "s = sg @ w @ dot @ f" "decimal_shape sg w dot f []"
    by (rule decimal_text_parts)
  moreover have "exponent_value [] = Some 0" by (simp add: exponent_value_def)
  ultimately show ?thesis using decimal_value_shape [of sg w dot f "[]" 0] by auto
qed

lemma number_value: "num_finite n \<Longrightarrow> \<exists>x. decimal_value (num_text n) = Some x"
  by (cases n) (simp_all add: decimal_value_num_text del: num_text.simps(4))

lemma in_range_finite: "in_range r n \<Longrightarrow> num_finite n"
  by (cases n) (auto simp: in_range_def)

lemma not_fits_infinite: "\<not> num_finite n \<Longrightarrow> \<not> fits_numeric (num_text n) p s"
  by (cases n)
    (auto simp: fits_numeric_def js_def exponent_split_plain is_e_def decimal_text_def strip_sign_def
      is_sign_def is_digit_def)

lemma fits_finite: "fits_numeric (num_text n) p s \<Longrightarrow> num_finite n"
  using not_fits_infinite by blast

lemma bound_value:
  assumes "numeric_bound_type (vtype v)" "fits_type (vtype v) d" "is_within_type v d"
  shows "\<exists>x. decimal_value (default_text d) = Some x"
proof (cases d)
  case (DStr s)
  then have "integer_text s \<or> decimal_text s"
    using assms by (auto simp: numeric_bound_type_def is_within_type_def integer_range_def
        int8_text_def is_number_default_def)
  then show ?thesis using DStr integer_text_value decimal_text_value by auto
next
  case (DNum n)
  then have "num_finite n"
    using assms
    by (auto dest: in_range_finite fits_finite
        simp: numeric_bound_type_def is_within_type_def integer_range_def Let_def split: option.splits)
  then show ?thesis using DNum number_value by simp
qed (use assms in \<open>auto simp: numeric_bound_type_def\<close>)

lemma compare_values_eq:
  "decimal_value (default_text a) = Some x \<Longrightarrow> decimal_value (default_text b) = Some y \<Longrightarrow>
   compare_values a b = Some (if x < y then - 1 else if x > y then 1 else 0)"
  by (simp add: compare_values_def compare_decimals_value)

lemma zero_value: "decimal_value (default_text zero) = Some 0"
  by (simp add: zero_def decimal_value_num_text del: num_text.simps)

text \<open>The condition of the checks, over the rationals.\<close>

definition meets_bounds :: "attribute_value \<Rightarrow> rat \<Rightarrow> bool" where
  "meets_bounds v x \<longleftrightarrow>
     (non_negative v \<longrightarrow> 0 \<le> x) \<and> (positive v \<longrightarrow> 0 < x)
     \<and> (\<forall>b \<in> set_option (min_value v). \<exists>y. decimal_value (default_text b) = Some y \<and> y \<le> x)
     \<and> (\<forall>b \<in> set_option (max_value v). \<exists>y. decimal_value (default_text b) = Some y \<and> x \<le> y)"

lemma accepted_default:
  assumes "refine_value_type v = []" "default_value v = Some d" "is_scalar_default d"
  shows "fits_type (vtype v) d" "is_within_type v d"
  using assms by (auto simp: refine_value_type_def issue_when_def issue_of_def split: if_splits)

lemma accepted_bounds:
  assumes "refine_value_checks rx v = Some []" "\<not> is_array v" "numeric_bound_type (vtype v)"
    and b: "min_value v = Some b \<or> max_value v = Some b"
  shows "\<exists>y. decimal_value (default_text b) = Some y"
proof -
  have "bound_issues v = []"
    using assms(1-3) by (auto simp: refine_value_checks_def)
  then have "bound_fits v b"
    using assms(2,3) b by (auto simp: bound_issues_def bound_invalid_def Let_def)
  then show ?thesis
    using bound_value [OF assms(3), of b] by (simp add: bound_fits_def del: fits_type.simps)
qed

lemma all_conditions_False: "\<forall>c \<in> set cs. c = Some False \<Longrightarrow> all_conditions (cs @ ds) = all_conditions ds"
  by (induction cs) auto

lemma number_violations_eq:
  assumes "decimal_value (default_text d) = Some x"
    and "\<And>b. min_value v = Some b \<or> max_value v = Some b \<Longrightarrow> \<exists>y. decimal_value (default_text b) = Some y"
  shows "all_conditions (number_violations v d) = Some (\<not> meets_bounds v x)"
proof -
  note cmp = compare_values_eq [OF assms(1)]
  have min: "(case min_value v of Some b \<Rightarrow> map_option (\<lambda>c. c < 0) (compare_values d b) | None \<Rightarrow> Some False)
      = Some (\<not> (\<forall>b \<in> set_option (min_value v). \<exists>y. decimal_value (default_text b) = Some y \<and> y \<le> x))"
    using assms(2) cmp by (fastforce split: option.split)
  have max: "(case max_value v of Some b \<Rightarrow> map_option (\<lambda>c. c > 0) (compare_values d b) | None \<Rightarrow> Some False)
      = Some (\<not> (\<forall>b \<in> set_option (max_value v). \<exists>y. decimal_value (default_text b) = Some y \<and> x \<le> y))"
    using assms(2) cmp by (fastforce split: option.split)
  have z: "map_option (\<lambda>c. c < 0) (compare_values d zero) = Some (\<not> 0 \<le> x)"
    "map_option (\<lambda>c. c \<le> 0) (compare_values d zero) = Some (\<not> 0 < x)"
    using cmp [OF zero_value] by auto
  show ?thesis
    unfolding number_violations_def Let_def min max z meets_bounds_def by auto
qed


definition quantity :: attribute_value where
  "quantity =
     \<lparr>vtype = TInteger, vlength = None, vprecision = None, vscale = None, vref = None, vallowed = None,
      varray = None, vcross = False, default_value = Some (DNum (Dec 5 0)), unique = None,
      unique_within = None, required = None, non_negative = True, positive = False,
      min_value = Some (DNum (Dec 1 0)), max_value = None, pattern = None, min_length = None\<rparr>"


end
