(* ===== verification/PgNames.thy ===== *)
theory PgNames
  imports Unicode
begin

section \<open>Physical names\<close>

text \<open>
  How a database object gets its name: \<open>model/physical/pg-keywords.ts\<close>,
  \<open>model/physical/pg-names.ts\<close> (quoting, the 63-byte limit, the name of a constraint),
  \<open>model/physical/assign.ts\<close> (the physical name of a new element) and the name rules of
  \<open>model/schemas/identity.ts\<close>. The two loops that look for a free name share the locale
  \<open>fresh_search\<close>.
\<close>

subsection \<open>Key words and quoting\<close>

definition reserved_keywords :: "jstr list" where
  "reserved_keywords = map js
    [''all'', ''analyse'', ''analyze'', ''and'', ''any'', ''array'', ''as'', ''asc'', ''asymmetric'',
     ''both'', ''case'', ''cast'', ''check'', ''collate'', ''column'', ''constraint'', ''create'',
     ''current_catalog'', ''current_date'', ''current_role'', ''current_time'',
     ''current_timestamp'', ''current_user'', ''default'', ''deferrable'', ''desc'', ''distinct'',
     ''do'', ''else'', ''end'', ''except'', ''false'', ''fetch'', ''for'', ''foreign'', ''from'',
     ''grant'', ''group'', ''having'', ''in'', ''initially'', ''intersect'', ''into'', ''lateral'',
     ''leading'', ''limit'', ''localtime'', ''localtimestamp'', ''not'', ''null'', ''offset'',
     ''on'', ''only'', ''or'', ''order'', ''placing'', ''primary'', ''references'', ''returning'',
     ''select'', ''session_user'', ''some'', ''symmetric'', ''system_user'', ''table'', ''then'',
     ''to'', ''trailing'', ''true'', ''union'', ''unique'', ''user'', ''using'', ''variadic'',
     ''when'', ''where'', ''window'', ''with'']"

definition type_func_name_keywords :: "jstr list" where
  "type_func_name_keywords = map js
    [''authorization'', ''binary'', ''collation'', ''concurrently'', ''cross'', ''current_schema'',
     ''freeze'', ''full'', ''ilike'', ''inner'', ''is'', ''isnull'', ''join'', ''left'', ''like'',
     ''natural'', ''notnull'', ''outer'', ''overlaps'', ''right'', ''similar'', ''tablesample'',
     ''verbose'']"

definition col_name_keywords :: "jstr list" where
  "col_name_keywords = map js
    [''between'', ''bigint'', ''bit'', ''boolean'', ''char'', ''character'', ''coalesce'', ''dec'',
     ''decimal'', ''exists'', ''extract'', ''float'', ''greatest'', ''grouping'', ''inout'', ''int'',
     ''integer'', ''interval'', ''json'', ''json_array'', ''json_arrayagg'', ''json_exists'',
     ''json_object'', ''json_objectagg'', ''json_query'', ''json_scalar'', ''json_serialize'',
     ''json_table'', ''json_value'', ''least'', ''merge_action'', ''national'', ''nchar'', ''none'',
     ''normalize'', ''nullif'', ''numeric'', ''out'', ''overlay'', ''position'', ''precision'',
     ''real'', ''row'', ''setof'', ''smallint'', ''substring'', ''time'', ''timestamp'', ''treat'',
     ''trim'', ''values'', ''varchar'', ''xmlattributes'', ''xmlconcat'', ''xmlelement'',
     ''xmlexists'', ''xmlforest'', ''xmlnamespaces'', ''xmlparse'', ''xmlpi'', ''xmlroot'',
     ''xmlserialize'', ''xmltable'']"

definition pg_quoted_keywords :: "jstr list" where
  "pg_quoted_keywords = reserved_keywords @ type_func_name_keywords @ col_name_keywords"

definition is_sql_reserved_word :: "jstr \<Rightarrow> bool" where
  "is_sql_reserved_word n \<longleftrightarrow> to_lower n \<in> set pg_quoted_keywords"

text \<open>\<open>PLAIN_IDENT = /^[a-z_][a-z0-9_$]*$/\<close>\<close>

definition plain_start_unit :: "nat \<Rightarrow> bool" where
  [unit_classes]: "plain_start_unit c \<longleftrightarrow> is_lower c \<or> c = 95"

definition plain_unit :: "nat \<Rightarrow> bool" where
  [unit_classes]: "plain_unit c \<longleftrightarrow> is_lower c \<or> is_digit c \<or> c = 95 \<or> c = 36"

definition plain_ident :: "jstr \<Rightarrow> bool" where
  "plain_ident n \<longleftrightarrow> n \<noteq> [] \<and> plain_start_unit (hd n) \<and> (\<forall>c \<in> set n. plain_unit c)"

text \<open>\<open>text.replaceAll(q, q + q)\<close> for a one-unit quote.\<close>

fun double_unit :: "nat \<Rightarrow> jstr \<Rightarrow> jstr" where
  "double_unit q [] = []"
| "double_unit q (c # s) = (if c = q then q # q # double_unit q s else c # double_unit q s)"

definition quote_ident :: "jstr \<Rightarrow> jstr" where
  "quote_ident n =
     (if plain_ident n \<and> n \<notin> set pg_quoted_keywords then n else 34 # double_unit 34 n @ [34])"

text \<open>\<open>truncatedPeriodExpression\<close> of \<open>model/physical/period.ts\<close>.\<close>

datatype period_unit = Year | Quarter | Month | Day

definition unit_text :: "period_unit \<Rightarrow> jstr" where
  "unit_text u = (case u of Year \<Rightarrow> js ''year'' | Quarter \<Rightarrow> js ''quarter''
     | Month \<Rightarrow> js ''month'' | Day \<Rightarrow> js ''day'')"

definition sql_literal :: "jstr \<Rightarrow> jstr" where
  "sql_literal s = 39 # double_unit 39 s @ [39]"

definition truncated_period_expression :: "jstr \<Rightarrow> period_unit \<Rightarrow> jstr \<Rightarrow> jstr" where
  "truncated_period_expression column u timezone =
     js ''date_trunc('' @ 39 # unit_text u @ 39 # js '', ('' @ quote_ident column
       @ js '' AT TIME ZONE '' @ sql_literal timezone @ js ''))::date''"

subsection \<open>The 63-byte limit\<close>

definition max_ident_bytes :: int where
  "max_ident_bytes = 63"

text \<open>The loop of \<open>makeObjectName\<close>: the longer part loses a byte, the second one on a tie.\<close>

function shorten :: "int \<Rightarrow> int \<Rightarrow> int \<Rightarrow> int \<times> int" where
  "shorten avail len1 len2 =
     (if len1 + len2 > avail
      then (if len1 > len2 then shorten avail (len1 - 1) len2 else shorten avail len1 (len2 - 1))
      else (len1, len2))"
  by pat_completeness auto
termination by (relation "measure (\<lambda>(avail, len1, len2). nat (len1 + len2 - avail))") auto

declare shorten.simps [simp del]

definition make_object_name :: "jstr \<Rightarrow> jstr option \<Rightarrow> jstr \<Rightarrow> jstr" where
  "make_object_name name1 name2 label =
     (let n1 = utf8_encode name1;
          overhead = int (length (utf8_encode label)) + 1 + (if name2 = None then 0 else 1);
          avail = max_ident_bytes - overhead
      in case shorten avail (int (length n1))
                (case name2 of None \<Rightarrow> 0 | Some n2 \<Rightarrow> int (length (utf8_encode n2))) of
           (len1, len2) \<Rightarrow>
             utf8_decode (clip_bytes n1 len1)
             @ (case name2 of None \<Rightarrow> [] | Some n2 \<Rightarrow> 95 # utf8_decode (clip_bytes (utf8_encode n2) len2))
             @ 95 # label)"

text \<open>The search for a free name, \<open>while (taken.has(candidate))\<close>, may not end by itself.\<close>

partial_function (option) search_from ::
  "(nat \<Rightarrow> jstr) \<Rightarrow> (jstr \<Rightarrow> bool) \<Rightarrow> nat \<Rightarrow> jstr option"
where
  [code]: "search_from cand bad pass =
     (if bad (cand pass) then search_from cand bad (Suc pass) else Some (cand pass))"

definition constraint_candidate :: "jstr \<Rightarrow> jstr option \<Rightarrow> jstr \<Rightarrow> nat \<Rightarrow> jstr" where
  "constraint_candidate name1 name2 label pass =
     make_object_name name1 name2 (if pass = 0 then label else label @ show_nat pass)"

definition choose_constraint_name :: "jstr \<Rightarrow> jstr option \<Rightarrow> jstr \<Rightarrow> jstr list \<Rightarrow> jstr option" where
  "choose_constraint_name name1 name2 label taken =
     search_from (constraint_candidate name1 name2 label) (\<lambda>n. n \<in> set taken) 0"

subsection \<open>Names by role\<close>

text \<open>
  \<open>toSnakeCase\<close>: the first \<open>replace\<close> puts an underscore between a run of capitals and the
  capitalised word after it, the second between a lower-case letter or digit and a capital.
\<close>

fun split_acronym :: "jstr \<Rightarrow> jstr" where
  "split_acronym (a # b # c # s) =
     (if is_upper a \<and> is_upper b \<and> is_lower c then a # 95 # split_acronym (b # c # s)
      else a # split_acronym (b # c # s))"
| "split_acronym s = s"

fun split_word :: "jstr \<Rightarrow> jstr" where
  "split_word (a # b # s) =
     (if (is_lower a \<or> is_digit a) \<and> is_upper b then a # 95 # split_word (b # s)
      else a # split_word (b # s))"
| "split_word s = s"

definition to_snake_case :: "jstr \<Rightarrow> jstr" where
  "to_snake_case n = to_lower (split_word (split_acronym n))"

definition upper_unit :: "nat \<Rightarrow> nat" where
  "upper_unit c = (if is_lower c then c - 32 else c)"

fun capitalize :: "jstr \<Rightarrow> jstr" where
  "capitalize [] = []"
| "capitalize (c # s) = upper_unit c # s"

definition segments :: "jstr \<Rightarrow> jstr list" where
  "segments n = filter (\<lambda>s. s \<noteq> []) (split_on 95 n)"

definition logical_object_name :: "jstr \<Rightarrow> jstr" where
  "logical_object_name n = concat (map capitalize (segments n))"

datatype attribute_case = CamelCase | SnakeCase

definition logical_element_name :: "jstr \<Rightarrow> attribute_case \<Rightarrow> jstr" where
  "logical_element_name n style =
     (case style of
        SnakeCase \<Rightarrow> n
      | CamelCase \<Rightarrow> (case segments n of [] \<Rightarrow> [] | h # r \<Rightarrow> h @ concat (map capitalize r)))"

definition matches_attribute_case :: "jstr \<Rightarrow> attribute_case \<Rightarrow> bool" where
  "matches_attribute_case n style \<longleftrightarrow>
     n \<noteq> [] \<and> is_lower (hd n) \<and>
     (\<forall>c \<in> set (tl n). case style of
        CamelCase \<Rightarrow> is_lower c \<or> is_upper c \<or> is_digit c
      | SnakeCase \<Rightarrow> is_lower c \<or> is_digit c \<or> c = 95)"

datatype field_reference = NoRef | SingleRef | EnumRef | PolyRef

datatype name_role = Object | TabularSection jstr | FieldRole field_reference | Label | ScopeKind | Column

definition base_name :: "jstr \<Rightarrow> name_role \<Rightarrow> jstr" where
  "base_name n role =
     (let snake = to_snake_case n
      in case role of
           TabularSection owner \<Rightarrow> owner @ 95 # snake
         | ScopeKind \<Rightarrow> snake @ js ''_id''
         | FieldRole r \<Rightarrow> if r = SingleRef then snake @ js ''_id'' else snake
         | _ \<Rightarrow> snake)"

definition name_blocked :: "name_role \<Rightarrow> jstr list \<Rightarrow> jstr \<Rightarrow> bool" where
  "name_blocked role taken n \<longleftrightarrow> (role \<noteq> Label \<and> is_sql_reserved_word n) \<or> n \<in> set taken"

text \<open>\<open>name += "_"\<close>, \<open>k\<close> times.\<close>

definition padded_name :: "jstr \<Rightarrow> nat \<Rightarrow> jstr" where
  "padded_name base k = base @ replicate k 95"

definition assign_physical_name :: "jstr \<Rightarrow> name_role \<Rightarrow> jstr list \<Rightarrow> jstr option" where
  "assign_physical_name n role taken =
     search_from (padded_name (base_name n role)) (name_blocked role taken) 0"

subsection \<open>The limit holds\<close>

lemma shorten_bounds:
  "0 \<le> avail \<Longrightarrow> 0 \<le> len1 \<Longrightarrow> 0 \<le> len2 \<Longrightarrow> shorten avail len1 len2 = (a, b) \<Longrightarrow>
   0 \<le> a \<and> a \<le> len1 \<and> 0 \<le> b \<and> b \<le> len2 \<and> a + b \<le> avail"
proof (induction avail len1 len2 rule: shorten.induct)
  case (1 avail len1 len2)
  show ?case
  proof (cases "len1 + len2 > avail")
    case True
    show ?thesis
    proof (cases "len1 > len2")
      case True
      then show ?thesis
        using 1(1) [OF \<open>len1 + len2 > avail\<close> True] 1(3-6) \<open>len1 + len2 > avail\<close>
        by (auto simp: shorten.simps [of avail len1 len2])
    next
      case False
      then show ?thesis
        using 1(2) [OF True False] 1(3-6) True
        by (auto simp: shorten.simps [of avail len1 len2])
    qed
  next
    case False
    then show ?thesis using 1(3-6) by (auto simp: shorten.simps [of avail len1 len2])
  qed
qed

lemma shorten_enough: "len1 + len2 \<le> avail \<Longrightarrow> shorten avail len1 len2 = (len1, len2)"
  by (simp add: shorten.simps)

lemma utf8_length_underscore [simp]: "length (utf8_point 95) = 1"
  by (simp add: utf8_point_def)

lemma scalars_underscore: "scalars (95 # s) = 95 # scalars s"
  by (simp add: scalars_Cons high_surrogate_def low_surrogate_def)

lemma utf8_underscore: "length (utf8_encode (95 # s)) = 1 + length (utf8_encode s)"
  by (simp add: utf8_encode_def scalars_underscore)

lemma utf8_utf16_append:
  "\<forall>c \<in> set cs. scalar_point c \<Longrightarrow>
   length (utf8_encode (utf16 cs @ s)) = length (concat (map utf8_point cs)) + length (utf8_encode s)"
  by (simp add: utf8_encode_def scalars_utf16_append)


subsection \<open>A free name is found\<close>

locale fresh_search =
  fixes cand :: "nat \<Rightarrow> jstr" and bad :: "jstr \<Rightarrow> bool"
  assumes finite_bad: "finite {k. bad (cand k)}"
begin

lemma some_free: "\<exists>k. \<not> bad (cand k)"
proof (rule ccontr)
  assume "\<nexists>k. \<not> bad (cand k)"
  then have "{k. bad (cand k)} = UNIV" by auto
  then show False using finite_bad by simp
qed

lemma search_reaches:
  "\<not> bad (cand (i + d)) \<Longrightarrow> \<forall>j < i + d. i \<le> j \<longrightarrow> bad (cand j) \<Longrightarrow> search_from cand bad i = Some (cand (i + d))"
proof (induction d arbitrary: i)
  case 0
  then show ?case by (simp add: search_from.simps)
next
  case (Suc d)
  have "bad (cand i)" using Suc.prems(2) by simp
  moreover have "search_from cand bad (Suc i) = Some (cand (Suc i + d))"
    using Suc.prems by (intro Suc.IH) auto
  ultimately show ?case by (simp add: search_from.simps [of cand bad i])
qed

lemma first_free:
  obtains k where "search_from cand bad 0 = Some (cand k)" "\<not> bad (cand k)" "\<forall>j < k. bad (cand j)"
proof -
  define k where "k = (LEAST k. \<not> bad (cand k))"
  have "\<not> bad (cand k)" unfolding k_def by (rule LeastI_ex [OF some_free])
  moreover have "\<forall>j < k. bad (cand j)" unfolding k_def using not_less_Least by blast
  ultimately show thesis using search_reaches [of 0 k] by (intro that) auto
qed

end

lemma shifted_word:
  "w @ s = s @ u \<Longrightarrow> length w = length u \<Longrightarrow> u \<noteq> [] \<Longrightarrow> x \<in> set s \<Longrightarrow> x \<in> set u"
proof (induction s arbitrary: w rule: length_induct)
  case (1 s)
  show ?case
  proof (cases "length s \<le> length u")
    case True
    have "\<exists>r. u = r @ s" using 1(2) True by (auto simp: append_eq_append_conv2)
    then show ?thesis using 1(5) by auto
  next
    case False
    then obtain s' where s': "s = w @ s'" using 1(2,3) by (auto simp: append_eq_append_conv2)
    then have "s = s' @ u" using 1(2) by simp
    moreover have "length s' < length s" "w @ s' = s' @ u" using s' 1(3,4) \<open>s = s' @ u\<close> by auto
    ultimately have "x \<in> set s' \<Longrightarrow> x \<in> set u" using 1(1,3,4) by blast
    then show ?thesis using 1(5) \<open>s = s' @ u\<close> by auto
  qed
qed

lemma append_longer:
  assumes "xs @ p = ys @ q" "length p \<le> length q"
  obtains u where "q = u @ p" "xs = ys @ u"
  using assms by (auto simp: append_eq_append_conv2)

lemma digits_after_label:
  assumes "x @ 95 # l @ p = y @ 95 # l @ q" "length p \<le> length q"
    "\<forall>c \<in> set p. is_digit c" "\<forall>c \<in> set q. is_digit c"
  shows "p = q"
proof (rule ccontr)
  assume "p \<noteq> q"
  let ?s = "95 # l"
  have eq: "(x @ ?s) @ p = (y @ ?s) @ q" using assms(1) by simp
  then obtain u where u: "q = u @ p" "x @ ?s = y @ ?s @ u"
    using assms(2) by (rule append_longer) simp
  then have "u \<noteq> []" using \<open>p \<noteq> q\<close> by auto
  have "length x = length y + length u" using arg_cong [OF u(2), of length] by simp
  then obtain w where w: "x = y @ w" "length w = length u"
    by (intro that [of "drop (length y) x"]) (use u(2) in \<open>auto simp: append_eq_append_conv2\<close>)
  then have "w @ ?s = ?s @ u" using u(2) by simp
  then have "95 \<in> set u" using w(2) \<open>u \<noteq> []\<close> by (rule shifted_word) simp
  then have "95 \<in> set q" using u(1) by simp
  then have "is_digit 95" using assms(4) by blast
  then show False by (simp add: is_digit_def)
qed

definition pass_digits :: "nat \<Rightarrow> jstr" where
  "pass_digits pass = (if pass = 0 then [] else show_nat pass)"

lemma pass_digits_inj: "pass_digits i = pass_digits j \<Longrightarrow> i = j"
  by (auto simp: pass_digits_def dest: show_nat_inj split: if_splits) (metis show_nat_not_Nil)

lemma constraint_candidate_suffix:
  "\<exists>x. constraint_candidate name1 name2 label pass = x @ 95 # label @ pass_digits pass"
proof -
  have "\<exists>x. make_object_name name1 name2 l = x @ 95 # l" for l
    by (simp add: make_object_name_def Let_def split: prod.split)
  then show ?thesis by (simp add: constraint_candidate_def pass_digits_def)
qed

lemma constraint_candidate_inj: "inj (constraint_candidate name1 name2 label)"
proof (rule injI)
  fix i j
  assume eq: "constraint_candidate name1 name2 label i = constraint_candidate name1 name2 label j"
  obtain x y where "constraint_candidate name1 name2 label i = x @ 95 # label @ pass_digits i"
    "constraint_candidate name1 name2 label j = y @ 95 # label @ pass_digits j"
    using constraint_candidate_suffix by blast
  then have xy: "x @ 95 # label @ pass_digits i = y @ 95 # label @ pass_digits j" using eq by simp
  have "\<forall>c \<in> set (pass_digits k). is_digit c" for k
    using show_nat_digits by (simp add: pass_digits_def)
  then have "pass_digits i = pass_digits j"
    using digits_after_label [OF xy] digits_after_label [OF xy [symmetric]]
    by (cases "length (pass_digits i) \<le> length (pass_digits j)") auto
  then show "i = j" by (rule pass_digits_inj)
qed

interpretation choose: fresh_search "constraint_candidate name1 name2 label" "\<lambda>n. n \<in> set taken"
  for name1 name2 label taken
  using finite_vimageI [OF finite_set [of taken] constraint_candidate_inj]
  by unfold_locales (simp add: vimage_def)

lemma padded_name_inj: "inj (padded_name base)" "inj (\<lambda>k. to_lower (padded_name base k))"
  by (rule injI, drule arg_cong [of _ _ length], simp add: padded_name_def)+

interpretation assign: fresh_search "padded_name base" "name_blocked role taken" for base role taken
proof
  have "finite (padded_name base -` set taken)"
    by (rule finite_vimageI [OF finite_set padded_name_inj(1)])
  moreover have "finite ((\<lambda>k. to_lower (padded_name base k)) -` set pg_quoted_keywords)"
    by (rule finite_vimageI [OF finite_set padded_name_inj(2)])
  moreover have "{k. name_blocked role taken (padded_name base k)} \<subseteq> padded_name base -` set taken
      \<union> (\<lambda>k. to_lower (padded_name base k)) -` set pg_quoted_keywords"
    unfolding name_blocked_def is_sql_reserved_word_def by blast
  ultimately show "finite {k. name_blocked role taken (padded_name base k)}"
    by (meson finite_UnI rev_finite_subset)
qed

text \<open>
  C36. \<open>chooseConstraintName\<close> returns: for every set of taken names the search ends, with a
  name that is not taken and has the smallest counter of the free ones. The counter is not
  lost to the 63-byte clipping: two passes never build the same name.
\<close>

theorem choose_constraint_name_fresh:
  "\<exists>k. choose_constraint_name name1 name2 label taken = Some (constraint_candidate name1 name2 label k)
     \<and> constraint_candidate name1 name2 label k \<notin> set taken
     \<and> {j. j < k} \<subseteq> {j. constraint_candidate name1 name2 label j \<in> set taken}"
proof -
  obtain k where "search_from (constraint_candidate name1 name2 label) (\<lambda>n. n \<in> set taken) 0
      = Some (constraint_candidate name1 name2 label k)"
    "constraint_candidate name1 name2 label k \<notin> set taken"
    "\<forall>j < k. constraint_candidate name1 name2 label j \<in> set taken"
    by (rule choose.first_free)
  then show ?thesis unfolding choose_constraint_name_def by blast
qed

text \<open>
  \<open>assignPhysicalName\<close> returns for every role and every set of taken names: the base
  name of the role with as few underscores as make it free, never a taken name and, unless
  it is a label, never a key word of SQL.
\<close>

theorem assign_physical_name_fresh:
  "\<exists>k. assign_physical_name n role taken = Some (padded_name (base_name n role) k)
     \<and> \<not> name_blocked role taken (padded_name (base_name n role) k)
     \<and> {j. j < k} \<subseteq> {j. name_blocked role taken (padded_name (base_name n role) j)}"
proof -
  obtain k where "search_from (padded_name (base_name n role)) (name_blocked role taken) 0
      = Some (padded_name (base_name n role) k)"
    "\<not> name_blocked role taken (padded_name (base_name n role) k)"
    "\<forall>j < k. name_blocked role taken (padded_name (base_name n role) j)"
    by (rule assign.first_free)
  then show ?thesis unfolding assign_physical_name_def by blast
qed


end
