(* ===== verification/PgTypes.thy ===== *)
theory PgTypes
  imports ValueType PgNames
begin

section \<open>Logical types and catalog types\<close>

text \<open>
  \<open>model/physical/pg-types.ts\<close>: a logical type as the text that \<open>format_type()\<close> of Postgres
  prints, and the way back from a catalog column. Reading back finds the scalar types in an
  object literal; \<open>object_members\<close> are the names such a lookup finds on its prototype.
\<close>

subsection \<open>To the database\<close>

definition number_or_undefined :: "nat option \<Rightarrow> jstr" where
  "number_or_undefined n = (case n of None \<Rightarrow> js ''undefined'' | Some k \<Rightarrow> show_nat k)"

definition base_type :: "'a value_type_scheme \<Rightarrow> metadata_kind option \<Rightarrow> jstr" where
  "base_type v target =
     (case vtype v of
        TUUID \<Rightarrow> js ''uuid''
      | TString \<Rightarrow> js ''character varying('' @ number_or_undefined (vlength v) @ js '')''
      | TText \<Rightarrow> js ''text''
      | TSmallInt \<Rightarrow> js ''smallint''
      | TInteger \<Rightarrow> js ''integer''
      | TBigInt \<Rightarrow> js ''bigint''
      | TNumeric \<Rightarrow>
          (case vprecision v of
             None \<Rightarrow> js ''numeric''
           | Some p \<Rightarrow> js ''numeric('' @ show_nat p @ js '',''
               @ show_nat (case vscale v of None \<Rightarrow> 0 | Some s \<Rightarrow> s) @ js '')'')
      | TBoolean \<Rightarrow> js ''boolean''
      | TDate \<Rightarrow> js ''date''
      | TDateTime \<Rightarrow> js ''timestamp with time zone''
      | TBytes \<Rightarrow> js ''bytea''
      | TJson \<Rightarrow> js ''jsonb''
      | TRef \<Rightarrow> if target = Some Enumeration then js ''text'' else js ''uuid'')"

definition pg_type_of :: "'a value_type_scheme \<Rightarrow> metadata_kind option \<Rightarrow> jstr" where
  "pg_type_of v target =
     (if is_array v then base_type v target @ js ''[]'' else base_type v target)"

definition pg_enum_type_name :: "jstr \<Rightarrow> jstr \<Rightarrow> jstr" where
  "pg_enum_type_name schema name = quote_ident schema @ js ''.'' @ quote_ident name"

subsection \<open>From the database\<close>

datatype column_type_form =
    LogicalForm value_type
  | EmptyLogical "bool option"
  | EnumForm jstr jstr
  | RawForm jstr

definition scalar_types :: "(jstr \<times> value_type) list" where
  "scalar_types =
     [(js ''uuid'', plain_type TUUID), (js ''text'', plain_type TText),
      (js ''smallint'', plain_type TSmallInt), (js ''integer'', plain_type TInteger),
      (js ''bigint'', plain_type TBigInt), (js ''boolean'', plain_type TBoolean),
      (js ''date'', plain_type TDate), (js ''timestamp with time zone'', plain_type TDateTime),
      (js ''bytea'', plain_type TBytes), (js ''jsonb'', plain_type TJson),
      (js ''numeric'', plain_type TNumeric)]"

definition object_members :: "jstr list" where
  "object_members = map js
     [''constructor'', ''__defineGetter__'', ''__defineSetter__'', ''hasOwnProperty'',
      ''__lookupGetter__'', ''__lookupSetter__'', ''isPrototypeOf'', ''propertyIsEnumerable'',
      ''toString'', ''valueOf'', ''__proto__'', ''toLocaleString'']"

definition strip_prefix :: "jstr \<Rightarrow> jstr \<Rightarrow> jstr option" where
  "strip_prefix p s = (if take (length p) s = p then Some (drop (length p) s) else None)"

definition digits_before :: "nat \<Rightarrow> jstr \<Rightarrow> (nat \<times> jstr) option" where
  "digits_before d s =
     (let n = takeWhile is_digit s; r = drop (length n) s
      in if n \<noteq> [] \<and> r \<noteq> [] \<and> hd r = d then Some (digits_val n, tl r) else None)"

text \<open>\<open>/^character varying\((\d+)\)$/\<close> and \<open>/^numeric\((\d+),(\d+)\)$/\<close>.\<close>

definition match_varchar :: "jstr \<Rightarrow> nat option" where
  "match_varchar s =
     (case strip_prefix (js ''character varying('') s of
        None \<Rightarrow> None
      | Some r \<Rightarrow> (case digits_before 41 r of Some (n, []) \<Rightarrow> Some n | _ \<Rightarrow> None))"

definition match_numeric :: "jstr \<Rightarrow> (nat \<times> nat) option" where
  "match_numeric s =
     (case strip_prefix (js ''numeric('') s of
        None \<Rightarrow> None
      | Some r \<Rightarrow>
          (case digits_before 44 r of
             None \<Rightarrow> None
           | Some (p, r') \<Rightarrow>
               (case digits_before 41 r' of Some (n, []) \<Rightarrow> Some (p, n) | _ \<Rightarrow> None)))"

text \<open>\<open>Some None\<close> is the empty object that spreading a prototype member gives.\<close>

definition logical_base :: "jstr \<Rightarrow> value_type option option" where
  "logical_base base =
     (case map_of scalar_types base of
        Some v \<Rightarrow> Some (Some v)
      | None \<Rightarrow>
          if base \<in> set object_members then Some None
          else (case match_varchar base of
            Some n \<Rightarrow>
              if n > 0 then Some (Some ((plain_type TString)\<lparr>vlength := Some n\<rparr>)) else None
          | None \<Rightarrow>
              (case match_numeric base of
                 None \<Rightarrow> None
               | Some (p, s) \<Rightarrow>
                   if p = 0 then None
                   else Some (Some ((plain_type TNumeric)\<lparr>vprecision := Some p,
                          vscale := if s = 0 then None else Some s\<rparr>)))))"

text \<open>\<open>parseQualifiedName\<close>: a part in quotes, up to its closing quote.\<close>

fun quoted_part :: "jstr \<Rightarrow> (jstr \<times> jstr) option" where
  "quoted_part [] = None"
| "quoted_part (c # s) =
     (if c = 34 then
        (case s of
           d # r \<Rightarrow> if d = 34 then map_option (\<lambda>(p, q). (34 # p, q)) (quoted_part r) else Some ([], s)
         | [] \<Rightarrow> Some ([], []))
      else map_option (\<lambda>(p, q). (c # p, q)) (quoted_part s))"

definition bare_unit :: "nat \<Rightarrow> bool" where
  "bare_unit c \<longleftrightarrow> c \<noteq> 46 \<and> c \<noteq> 34"

definition name_part :: "jstr \<Rightarrow> (jstr \<times> jstr) option" where
  "name_part t =
     (if t \<noteq> [] \<and> hd t = 34 then quoted_part (tl t)
      else Some (takeWhile bare_unit t, dropWhile bare_unit t))"

lemma quoted_part_length: "quoted_part s = Some (p, r) \<Longrightarrow> length r < length s"
  by (induction s arbitrary: p r rule: quoted_part.induct)
    (auto split: if_splits list.splits, fastforce)

lemma name_part_length: "name_part t = Some (p, r) \<Longrightarrow> length r \<le> length t"
  by (cases t) (auto simp: name_part_def dest!: quoted_part_length split: if_splits
      intro: le_SucI length_dropWhile_le)

function parse_qualified_name :: "jstr \<Rightarrow> jstr list option" where
  "parse_qualified_name t =
     (case name_part t of
        None \<Rightarrow> None
      | Some (part, r) \<Rightarrow>
          if part = [] then None
          else (case r of
                  [] \<Rightarrow> Some [part]
                | c # q \<Rightarrow> if c \<noteq> 46 then None
                          else map_option (\<lambda>ps. part # ps) (parse_qualified_name q)))"
  by pat_completeness auto
termination by (relation "measure length") (auto dest: name_part_length)

declare parse_qualified_name.simps [simp del]

text \<open>\<open>q.slice(0, dot)\<close> and \<open>q.slice(dot + 1)\<close> for \<open>dot = q.indexOf(".")\<close>.\<close>

definition before_dot :: "jstr \<Rightarrow> jstr" where
  "before_dot q = (if 46 \<in> set q then takeWhile (\<lambda>c. c \<noteq> 46) q else butlast q)"

definition after_dot :: "jstr \<Rightarrow> jstr" where
  "after_dot q = (if 46 \<in> set q then tl (dropWhile (\<lambda>c. c \<noteq> 46) q) else q)"

definition enum_pair :: "jstr \<Rightarrow> jstr list \<Rightarrow> (jstr \<times> jstr) option" where
  "enum_pair base enum_types =
     (case parse_qualified_name base of
        Some [schema, name] \<Rightarrow>
          if schema @ 46 # name \<in> set enum_types then Some (schema, name) else None
      | Some [name] \<Rightarrow>
          (case filter (\<lambda>q. after_dot q = name) enum_types of
             [q] \<Rightarrow> Some (before_dot q, name)
           | _ \<Rightarrow> None)
      | _ \<Rightarrow> None)"

definition ends_with_brackets :: "jstr \<Rightarrow> bool" where
  "ends_with_brackets t \<longleftrightarrow> drop (length t - 2) t = [91, 93]"

definition logical_type_of :: "jstr \<Rightarrow> jstr list \<Rightarrow> column_type_form" where
  "logical_type_of t enum_types =
     (let array = ends_with_brackets t;
          base = (if array then take (length t - 2) t else t)
      in case logical_base base of
           Some (Some v) \<Rightarrow> LogicalForm (if array then v\<lparr>varray := Some True\<rparr> else v)
         | Some None \<Rightarrow> EmptyLogical (if array then Some True else None)
         | None \<Rightarrow>
             (case (if array then None else enum_pair base enum_types) of
                None \<Rightarrow> RawForm t
              | Some (schema, name) \<Rightarrow> EnumForm schema name))"

subsection \<open>Names with quotes are read back\<close>

lemma quoted_part_double:
  "r = [] \<or> hd r \<noteq> 34 \<Longrightarrow> quoted_part (double_unit 34 n @ 34 # r) = Some (n, r)"
  by (induction n) (auto split: list.split)

lemma plain_ident_bare: "plain_ident n \<Longrightarrow> c \<in> set n \<Longrightarrow> bare_unit c"
  by (auto simp: plain_ident_def plain_unit_def bare_unit_def is_lower_def is_digit_def)

lemma takeWhile_bare: "\<forall>c \<in> set n. bare_unit c \<Longrightarrow> r = [] \<or> hd r = 46 \<Longrightarrow>
    takeWhile bare_unit (n @ r) = n \<and> dropWhile bare_unit (n @ r) = r"
  by (induction n) (auto simp: bare_unit_def takeWhile_eq_Nil_iff dropWhile_eq_self_iff)

lemma name_part_quote_ident:
  assumes "n \<noteq> []" "r = [] \<or> hd r = 46"
  shows "name_part (quote_ident n @ r) = Some (n, r)"
proof (cases "plain_ident n \<and> n \<notin> set pg_quoted_keywords")
  case True
  then have "hd n \<noteq> 34" using assms(1) plain_ident_bare [of n "hd n"] by (auto simp: bare_unit_def)
  moreover have "\<forall>c \<in> set n. bare_unit c" using True plain_ident_bare by blast
  ultimately show ?thesis
    using True takeWhile_bare [OF _ assms(2), of n] assms(1) by (simp add: quote_ident_def name_part_def)
next
  case False
  then show ?thesis
    using quoted_part_double [of r n] assms(2) by (auto simp: quote_ident_def name_part_def)
qed

text \<open>
  A qualified name is read back as it was quoted: for every schema and type name
  (capitals, dots, quotes and key words included), \<open>parseQualifiedName\<close> of the quoted parts
  joined by dots gives exactly the parts.
\<close>

theorem parse_quote_ident:
  assumes "ns \<noteq> []" "[] \<notin> set ns"
  shows "parse_qualified_name (join_with [46] (map quote_ident ns)) = Some ns"
  using assms
proof (induction ns rule: induct_list012)
  case (2 n)
  then show ?case
    using name_part_quote_ident [of n "[]"] by (simp add: parse_qualified_name.simps)
next
  case (3 n m ns)
  have "name_part (quote_ident n @ 46 # join_with [46] (map quote_ident (m # ns)))
      = Some (n, 46 # join_with [46] (map quote_ident (m # ns)))"
    using 3(4) by (intro name_part_quote_ident) auto
  moreover have "n \<noteq> []" using 3(4) by auto
  ultimately show ?case
    using 3(2,4) by (simp add: parse_qualified_name.simps [of "quote_ident n @ _"])
qed simp

lemma parse_quote_ident_witness:
  "parse_qualified_name (join_with [46] (map quote_ident [js ''app'', js ''Order.Kind''])) =
     Some [js ''app'', js ''Order.Kind'']"
  by (rule parse_quote_ident) simp_all

subsection \<open>Types are read back\<close>

lemma strip_prefix_append [simp]: "strip_prefix p (p @ s) = Some s"
  by (simp add: strip_prefix_def)

lemma digits_before_show [simp]:
  "\<not> is_digit d \<Longrightarrow> digits_before d (show_nat n @ d # r) = Some (n, r)"
  by (simp add: digits_before_def takeWhile_all_before)

lemma table_names: "list_all (\<lambda>k. 40 \<notin> set k \<and> 46 \<notin> set k) (map fst scalar_types @ object_members)"
  by (simp add: scalar_types_def object_members_def js_def)

lemma not_table_name:
  assumes "40 \<in> set t \<or> 46 \<in> set t"
  shows "map_of scalar_types t = None" "t \<notin> set object_members"
proof -
  have "t \<notin> set (map fst scalar_types @ object_members)"
    using table_names assms unfolding list_all_iff by blast
  then show "map_of scalar_types t = None" "t \<notin> set object_members"
    by (simp_all add: map_of_eq_None_iff)
qed

lemma js_marks: "js '')'' = [41]" "js '','' = [44]" "js ''[]'' = [91, 93]" "js ''.'' = [46]"
  by (simp_all add: js_def)

lemma match_varchar_show: "match_varchar (js ''character varying('' @ show_nat n @ js '')'') = Some n"
  by (simp add: match_varchar_def js_marks is_digit_def)

lemma not_varchar_numeric: "match_varchar (js ''numeric('' @ s) = None"
  by (simp add: match_varchar_def strip_prefix_def js_def)

lemma match_numeric_show:
  "match_numeric (js ''numeric('' @ show_nat p @ js '','' @ show_nat s @ js '')'') = Some (p, s)"
  by (simp add: match_numeric_def js_marks is_digit_def)

lemma logical_base_scalar:
  "(t, v) \<in> set scalar_types \<Longrightarrow> logical_base t = Some (Some v)"
proof -
  have "distinct (map fst scalar_types)" by (simp add: scalar_types_def)
  then show "(t, v) \<in> set scalar_types \<Longrightarrow> logical_base t = Some (Some v)"
    by (simp add: logical_base_def)
qed

lemma ends_with_brackets_append [simp]: "ends_with_brackets (s @ [91, 93])"
  by (simp add: ends_with_brackets_def)

lemma not_ends_with_brackets: "t \<noteq> [] \<Longrightarrow> last t \<noteq> 93 \<Longrightarrow> \<not> ends_with_brackets t"
  unfolding ends_with_brackets_def by (metis append_take_drop_id last.simps last_appendR list.discI)

text \<open>The short form of a type: what reading back chooses among the forms of one SQL type.\<close>

definition short_form :: "'a value_type_scheme \<Rightarrow> value_type" where
  "short_form v =
     (plain_type (vtype v))\<lparr>vlength := vlength v, vprecision := vprecision v,
        vscale := (if vscale v = Some 0 then None else vscale v),
        varray := (if is_array v then Some True else None)\<rparr>"

definition readable_type :: "'a value_type_scheme \<Rightarrow> bool" where
  "readable_type v \<longleftrightarrow>
     refine_parameters v = [] \<and> vtype v \<noteq> TRef \<and> vlength v \<noteq> Some 0 \<and> vprecision v \<noteq> Some 0"

lemma base_type_read:
  assumes "readable_type v"
  shows "logical_base (base_type v target) = Some (Some ((short_form v)\<lparr>varray := None\<rparr>))"
    and "\<not> ends_with_brackets (base_type v target)"
proof -
  have par: "vtype v \<noteq> TRef" "vlength v \<noteq> Some 0" "vprecision v \<noteq> Some 0"
    "vtype v = TString \<longleftrightarrow> vlength v \<noteq> None" "vtype v \<noteq> TNumeric \<Longrightarrow> vprecision v = None"
    "vprecision v = None \<Longrightarrow> vscale v = None"
    using assms by (auto simp: readable_type_def refine_parameters_def)
  consider (varchar) n where "vtype v = TString" "vlength v = Some n" "n > 0"
    | (numeric) p where "vtype v = TNumeric" "vprecision v = Some p" "p > 0" "vlength v = None"
    | (scalar) "vtype v \<notin> {TString, TRef}" "vlength v = None" "vprecision v = None" "vscale v = None"
    using par by (cases "vtype v"; cases "vlength v"; cases "vprecision v") auto
  then have "logical_base (base_type v target) = Some (Some ((short_form v)\<lparr>varray := None\<rparr>))
      \<and> \<not> ends_with_brackets (base_type v target)"
  proof cases
    case varchar
    let ?t = "js ''character varying('' @ show_nat n @ js '')''"
    have t: "base_type v target = ?t" using varchar by (simp add: base_type_def number_or_undefined_def)
    have "40 \<in> set ?t" "last ?t = 41" "?t \<noteq> []" by (simp_all add: js_def)
    then have "logical_base ?t = Some (Some ((plain_type TString)\<lparr>vlength := Some n\<rparr>))"
      "\<not> ends_with_brackets ?t"
      using varchar(3) not_table_name [of ?t] not_ends_with_brackets [of ?t]
      by (simp_all add: logical_base_def match_varchar_show)
    moreover have "short_form v\<lparr>varray := None\<rparr> = (plain_type TString)\<lparr>vlength := Some n\<rparr>"
      using varchar par by (simp add: short_form_def plain_type_def)
    ultimately show ?thesis unfolding t by simp
  next
    case numeric
    define k where "k = (case vscale v of None \<Rightarrow> 0 | Some s \<Rightarrow> s)"
    let ?t = "js ''numeric('' @ show_nat p @ js '','' @ show_nat k @ js '')''"
    have t: "base_type v target = ?t" using numeric by (simp add: base_type_def k_def)
    have "40 \<in> set ?t" "last ?t = 41" "?t \<noteq> []" by (simp_all add: js_def)
    then have "logical_base ?t = Some (Some ((plain_type TNumeric)\<lparr>vprecision := Some p,
        vscale := if k = 0 then None else Some k\<rparr>))" "\<not> ends_with_brackets ?t"
      using numeric(3) not_table_name [of ?t] not_ends_with_brackets [of ?t]
      by (simp_all add: logical_base_def match_numeric_show not_varchar_numeric)
    moreover have "(if k = 0 then None else Some k) = (if vscale v = Some 0 then None else vscale v)"
      by (simp add: k_def split: option.split)
    then have "short_form v\<lparr>varray := None\<rparr> = (plain_type TNumeric)\<lparr>vprecision := Some p,
        vscale := if k = 0 then None else Some k\<rparr>"
      using numeric by (simp add: short_form_def plain_type_def)
    ultimately show ?thesis unfolding t by simp
  next
    case scalar
    have "(base_type v target, plain_type (vtype v)) \<in> set scalar_types"
      using scalar by (cases "vtype v") (simp_all add: base_type_def scalar_types_def)
    moreover have "\<not> ends_with_brackets (base_type v target)"
      using scalar by (intro not_ends_with_brackets; cases "vtype v") (simp_all add: base_type_def js_Cons)
    ultimately show ?thesis
      using scalar by (simp add: logical_base_scalar short_form_def plain_type_def)
  qed
  then show "logical_base (base_type v target) = Some (Some ((short_form v)\<lparr>varray := None\<rparr>))"
    "\<not> ends_with_brackets (base_type v target)" by auto
qed



lemma digits_before_parts:
  "digits_before d s = Some (n, q) \<Longrightarrow> \<exists>ds. s = ds @ d # q \<and> all_digits ds"
proof -
  assume s: "digits_before d s = Some (n, q)"
  let ?n = "takeWhile is_digit s" and ?r = "drop (length (takeWhile is_digit s)) s"
  have "?r \<noteq> []" "hd ?r = d" "q = tl ?r" using s by (auto simp: digits_before_def Let_def split: if_splits)
  then have "s = ?n @ d # q" by (metis append_take_drop_id list.collapse takeWhile_eq_take)
  then show ?thesis by (metis all_digits_takeWhile)
qed

lemma strip_prefix_Some: "strip_prefix p s = Some r \<Longrightarrow> s = p @ r"
  by (auto simp: strip_prefix_def split: if_splits) (metis append_take_drop_id)

lemma no_dot_digits: "all_digits ds \<Longrightarrow> 46 \<notin> set ds"
  by (auto simp: all_digits_def is_digit_def)

lemma match_varchar_dot: "match_varchar t = Some n \<Longrightarrow> 46 \<notin> set t"
  by (auto simp: match_varchar_def js_def dest!: strip_prefix_Some digits_before_parts
      dest: no_dot_digits split: option.splits list.splits)

lemma match_numeric_dot: "match_numeric t = Some (p, n) \<Longrightarrow> 46 \<notin> set t"
proof -
  assume m: "match_numeric t = Some (p, n)"
  then obtain r q where "strip_prefix (js ''numeric('') t = Some r" "digits_before 44 r = Some (p, q)"
    "digits_before 41 q = Some (n, [])"
    by (auto simp: match_numeric_def split: option.splits list.splits)
  then obtain ds dt where t: "t = js ''numeric('' @ ds @ 44 # dt @ [41]" "all_digits ds" "all_digits dt"
    by (auto dest!: strip_prefix_Some digits_before_parts)
  show ?thesis
    using no_dot_digits [OF t(2)] no_dot_digits [OF t(3)] by (simp add: t(1) js_def)
qed

text \<open>
  An enum type of the database is recognised by its qualified name as \<open>pgEnumTypeName\<close>
  writes it, for every schema and name, quotes and dots included.
\<close>

theorem enum_type_read_back:
  assumes "schema \<noteq> []" "name \<noteq> []" "schema @ 46 # name \<in> set enum_types"
  shows "logical_type_of (pg_enum_type_name schema name) enum_types = EnumForm schema name"
proof -
  let ?t = "pg_enum_type_name schema name"
  have t: "?t = quote_ident schema @ 46 # quote_ident name"
    by (simp add: pg_enum_type_name_def js_Cons)
  have dot: "46 \<in> set ?t" by (simp add: t)
  then have base: "logical_base ?t = None"
  proof -
    have "map_of scalar_types ?t = None" "?t \<notin> set object_members"
      using not_table_name [of ?t] dot by blast+
    moreover have "match_varchar ?t = None" "match_numeric ?t = None"
      using match_varchar_dot [of ?t] match_numeric_dot [of ?t] dot by (metis not_None_eq prod.exhaust)+
    ultimately show ?thesis by (simp add: logical_base_def)
  qed
  have "\<not> plain_unit 93" by (simp add: plain_unit_def is_lower_def is_digit_def)
  then have "plain_ident name \<Longrightarrow> last name \<noteq> 93"
    using last_in_set [OF assms(2)] unfolding plain_ident_def by metis
  then have "quote_ident name \<noteq> []" "last (quote_ident name) \<noteq> 93"
    using assms(2) by (auto simp: quote_ident_def)
  then have "\<not> ends_with_brackets ?t"
    by (intro not_ends_with_brackets) (auto simp: t)
  moreover have "parse_qualified_name ?t = Some [schema, name]"
    using parse_quote_ident [of "[schema, name]"] assms by (simp add: t)
  ultimately show ?thesis
    using base assms(3) by (simp add: logical_type_of_def enum_pair_def)
qed

text \<open>
  An enum type whose name is a member of \<open>Object.prototype\<close> is not recognised when Postgres
  prints it without its schema: the lookup in the table of scalar types finds the member.
\<close>

lemma prototype_name_lost:
  "t \<in> set object_members \<Longrightarrow> \<not> ends_with_brackets t \<Longrightarrow> logical_type_of t enum_types = EmptyLogical None"
proof -
  assume t: "t \<in> set object_members" "\<not> ends_with_brackets t"
  have "list_all (\<lambda>k. map_of scalar_types k = None) object_members"
    by (simp add: object_members_def scalar_types_def js_def)
  then have "map_of scalar_types t = None" using t(1) by (simp add: list_all_iff)
  then show ?thesis using t by (simp add: logical_type_of_def logical_base_def)
qed

theorem enum_type_read_back_witness:
  "logical_type_of (pg_enum_type_name (js ''app'') (js ''order'')) [js ''app.order''] =
     EnumForm (js ''app'') (js ''order'')"
  by (rule enum_type_read_back) (simp_all add: js_def)

end
