(* ===== verification/Catalog.thy ===== *)
theory Catalog
  imports PgTypes "HOL-Library.AList"
begin

section \<open>JavaScript values, catalog entries and paths\<close>

text \<open>
  The data every part of the runtime shares: the values a command carries (\<open>unknown\<close> in the
  code), the catalog entry of \<open>model/runtime/catalog.ts\<close>, the error of
  \<open>model/runtime/errors.ts\<close>, the column lists of \<open>model/runtime/columns.ts\<close>, the paths of
  \<open>model/runtime/path.ts\<close> and the object renderer of \<open>model/runtime/jsonb.ts\<close>.
\<close>

subsection \<open>Values\<close>

text \<open>
  \<open>JHole\<close> is a missing element of a sparse array, \<open>JForeign\<close> anything that is neither a
  plain object nor an array nor a primitive of this list (a \<open>Date\<close>, a \<open>Map\<close>, a function).
\<close>

datatype jval =
    JUndef
  | JHole
  | JNull
  | JBool bool
  | JNum jsnum
  | JStr jstr
  | JBig int
  | JArr "jval list"
  | JObj "(jstr \<times> jval) list"
  | JForeign

type_synonym row = "(jstr \<times> jval) list"

text \<open>\<open>record[key]\<close>, \<open>Object.hasOwn(record, key)\<close> and \<open>out.set(key, value)\<close>.\<close>

definition get :: "row \<Rightarrow> jstr \<Rightarrow> jval" where
  "get r k = (case map_of r k of None \<Rightarrow> JUndef | Some v \<Rightarrow> v)"

definition own :: "row \<Rightarrow> jstr \<Rightarrow> bool" where
  "own r k \<longleftrightarrow> map_of r k \<noteq> None"

definition set_key :: "jstr \<Rightarrow> jval \<Rightarrow> row \<Rightarrow> row" where
  "set_key k v r = AList.update k v r"

fun set_keys :: "row \<Rightarrow> row \<Rightarrow> row" where
  "set_keys [] r = r"
| "set_keys ((k, v) # kvs) r = set_keys kvs (set_key k v r)"

lemma map_of_set_key [simp]: "map_of (set_key k v r) = (map_of r)(k \<mapsto> v)"
  by (simp add: set_key_def update_conv')

lemma map_of_set_keys: "distinct (map fst kvs) \<Longrightarrow> map_of (set_keys kvs r) = map_of r ++ map_of kvs"
proof (induction kvs arbitrary: r)
  case Nil
  then show ?case by simp
next
  case (Cons kv kvs)
  obtain k v where kv: "kv = (k, v)" by (cases kv)
  have "map_of kvs k = None" using Cons.prems kv by (simp add: map_of_eq_None_iff)
  then have "(map_of r)(k \<mapsto> v) ++ map_of kvs = map_of r ++ map_of ((k, v) # kvs)"
    by (intro ext) (simp add: map_add_def split: option.split)
  moreover have "map_of (set_keys kvs (set_key k v r)) = map_of (set_key k v r) ++ map_of kvs"
    using Cons.prems by (intro Cons.IH) simp
  ultimately show ?case by (simp only: kv set_keys.simps map_of_set_key)
qed

lemma own_iff: "own r k \<longleftrightarrow> (\<exists>v. map_of r k = Some v)"
  by (auto simp: own_def)

lemma get_eq: "map_of r k = Some v \<Longrightarrow> get r k = v"
  by (simp add: get_def)

text \<open>\<open>text.includes("\u0000")\<close> and a surrogate without its pair: text that Postgres refuses.\<close>

fun well_paired :: "jstr \<Rightarrow> bool" where
  "well_paired [] = True"
| "well_paired [c] = (\<not> high_surrogate c \<and> \<not> low_surrogate c)"
| "well_paired (c # d # s) =
     (if high_surrogate c then low_surrogate d \<and> well_paired s
      else \<not> low_surrogate c \<and> well_paired (d # s))"

definition storable :: "jstr \<Rightarrow> bool" where
  "storable s \<longleftrightarrow> 0 \<notin> set s \<and> well_paired s"

subsection \<open>Catalog entries\<close>

text \<open>
  One record per level holds what the shared entry of both catalogs and the entry of the runtime
  catalog know: the database types of attributes, the constraints, the operations and the facts
  of membership are empty in a client catalog.
\<close>

datatype attribute_type = Logical logical_type | Raw

record pair_columns =
  type_column :: jstr
  targets :: "(metadata_ref \<times> jstr) list"

record attribute =
  aname :: jstr
  acolumn :: jstr
  atype :: attribute_type
  aarray :: bool
  arequired :: bool
  amax_length :: "nat option"
  aprecision :: "nat option"
  ascale :: "nat option"
  ainsert :: bool
  aupdate :: bool
  agenerated :: bool
  aenum :: "(jstr \<times> jstr) list option"
  apair :: "pair_columns option"
  aref :: "(jstr \<times> jstr) option"
  alazy :: bool
  apg_type :: jstr
  acast_type :: jstr

datatype constraint_kind = PrimaryKey | UniqueKey | CheckConstraint | ForeignKey

record db_constraint =
  cn_name :: jstr
  cn_kind :: constraint_kind
  cn_columns :: "jstr list"
  cn_references :: "jstr list option"

record tabular_section =
  sid :: jstr
  sname :: jstr
  stable :: "jstr \<times> jstr"
  skey :: jstr
  skey_name :: jstr
  sparent :: jstr
  sparent_name :: jstr
  sline :: jstr
  sline_name :: jstr
  sparent_constraint :: jstr
  sattributes :: "attribute list"
  sconstraints :: "db_constraint list"

text \<open>The kernel function of an operation; a root \<open>create\<close> may name the membership catalog.\<close>

record operation_target =
  ofunction :: "jstr \<times> jstr"
  ocontext :: jstr

record object_operations =
  create_target :: "(operation_target \<times> jstr option option) option"
  update_target :: "operation_target option"
  mark_target :: "operation_target option"
  delete_target :: "operation_target option"

record entry =
  oid :: jstr
  oname :: jstr
  okind :: metadata_kind
  okind_label :: jstr
  otable :: "jstr \<times> jstr"
  okey :: jstr
  okey_name :: jstr
  oversion :: jstr
  oversion_name :: jstr
  oscope_kind :: "jstr option"
  oscope_column :: "jstr option"
  ocreator_membership :: "jstr option"
  okernel_hash :: jstr
  osignal :: bool
  oattributes :: "attribute list"
  osections :: "tabular_section list"
  oconstraints :: "db_constraint list"
  ooperations :: "object_operations option"
  omembership :: "jstr option"

fun kind_text :: "metadata_kind \<Rightarrow> jstr" where
  "kind_text Catalog = js ''Catalog''"
| "kind_text Document = js ''Document''"
| "kind_text Enumeration = js ''Enumeration''"
| "kind_text InformationRegister = js ''InformationRegister''"
| "kind_text AccumulationRegister = js ''AccumulationRegister''"
| "kind_text Constant = js ''Constant''"
| "kind_text CustomTable = js ''CustomTable''"
| "kind_text PgEnum = js ''PgEnum''"
| "kind_text EventSubscription = js ''EventSubscription''"
| "kind_text RightsSet = js ''RightsSet''"
| "kind_text Role = js ''Role''"

definition ref_key :: "metadata_ref \<Rightarrow> jstr" where
  "ref_key r = kind_text (ref_kind r) @ 46 # ref_name r"

definition entry_ref :: "entry \<Rightarrow> metadata_ref" where
  "entry_ref e = \<lparr>ref_kind = okind e, ref_name = oname e\<rparr>"

text \<open>\<open>catalogIndex\<close>: two maps, where a later object replaces an earlier one of the same key.\<close>

record catalog_index =
  by_id :: "jstr \<Rightarrow> entry option"
  by_ref :: "jstr \<Rightarrow> entry option"

definition catalog_index_of :: "entry list \<Rightarrow> catalog_index" where
  "catalog_index_of objects =
     \<lparr>by_id = map_of (rev (map (\<lambda>e. (oid e, e)) objects)),
      by_ref = map_of (rev (map (\<lambda>e. (ref_key (entry_ref e), e)) objects))\<rparr>"

lemma kind_text_no_dot: "46 \<notin> set (kind_text k)"
  by (cases k) (simp_all add: js_def)

lemma kind_text_inj: "kind_text k = kind_text l \<Longrightarrow> k = l"
  by (cases k; cases l) simp_all

lemma ref_key_inj: "ref_key r = ref_key q \<Longrightarrow> r = q"
proof -
  assume eq: "ref_key r = ref_key q"
  have "takeWhile (\<lambda>c. c \<noteq> 46) (ref_key x) = kind_text (ref_kind x)" for x
    using kind_text_no_dot [of "ref_kind x"] unfolding ref_key_def by (intro takeWhile_prefix) auto
  then have "kind_text (ref_kind r) = kind_text (ref_kind q)" using eq by metis
  moreover from this have "ref_name r = ref_name q" using eq by (simp add: ref_key_def)
  ultimately show "r = q" using kind_text_inj by (metis (full_types) metadata_ref.surjective old.unit.exhaust)
qed

lemma catalog_index_of_id:
  "by_id (catalog_index_of objects) i = Some e \<Longrightarrow> e \<in> set objects \<and> oid e = i"
  by (auto simp: catalog_index_of_def dest: map_of_SomeD)

lemma catalog_index_of_ref:
  "by_ref (catalog_index_of objects) k = Some e \<Longrightarrow> e \<in> set objects \<and> ref_key (entry_ref e) = k"
  by (auto simp: catalog_index_of_def dest: map_of_SomeD)

lemma catalog_index_of_lookup:
  "distinct (map oid objects) \<Longrightarrow> e \<in> set objects \<Longrightarrow> by_id (catalog_index_of objects) (oid e) = Some e"
  "distinct (map (ref_key \<circ> entry_ref) objects) \<Longrightarrow> e \<in> set objects \<Longrightarrow>
   by_ref (catalog_index_of objects) (ref_key (entry_ref e)) = Some e"
  by (auto simp: catalog_index_of_def comp_def intro!: map_of_is_SomeI)
    (simp_all add: comp_def flip: rev_map)

subsection \<open>Errors\<close>

datatype object_operation = Create | Update | MarkDeletion | Delete

record command_error =
  ecode :: string
  ereason :: "jstr option"
  eobject :: "metadata_ref option"
  eoperation :: "object_operation option"
  epath :: "jstr option"
  edetail :: "jstr option"
  ecurrent_version :: "int option"
  ekind :: "string option"
  eattributes :: "jstr list option"
  ehashes :: "(jstr \<times> jstr option) option"
  erole :: "jstr option"

definition error_of :: "string \<Rightarrow> command_error" where
  "error_of c =
     \<lparr>ecode = c, ereason = None, eobject = None, eoperation = None, epath = None, edetail = None,
      ecurrent_version = None, ekind = None, eattributes = None, ehashes = None, erole = None\<rparr>"

definition invalid :: "jstr \<Rightarrow> command_error" where
  "invalid p = (error_of ''command.invalid'')\<lparr>epath := Some p\<rparr>"

subsection \<open>Column lists\<close>

record column_lists =
  insert_columns :: "jstr list"
  update_columns :: "jstr list"
  read_columns :: "jstr list"
  lazy_columns :: "jstr list"

text \<open>A pair takes two columns: the value and the type of its target.\<close>

definition columns_of :: "attribute \<Rightarrow> jstr list" where
  "columns_of a = (case apair a of None \<Rightarrow> [acolumn a] | Some p \<Rightarrow> [acolumn a, type_column p])"

fun unique_columns :: "jstr list \<Rightarrow> jstr list" where
  "unique_columns [] = []"
| "unique_columns (c # cs) = c # filter (\<lambda>d. d \<noteq> c) (unique_columns cs)"

definition flat_columns :: "attribute list \<Rightarrow> jstr list" where
  "flat_columns attrs = concat (map columns_of attrs)"

definition section_columns :: "tabular_section \<Rightarrow> column_lists" where
  "section_columns s =
     \<lparr>insert_columns = unique_columns (skey s # flat_columns (filter ainsert (sattributes s))),
      update_columns = unique_columns (skey s # flat_columns (filter aupdate (sattributes s))),
      read_columns = unique_columns ([skey s, sparent s, sline s] @ flat_columns (sattributes s)),
      lazy_columns = []\<rparr>"

definition object_columns :: "entry \<Rightarrow> column_lists \<times> (jstr \<times> column_lists) list" where
  "object_columns e =
     (\<lparr>insert_columns = unique_columns (flat_columns (filter ainsert (oattributes e))),
       update_columns = unique_columns (flat_columns (filter aupdate (oattributes e))),
       read_columns = unique_columns ([okey e, oversion e]
         @ (case oscope_column e of None \<Rightarrow> [] | Some c \<Rightarrow> [c])
         @ flat_columns (filter (\<lambda>a. \<not> alazy a) (oattributes e))),
       lazy_columns = unique_columns (flat_columns (filter alazy (oattributes e)))\<rparr>,
      map (\<lambda>s. (sid s, section_columns s)) (osections e))"

lemma set_unique_columns [simp]: "set (unique_columns cs) = set cs"
  by (induction cs) auto

lemma distinct_unique_columns [simp]: "distinct (unique_columns cs)"
  by (induction cs) auto

text \<open>
  The column lists of an object cover it exactly: no column twice, and every column of
  every attribute, both columns of a pair included, in exactly one of the eager read and the
  lazy list unless an eager attribute shares it; the key and the version are always read.
\<close>

theorem object_columns_complete:
  "distinct (read_columns (fst (object_columns e))) \<and> distinct (lazy_columns (fst (object_columns e)))
   \<and> {okey e, oversion e} \<subseteq> set (read_columns (fst (object_columns e)))
   \<and> set (flat_columns (oattributes e))
       \<subseteq> set (read_columns (fst (object_columns e))) \<union> set (lazy_columns (fst (object_columns e)))
   \<and> set (insert_columns (fst (object_columns e))) \<union> set (update_columns (fst (object_columns e)))
       \<subseteq> set (flat_columns (oattributes e))"
  by (auto simp: object_columns_def flat_columns_def)

subsection \<open>Rendering a jsonb object\<close>

definition jsonb_pairs_per_call :: nat where
  "jsonb_pairs_per_call = 50"

function chunks :: "nat \<Rightarrow> 'a list \<Rightarrow> 'a list list" where
  "chunks n xs = (if xs = [] \<or> n = 0 then [] else take n xs # chunks n (drop n xs))"
  by pat_completeness auto
termination by (relation "measure (\<lambda>(n, xs). length xs)") auto

declare chunks.simps [simp del]

definition jsonb_call :: "jstr list \<Rightarrow> jstr" where
  "jsonb_call ps = js ''jsonb_build_object('' @ join_with (js '', '') ps @ js '')''"

text \<open>\<open>None\<close> is the \<open>Error\<close> thrown for an empty list of pairs.\<close>

definition jsonb_build_object :: "jstr list \<Rightarrow> jstr option" where
  "jsonb_build_object ps =
     (if ps = [] then None
      else (case map jsonb_call (chunks jsonb_pairs_per_call ps) of
              [c] \<Rightarrow> Some c
            | cs \<Rightarrow> Some (js ''('' @ join_with (js '' || '') cs @ js '')'')))"

lemma chunks_concat: "0 < n \<Longrightarrow> concat (chunks n xs) = xs"
  by (induction n xs rule: chunks.induct) (subst chunks.simps, auto)

lemma chunks_length: "0 < n \<Longrightarrow> c \<in> set (chunks n xs) \<Longrightarrow> c \<noteq> [] \<and> length c \<le> n"
proof (induction n xs rule: chunks.induct)
  case (1 n xs)
  then show ?case by (subst (asm) (2) chunks.simps) (auto split: if_splits)
qed

subsection \<open>A sample object\<close>

text \<open>A catalog of products with a tabular section, on which the properties are tried.\<close>

definition plain_attribute :: "jstr \<Rightarrow> jstr \<Rightarrow> logical_type \<Rightarrow> attribute" where
  "plain_attribute n c t =
     \<lparr>aname = n, acolumn = c, atype = Logical t, aarray = False, arequired = False,
      amax_length = None, aprecision = None, ascale = None, ainsert = True, aupdate = True,
      agenerated = False, aenum = None, apair = None, aref = None, alazy = False,
      apg_type = js ''text'', acast_type = js ''text''\<rparr>"

definition name_attribute :: attribute where
  "name_attribute = (plain_attribute (js ''fullName'') (js ''full_name'') TString)
     \<lparr>amax_length := Some 12\<rparr>"

definition price_attribute :: attribute where
  "price_attribute = (plain_attribute (js ''price'') (js ''unit_price'') TNumeric)
     \<lparr>aprecision := Some 10, ascale := Some 2\<rparr>"

definition owner_attribute :: attribute where
  "owner_attribute = (plain_attribute (js ''owner'') (js ''owner_id'') TRef)
     \<lparr>apair := Some \<lparr>type_column = js ''owner_type'',
       targets = [(\<lparr>ref_kind = Catalog, ref_name = js ''Person''\<rparr>, js ''Catalog.Person''),
                  (\<lparr>ref_kind = Document, ref_name = js ''Deal''\<rparr>, js ''Document.Deal'')]\<rparr>\<rparr>"

definition tags_attribute :: attribute where
  "tags_attribute = (plain_attribute (js ''marks'') (js ''mark_list'') TInteger)\<lparr>aarray := True\<rparr>"

definition packing_section :: tabular_section where
  "packing_section =
     \<lparr>sid = js ''s1'', sname = js ''packing'', stable = (js ''app'', js ''product_packing''),
      skey = js ''id'', skey_name = js ''id'', sparent = js ''product_id'', sparent_name = js ''productId'',
      sline = js ''line_no'', sline_name = js ''lineNo'', sparent_constraint = js ''product_packing_fk'',
      sattributes = [plain_attribute (js ''boxCount'') (js ''box_count'') TInteger],
      sconstraints = [\<lparr>cn_name = js ''product_packing_fk'', cn_kind = ForeignKey, cn_columns = [js ''product_id''],
        cn_references = Some [js ''id'']\<rparr>]\<rparr>"

definition product_entry :: entry where
  "product_entry =
     \<lparr>oid = js ''o1'', oname = js ''Product'', okind = Catalog, okind_label = js ''Catalog.Product'',
      otable = (js ''app'', js ''product''), okey = js ''id'', okey_name = js ''id'',
      oversion = js ''row_version'', oversion_name = js ''rowVersion'', oscope_kind = None,
      oscope_column = None, ocreator_membership = None, okernel_hash = js ''h'', osignal = True,
      oattributes = [name_attribute, price_attribute, owner_attribute, tags_attribute],
      osections = [packing_section],
      oconstraints = [\<lparr>cn_name = js ''product_name_key'', cn_kind = UniqueKey,
        cn_columns = [js ''id'', js ''full_name'', js ''owner_type'', js ''owner_id''], cn_references = None\<rparr>],
      ooperations = Some
        \<lparr>create_target = Some (\<lparr>ofunction = (js ''app'', js ''product_save''), ocontext = js ''create''\<rparr>, None),
         update_target = Some \<lparr>ofunction = (js ''app'', js ''product_save''), ocontext = js ''write''\<rparr>,
         mark_target = None,
         delete_target = Some \<lparr>ofunction = (js ''app'', js ''product_delete''), ocontext = js ''delete''\<rparr>\<rparr>,
      omembership = None\<rparr>"

lemmas sample_defs = plain_attribute_def name_attribute_def price_attribute_def owner_attribute_def
  tags_attribute_def packing_section_def product_entry_def

end
