(* ===== verification/Values.thy ===== *)
theory Values
  imports Catalog
begin

section \<open>Encoding the values of a command\<close>

text \<open>
  \<open>model/runtime/values.ts\<close>: a logical value is checked against its attribute and turned
  into the JSON that the kernel writes. A refusal is the error \<open>command.invalid\<close> with the
  path of the value. The last part is the interface between the code that writes rows by
  column and the code that reads them back: a \<open>codec\<close> promises the round trip of one
  attribute, and the round trip of a whole row is proved from it once.
\<close>

subsection \<open>Scalars\<close>

text \<open>\<open>/^\\x(?:[0-9a-fA-F]{2})*$/\<close>\<close>

definition bytes_text :: "jstr \<Rightarrow> bool" where
  "bytes_text s \<longleftrightarrow>
     take 2 s = [92, 120] \<and> (\<forall>c \<in> set (drop 2 s). is_hex c) \<and> even (length (drop 2 s))"

text \<open>\<open>pureJson\<close>: the value when it is plain JSON that Postgres can store.\<close>

fun pure_json :: "jval \<Rightarrow> bool" where
  "pure_json JNull = True"
| "pure_json (JBool b) = True"
| "pure_json (JStr s) = storable s"
| "pure_json (JNum n) = num_finite n"
| "pure_json (JArr vs) = (\<forall>v \<in> set vs. pure_json v)"
| "pure_json (JObj kvs) = (\<forall>kv \<in> set kvs. storable (fst kv) \<and> pure_json (snd kv))"
| "pure_json _ = False"

definition numeric_attribute :: "attribute \<Rightarrow> value_type" where
  "numeric_attribute a = (plain_type TNumeric)\<lparr>vprecision := aprecision a, vscale := ascale a\<rparr>"

definition string_attribute :: "attribute \<Rightarrow> value_type" where
  "string_attribute a = (plain_type TString)\<lparr>vlength := amax_length a\<rparr>"

definition guarded :: "bool \<Rightarrow> jval \<Rightarrow> jval option" where
  "guarded b v = (if b then Some v else None)"

lemma guarded_Some [simp]: "guarded b v = Some w \<longleftrightarrow> b \<and> w = v"
  by (auto simp: guarded_def)

text \<open>\<open>scalar\<close>: \<open>None\<close> stands for \<open>undefined\<close>, a value that is not of the type.\<close>

definition scalar_text :: "attribute \<Rightarrow> logical_type \<Rightarrow> jstr \<Rightarrow> jval option" where
  "scalar_text a t s =
     (case t of
        TBigInt \<Rightarrow> guarded (integer_text s \<and> is_within_type (plain_type TBigInt) (DStr s)) (JStr s)
      | TNumeric \<Rightarrow> guarded (is_within_type (numeric_attribute a) (DStr s)) (JStr s)
      | TString \<Rightarrow> guarded (is_within_type (string_attribute a) (DStr s)) (JStr s)
      | TText \<Rightarrow> Some (JStr s)
      | TUUID \<Rightarrow> guarded (uuid_text s) (JStr s)
      | TRef \<Rightarrow>
          (case aenum a of
             Some vs \<Rightarrow> map_option (\<lambda>nl. JStr (snd nl)) (find (\<lambda>nl. fst nl = s) vs)
           | None \<Rightarrow> guarded (uuid_text s) (JStr s))
      | TDate \<Rightarrow> guarded (is_date s) (JStr s)
      | TDateTime \<Rightarrow> guarded (is_date_time s) (JStr s)
      | TBytes \<Rightarrow> guarded (bytes_text s) (JStr s)
      | TJson \<Rightarrow> guarded (pure_json (JStr s)) (JStr s)
      | _ \<Rightarrow> None)"

definition scalar :: "attribute \<Rightarrow> jval \<Rightarrow> jval option" where
  "scalar a v =
     (if v = JNull then Some JNull
      else case atype a of
        Raw \<Rightarrow> None
      | Logical t \<Rightarrow>
          (case v of
             JStr s \<Rightarrow> if storable s then scalar_text a t s else None
           | JNum n \<Rightarrow>
               if t = TInteger \<or> t = TSmallInt then guarded (is_within_type (plain_type t) (DNum n)) v
               else if t = TJson then guarded (pure_json v) v else None
           | JBig i \<Rightarrow>
               if t = TBigInt then guarded (int8_text (show_int i)) (JStr (show_int i)) else None
           | JBool b \<Rightarrow> if t = TBoolean \<or> t = TJson then Some v else None
           | _ \<Rightarrow> if t = TJson then guarded (pure_json v) v else None))"

subsection \<open>Items\<close>

text \<open>\<open>encodePair\<close>: the label and the id of a polymorphic pair, both \<open>null\<close> for no pair.\<close>

definition pair_target :: "(metadata_ref \<times> jstr) list \<Rightarrow> jval \<Rightarrow> jstr option" where
  "pair_target ts t =
     (case t of
        JStr s \<Rightarrow> map_option snd (find (\<lambda>x. ref_key (fst x) = s) ts)
      | _ \<Rightarrow> None)"

definition encode_pair :: "attribute \<Rightarrow> jval \<Rightarrow> jstr \<Rightarrow> command_error + jval \<times> jval" where
  "encode_pair a v path =
     (let ts = (case apair a of None \<Rightarrow> [] | Some p \<Rightarrow> targets p)
      in case v of
           JNull \<Rightarrow> Inr (JNull, JNull)
         | JObj kvs \<Rightarrow>
             if length kvs \<noteq> 2 then Inl (invalid path)
             else (case get kvs (js ''id'') of
                     JStr i \<Rightarrow>
                       if \<not> uuid_text i then Inl (invalid path)
                       else (case pair_target ts (get kvs (js ''type'')) of
                               None \<Rightarrow> Inl (invalid path)
                             | Some label \<Rightarrow> Inr (JStr label, JStr i))
                   | _ \<Rightarrow> Inl (invalid path))
         | _ \<Rightarrow> Inl (invalid path))"

definition at_index :: "jstr \<Rightarrow> nat \<Rightarrow> jstr" where
  "at_index path i = path @ 46 # show_nat i"

fun encode_items :: "attribute \<Rightarrow> jstr \<Rightarrow> nat \<Rightarrow> jval list \<Rightarrow> command_error + jval list" where
  "encode_items a path i [] = Inr []"
| "encode_items a path i (v # vs) =
     (case (if v = JHole then None else scalar a v) of
        None \<Rightarrow> Inl (invalid (at_index path i))
      | Some w \<Rightarrow> bindE (encode_items a path (i + 1) vs) (\<lambda>ws. Inr (w # ws)))"

text \<open>
  \<open>encodeItemValue\<close>: the columns of an attribute with their values. A pair gives the object
  of its two columns, anything else the one column.
\<close>

definition encode_item_value :: "attribute \<Rightarrow> jval \<Rightarrow> jstr \<Rightarrow> command_error + jval" where
  "encode_item_value a v path =
     (if v = JUndef then Inl (invalid path)
      else case apair a of
        Some p \<Rightarrow>
          bindE (encode_pair a v path) (\<lambda>(label, i).
            Inr (JObj (set_keys [(type_column p, label), (acolumn a, i)] [])))
      | None \<Rightarrow>
          if aarray a \<and> v \<noteq> JNull then
            (case v of
               JArr vs \<Rightarrow> bindE (encode_items a path 0 vs) (\<lambda>ws. Inr (JArr ws))
             | _ \<Rightarrow> Inl (invalid path))
          else (case scalar a v of None \<Rightarrow> Inl (invalid path) | Some w \<Rightarrow> Inr w))"

subsection \<open>All attributes of an input\<close>

record encode_options =
  allowed :: "attribute \<Rightarrow> bool"
  forced :: "jstr list"
  opath :: jstr
  oprefix :: jstr
  row_key :: "jstr option"

text \<open>The columns that an encoded value writes.\<close>

definition encoded_columns :: "attribute \<Rightarrow> jval \<Rightarrow> row" where
  "encoded_columns a v =
     (case (apair a, v) of
        (Some p, JObj kvs) \<Rightarrow> kvs
      | _ \<Rightarrow> [(acolumn a, v)])"

fun encode_known ::
  "encode_options \<Rightarrow> row \<Rightarrow> attribute list \<Rightarrow> jstr list \<Rightarrow> row \<Rightarrow> command_error + jstr list \<times> row"
where
  "encode_known opts source [] keys columns = Inr (keys, columns)"
| "encode_known opts source (a # tail) keys columns =
     (if aname a \<notin> set keys then encode_known opts source tail keys columns
      else let p = oprefix opts @ aname a
           in if \<not> allowed opts a \<or> aname a \<in> set (forced opts) then Inl (invalid p)
              else bindE (encode_item_value a (get source (aname a)) p) (\<lambda>v.
                encode_known opts source tail (remove1 (aname a) keys)
                  (set_keys (encoded_columns a v) columns)))"

definition encode_attributes :: "attribute list \<Rightarrow> jval \<Rightarrow> encode_options \<Rightarrow> command_error + row" where
  "encode_attributes attrs values opts =
     (case values of
        JObj source \<Rightarrow>
          (let keys = map fst source;
               keys = (case row_key opts of None \<Rightarrow> keys | Some k \<Rightarrow> remove1 k keys)
           in bindE (encode_known opts source attrs keys []) (\<lambda>(rest, columns).
                case rest of
                  [] \<Rightarrow> Inr columns
                | k # _ \<Rightarrow> Inl (invalid (oprefix opts @ k))))
      | _ \<Rightarrow> Inl (invalid (opath opts)))"

subsection \<open>Only granted columns are written\<close>

lemma set_keys_dom: "fst ` set (set_keys kvs r) = fst ` set kvs \<union> fst ` set r"
proof (induction kvs arbitrary: r)
  case (Cons kv kvs)
  then show ?case by (cases kv) (auto simp: set_key_def dom_update)
qed simp

lemma encoded_columns_known:
  "encode_item_value a v path = Inr w \<Longrightarrow> fst ` set (encoded_columns a w) = set (columns_of a)"
  by (auto simp: encode_item_value_def encoded_columns_def columns_of_def bindE_eq_Inr set_key_def
      dom_update split: option.splits if_splits jval.splits)

lemma encode_known_keys:
  "encode_known opts source attrs keys columns = Inr (rest, out) \<Longrightarrow> distinct keys \<Longrightarrow>
   (\<forall>k \<in> set keys. k \<in> set rest \<or>
      (\<exists>a \<in> set attrs. aname a = k \<and> allowed opts a \<and> k \<notin> set (forced opts)))
   \<and> (\<forall>c \<in> fst ` set out. c \<in> fst ` set columns \<or>
      (\<exists>a \<in> set attrs. allowed opts a \<and> aname a \<notin> set (forced opts) \<and> aname a \<in> set keys
         \<and> c \<in> set (columns_of a)))"
proof (induction opts source attrs keys columns arbitrary: rest out rule: encode_known.induct)
  case (1 opts source keys columns)
  then show ?case by auto
next
  case (2 opts source a tail keys columns)
  show ?case
  proof (cases "aname a \<in> set keys")
    case False
    then show ?thesis using 2(1) [OF False] 2(3,4) by force
  next
    case True
    then obtain w where w: "allowed opts a" "aname a \<notin> set (forced opts)"
      "encode_item_value a (get source (aname a)) (oprefix opts @ aname a) = Inr w"
      "encode_known opts source tail (remove1 (aname a) keys) (set_keys (encoded_columns a w) columns)
        = Inr (rest, out)"
      using 2(3) by (auto simp: bindE_eq_Inr Let_def split: if_splits)
    have "distinct (remove1 (aname a) keys)" using 2(4) by simp
    note IH = 2(2) [OF _ refl _ w(4) this]
    show ?thesis
      using IH w(1,2) True 2(4) set_keys_dom [of "encoded_columns a w" columns]
        encoded_columns_known [OF w(3)]
      by (auto simp: distinct_remove1_removeAll)
  qed
qed

text \<open>
  C31. A command writes only what it was granted. When \<open>encodeAttributes\<close> accepts an input,
  every key of it (the row key aside) names an attribute that the caller may write and the
  platform does not force, and every column of the result belongs to such an attribute that
  the input names.
\<close>

theorem encode_attributes_granted:
  assumes "encode_attributes attrs (JObj source) opts = Inr columns" "distinct (map fst source)"
  shows "fst ` set source \<subseteq> set_option (row_key opts)
      \<union> aname ` {a \<in> set attrs. allowed opts a \<and> aname a \<notin> set (forced opts)}
    \<and> fst ` set columns \<subseteq> \<Union> (set ` columns_of `
      {a \<in> set attrs. allowed opts a \<and> aname a \<notin> set (forced opts) \<and> aname a \<in> fst ` set source})"
proof -
  define keys where "keys = (case row_key opts of None \<Rightarrow> map fst source | Some k \<Rightarrow> remove1 k (map fst source))"
  have known: "encode_known opts source attrs keys [] = Inr ([], columns)"
    using assms(1) unfolding encode_attributes_def keys_def Let_def jval.case bindE_eq_Inr
    by (auto split: list.split_asm) (metis list.exhaust)
  have "distinct keys" using assms(2) by (simp add: keys_def split: option.split)
  note ok = encode_known_keys [OF known this]
  have keys: "set keys \<subseteq> fst ` set source" "fst ` set source \<subseteq> set_option (row_key opts) \<union> set keys"
    using assms(2) by (auto simp: keys_def set_remove1_eq split: option.splits)
  have "fst ` set source \<subseteq> set_option (row_key opts)
      \<union> aname ` {a \<in> set attrs. allowed opts a \<and> aname a \<notin> set (forced opts)}"
  proof
    fix k assume "k \<in> fst ` set source"
    then show "k \<in> set_option (row_key opts)
        \<union> aname ` {a \<in> set attrs. allowed opts a \<and> aname a \<notin> set (forced opts)}"
    proof (cases "k \<in> set keys")
      case True
      then obtain a where "a \<in> set attrs" "aname a = k" "allowed opts a" "k \<notin> set (forced opts)"
        using ok by auto
      then show ?thesis by blast
    next
      case False
      then show ?thesis using \<open>k \<in> fst ` set source\<close> keys(2) by blast
    qed
  qed
  moreover have "fst ` set columns \<subseteq> \<Union> (set ` columns_of `
      {a \<in> set attrs. allowed opts a \<and> aname a \<notin> set (forced opts) \<and> aname a \<in> fst ` set source})"
  proof
    fix c assume "c \<in> fst ` set columns"
    then obtain a where "a \<in> set attrs" "allowed opts a" "aname a \<notin> set (forced opts)"
      "aname a \<in> set keys" "c \<in> set (columns_of a)"
      using ok by auto
    moreover from this have "aname a \<in> fst ` set source" using keys(1) by blast
    ultimately show "c \<in> \<Union> (set ` columns_of `
        {a \<in> set attrs. allowed opts a \<and> aname a \<notin> set (forced opts) \<and> aname a \<in> fst ` set source})"
      by (intro UnionI [of "set (columns_of a)"] imageI CollectI conjI) simp_all
  qed
  ultimately show ?thesis by blast
qed

theorem encode_attributes_granted_witness:
  "fst ` set [(js ''marks'', JArr [JNull])] \<subseteq> set_option None
      \<union> aname ` {a \<in> set (oattributes product_entry). ainsert a \<and> aname a \<notin> set []}"
  using encode_attributes_granted [of "oattributes product_entry" "[(js ''marks'', JArr [JNull])]"
      "\<lparr>allowed = ainsert, forced = [], opath = [], oprefix = [], row_key = None\<rparr>"
      "[(js ''mark_list'', JArr [JNull])]"]
  by (elim meta_impE)
    (simp_all add: encode_attributes_def encode_item_value_def scalar_def encoded_columns_def
      set_key_def sample_defs js_def Let_def get_def)

end
