(* ===== verification/Codec.thy ===== *)
theory Codec
  imports Values
begin

section \<open>Rows written by column and read back by name\<close>

text \<open>
  Two pairs of functions of the runtime walk the attributes of a level in the same way:
  \<open>encodeValues\<close> / \<open>decodeInto\<close> of \<open>wire.ts\<close> and the attribute loops of \<open>levelToWire\<close> /
  \<open>levelFromWire\<close> of \<open>mapping.ts\<close>. Here are the two loops, over the encoder and the decoder of
  one attribute, the contract between the encoder and the decoder (locale \<open>codec\<close>), and the
  round trip of a level that follows from it.
\<close>

text \<open>\<open>for (attribute of attributes) if (own(row, name)) out.set(column, encoded)\<close>\<close>

fun write_fields :: "(attribute \<Rightarrow> jval \<Rightarrow> 'e + row) \<Rightarrow> attribute list \<Rightarrow> row \<Rightarrow> row \<Rightarrow> 'e + row" where
  "write_fields enc [] r out = Inr out"
| "write_fields enc (a # tail) r out =
     (if \<not> own r (aname a) then write_fields enc tail r out
      else bindE (enc a (get r (aname a))) (\<lambda>kvs. write_fields enc tail r (set_keys kvs out)))"

definition present :: "attribute \<Rightarrow> row \<Rightarrow> bool" where
  "present a raw \<longleftrightarrow> (\<exists>k \<in> set (columns_of a). own raw k)"

text \<open>The reader; \<open>None\<close> of the decoder is the mark \<open>ABSENT\<close>.\<close>

fun read_fields :: "(attribute \<Rightarrow> row \<Rightarrow> 'e + jval option) \<Rightarrow> attribute list \<Rightarrow> row \<Rightarrow> row \<Rightarrow> 'e + row" where
  "read_fields dec [] raw out = Inr out"
| "read_fields dec (a # tail) raw out =
     (if \<not> present a raw then read_fields dec tail raw out
      else bindE (dec a raw) (\<lambda>v.
        read_fields dec tail raw (case v of None \<Rightarrow> out | Some x \<Rightarrow> set_key (aname a) x out)))"

lemma columns_of_flat: "a \<in> set attrs \<Longrightarrow> k \<in> set (columns_of a) \<Longrightarrow> k \<in> set (flat_columns attrs)"
  by (auto simp: flat_columns_def)

lemma columns_of_distinct: "distinct (flat_columns attrs) \<Longrightarrow> a \<in> set attrs \<Longrightarrow> distinct (columns_of a)"
  by (induction attrs) (auto simp: flat_columns_def)

lemma map_of_set_keys_other: "k \<notin> fst ` set kvs \<Longrightarrow> map_of (set_keys kvs r) k = map_of r k"
  by (induction kvs arbitrary: r) auto

lemma map_of_set_keys_same:
  "distinct (map fst kvs) \<Longrightarrow> (k, x) \<in> set kvs \<Longrightarrow> map_of (set_keys kvs r) k = Some x"
  by (simp add: map_of_set_keys map_add_def)

text \<open>The reader when every attribute it finds decodes.\<close>

lemma read_fields_lookup:
  assumes "\<forall>a \<in> set attrs. present a raw \<longrightarrow> dec a raw = Inr (Some (f a))" "distinct (map aname attrs)"
  shows "\<exists>out'. read_fields dec attrs raw out = Inr out' \<and>
    (\<forall>a \<in> set attrs. map_of out' (aname a) = (if present a raw then Some (f a) else map_of out (aname a))) \<and>
    (\<forall>n. n \<notin> aname ` set attrs \<longrightarrow> map_of out' n = map_of out n)"
  using assms
proof (induction attrs arbitrary: out)
  case (Cons a tail)
  define out1 where "out1 = (if present a raw then set_key (aname a) (f a) out else out)"
  obtain out' where out': "read_fields dec tail raw out1 = Inr out'"
    "\<forall>b \<in> set tail. map_of out' (aname b) = (if present b raw then Some (f b) else map_of out1 (aname b))"
    "\<forall>n. n \<notin> aname ` set tail \<longrightarrow> map_of out' n = map_of out1 n"
    using Cons.IH [of out1] Cons.prems by auto
  have "read_fields dec (a # tail) raw out = Inr out'"
    using out'(1) Cons.prems(1) by (auto simp: out1_def)
  moreover have "aname a \<notin> aname ` set tail" using Cons.prems(2) by simp
  moreover from this have "\<forall>b \<in> set tail. aname b \<noteq> aname a" by (metis imageI)
  ultimately show ?case
    using out'(2,3) by (intro exI [of _ out']) (auto simp: out1_def)
qed simp

lemma set_key_dom: "fst ` set (set_key k v r) = insert k (fst ` set r)"
  by (auto simp: set_key_def dom_update)

lemma write_fields_keys:
  "write_fields enc attrs r out = Inr w \<Longrightarrow> (\<And>a v kvs. enc a v = Inr kvs \<Longrightarrow> fst ` set kvs \<subseteq> set (columns_of a)) \<Longrightarrow>
   fst ` set w \<subseteq> fst ` set out \<union> set (flat_columns attrs)"
proof (induction attrs arbitrary: out)
  case (Cons a attrs)
  show ?case
  proof (cases "own r (aname a)")
    case False
    then show ?thesis using Cons by (auto simp: flat_columns_def)
  next
    case True
    then obtain kvs where kvs: "enc a (get r (aname a)) = Inr kvs"
      "write_fields enc attrs r (set_keys kvs out) = Inr w"
      using Cons.prems(1) by (auto simp: bindE_eq_Inr)
    have cols: "set (flat_columns (a # attrs)) = set (columns_of a) \<union> set (flat_columns attrs)"
      by (simp add: flat_columns_def)
    have chain: "W \<subseteq> K \<union> R \<union> T \<Longrightarrow> K \<subseteq> C \<Longrightarrow> W \<subseteq> R \<union> (C \<union> T)" for W K R T C :: "jstr set"
      by blast
    show ?thesis
      unfolding cols by (rule chain [OF Cons.IH [OF kvs(2) Cons.prems(2), unfolded set_keys_dom] Cons.prems(2) [OF kvs(1)]])
  qed
qed simp

subsection \<open>Fixed fields\<close>

text \<open>
  The statements \<open>if (own(row, name)) out.set(column, f(row[name]))\<close> that stand before the loop
  over the attributes, in their order.
\<close>

fun copy_fields :: "(jstr \<times> jstr \<times> (jval \<Rightarrow> 'e + jval)) list \<Rightarrow> row \<Rightarrow> row \<Rightarrow> 'e + row" where
  "copy_fields [] r out = Inr out"
| "copy_fields ((from, to, f) # rest) r out =
     (if own r from then bindE (f (get r from)) (\<lambda>v. copy_fields rest r (set_key to v out))
      else copy_fields rest r out)"

lemma copy_fields_keys:
  "copy_fields cs r out = Inr w \<Longrightarrow> fst ` set w \<subseteq> fst ` set out \<union> (fst \<circ> snd) ` set cs"
proof (induction cs r out rule: copy_fields.induct)
  case (2 n k f cs r out)
  show ?case
  proof (cases "own r n")
    case True
    then obtain v where v: "f (get r n) = Inr v" "copy_fields cs r (set_key k v out) = Inr w"
      using "2.prems" by (auto simp: bindE_eq_Inr)
    then show ?thesis using "2.IH"(1) [OF True v(2)] by (auto simp: set_key_dom)
  qed (use 2 in auto)
qed simp

text \<open>
  A fixed field with its two directions and what it looks like after both.
\<close>

record ('e, 'f) fixed_field =
  fname :: jstr
  fcolumn :: jstr
  fenc :: "jval \<Rightarrow> 'e + jval"
  fdec :: "jval \<Rightarrow> 'f + jval"
  fview :: "jval \<Rightarrow> jval"

definition field_ok :: "('e, 'f) fixed_field \<Rightarrow> bool" where
  "field_ok f \<longleftrightarrow> (\<forall>x y. fenc f x = Inr y \<longrightarrow> fdec f y = Inr (fview f x))"

abbreviation (input) encode_fixed where
  "encode_fixed fs \<equiv> copy_fields (map (\<lambda>f. (fname f, fcolumn f, fenc f)) fs)"

abbreviation (input) decode_fixed where
  "decode_fixed fs \<equiv> copy_fields (map (\<lambda>f. (fcolumn f, fname f, fdec f)) fs)"

lemma encode_fixed_map:
  "encode_fixed fs r out = Inr w \<Longrightarrow> distinct (map fcolumn fs) \<Longrightarrow>
   (\<forall>k. k \<notin> fcolumn ` set fs \<longrightarrow> map_of w k = map_of out k) \<and>
   (\<forall>f \<in> set fs. if own r (fname f)
      then \<exists>v. fenc f (get r (fname f)) = Inr v \<and> map_of w (fcolumn f) = Some v
      else map_of w (fcolumn f) = map_of out (fcolumn f))"
proof (induction fs arbitrary: out)
  case (Cons f fs)
  have dis: "distinct (map fcolumn fs)" "fcolumn f \<notin> fcolumn ` set fs" using Cons.prems(2) by auto
  show ?case
  proof (cases "own r (fname f)")
    case False
    then show ?thesis using Cons.IH [OF _ dis(1)] Cons.prems(1) dis(2) by auto
  next
    case True
    then obtain v where v: "fenc f (get r (fname f)) = Inr v" "encode_fixed fs r (set_key (fcolumn f) v out) = Inr w"
      using Cons.prems(1) by (auto simp: bindE_eq_Inr)
    from Cons.IH [OF v(2) dis(1)] v(1) True dis(2) show ?thesis
      by (auto split: if_splits) (metis image_eqI)+
  qed
qed simp

lemma decode_fixed_map:
  "\<forall>f \<in> set fs. if own r (fname f) then \<exists>v. map_of raw (fcolumn f) = Some v \<and> fdec f v = Inr (fview f (get r (fname f)))
     else map_of raw (fcolumn f) = None \<Longrightarrow> distinct (map fname fs) \<Longrightarrow>
   \<exists>p. decode_fixed fs raw out = Inr p \<and> (\<forall>n. n \<notin> fname ` set fs \<longrightarrow> map_of p n = map_of out n) \<and>
     (\<forall>f \<in> set fs. map_of p (fname f) =
        (if own r (fname f) then Some (fview f (get r (fname f))) else map_of out (fname f)))"
proof (induction fs arbitrary: out)
  case (Cons f fs)
  define out1 where "out1 = (if own r (fname f) then set_key (fname f) (fview f (get r (fname f))) out else out)"
  obtain p where p: "decode_fixed fs raw out1 = Inr p" "\<forall>n. n \<notin> fname ` set fs \<longrightarrow> map_of p n = map_of out1 n"
    "\<forall>f \<in> set fs. map_of p (fname f) =
      (if own r (fname f) then Some (fview f (get r (fname f))) else map_of out1 (fname f))"
    using Cons.IH [of out1] Cons.prems by auto
  have "decode_fixed (f # fs) raw out = Inr p"
    using p(1) Cons.prems(1) by (auto simp: out1_def own_def get_def split: if_splits)
  moreover have "fname f \<notin> fname ` set fs" using Cons.prems(2) by simp
  moreover from this have "\<forall>g \<in> set fs. fname g \<noteq> fname f" by (metis imageI)
  ultimately show ?case using p(2,3) by (intro exI [of _ p]) (auto simp: out1_def)
qed simp

subsection \<open>What a level looks like afterwards\<close>

text \<open>
  The names and the columns of a level are distinct, the fixed ones (key, version, line number,
  sections) included.
\<close>

definition level_ok :: "(attribute \<Rightarrow> bool) \<Rightarrow> jstr list \<Rightarrow> jstr list \<Rightarrow> attribute list \<Rightarrow> bool" where
  "level_ok good names columns attrs \<longleftrightarrow>
     distinct (names @ map aname attrs) \<and> distinct (columns @ flat_columns attrs)
     \<and> (\<forall>a \<in> set attrs. good a)"

definition level_fits :: "(attribute \<Rightarrow> jval \<Rightarrow> bool) \<Rightarrow> attribute list \<Rightarrow> row \<Rightarrow> bool" where
  "level_fits ok attrs r \<longleftrightarrow> (\<forall>a \<in> set attrs. own r (aname a) \<longrightarrow> ok a (get r (aname a)))"

definition level_view :: "(attribute \<Rightarrow> jval \<Rightarrow> jval) \<Rightarrow> attribute list \<Rightarrow> row \<Rightarrow> jstr \<Rightarrow> jval option" where
  "level_view canon attrs r n =
     (case find (\<lambda>a. aname a = n) attrs of
        None \<Rightarrow> None
      | Some a \<Rightarrow> if own r n then Some (canon a (get r n)) else None)"

text \<open>The whole level: the fixed fields and the attributes.\<close>

definition fields_view :: "(attribute \<Rightarrow> jval \<Rightarrow> jval) \<Rightarrow> ('e, 'f) fixed_field list \<Rightarrow> attribute list \<Rightarrow> row \<Rightarrow> jstr \<Rightarrow> jval option" where
  "fields_view canon fs attrs r n =
     (case find (\<lambda>f. fname f = n) fs of
        Some f \<Rightarrow> map_option (fview f) (map_of r n)
      | None \<Rightarrow> level_view canon attrs r n)"

lemma level_view_other: "n \<notin> aname ` set attrs \<Longrightarrow> level_view canon attrs r n = None"
  by (auto simp: level_view_def find_None_iff split: option.split dest!: find_SomeD)

subsection \<open>The contract of one attribute\<close>

locale codec =
  fixes enc :: "attribute \<Rightarrow> jval \<Rightarrow> 'e + row"
    and dec :: "attribute \<Rightarrow> row \<Rightarrow> 'f + jval option"
    and canon :: "attribute \<Rightarrow> jval \<Rightarrow> jval"
    and ok :: "attribute \<Rightarrow> jval \<Rightarrow> bool"
    and wf :: "attribute \<Rightarrow> bool"
  assumes enc_columns: "wf a \<Longrightarrow> enc a v = Inr kvs \<Longrightarrow> set (map fst kvs) = set (columns_of a) \<and> length kvs = length (columns_of a)"
    and dec_enc: "wf a \<Longrightarrow> enc a v = Inr kvs \<Longrightarrow> ok a v \<Longrightarrow> distinct (columns_of a) \<Longrightarrow>
      \<forall>(k, x) \<in> set kvs. map_of raw k = Some x \<Longrightarrow> dec a raw = Inr (Some (canon a v))"
begin

lemma enc_covers: "wf a \<Longrightarrow> enc a v = Inr kvs \<Longrightarrow> k \<in> set (columns_of a) \<Longrightarrow> \<exists>x. (k, x) \<in> set kvs"
  by (drule (1) enc_columns) (metis list.set_map prod.collapse imageE)

lemma enc_within: "wf a \<Longrightarrow> enc a v = Inr kvs \<Longrightarrow> (k, x) \<in> set kvs \<Longrightarrow> k \<in> set (columns_of a)"
  by (drule (1) enc_columns) force

lemma enc_distinct: "wf a \<Longrightarrow> enc a v = Inr kvs \<Longrightarrow> distinct (columns_of a) \<Longrightarrow> distinct (map fst kvs)"
  using enc_columns by (metis card_distinct distinct_card length_map)

lemma write_fields_lookup:
  "write_fields enc attrs r out = Inr w \<Longrightarrow> \<forall>a \<in> set attrs. wf a \<Longrightarrow> distinct (flat_columns attrs) \<Longrightarrow>
   (\<forall>k. k \<notin> set (flat_columns attrs) \<longrightarrow> map_of w k = map_of out k)
   \<and> (\<forall>a \<in> set attrs. \<not> own r (aname a) \<longrightarrow> (\<forall>k \<in> set (columns_of a). map_of w k = map_of out k))
   \<and> (\<forall>a \<in> set attrs. own r (aname a) \<longrightarrow>
        (\<exists>kvs. enc a (get r (aname a)) = Inr kvs \<and> (\<forall>(k, x) \<in> set kvs. map_of w k = Some x)))"
proof (induction attrs arbitrary: out)
  case (Cons b tail)
  have dis: "distinct (flat_columns tail)" "distinct (columns_of b)"
    "set (columns_of b) \<inter> set (flat_columns tail) = {}"
    using Cons.prems(3) by (auto simp: flat_columns_def)
  have wf: "wf b" "\<forall>a \<in> set tail. wf a" using Cons.prems(2) by simp_all
  obtain out1 where w: "write_fields enc tail r out1 = Inr w"
    and own: "own r (aname b) \<Longrightarrow> \<exists>kvs. enc b (get r (aname b)) = Inr kvs \<and> out1 = set_keys kvs out"
    and not_own: "\<not> own r (aname b) \<Longrightarrow> out1 = out"
    using Cons.prems(1) by (auto simp: bindE_eq_Inr split: if_splits)
  have other: "map_of out1 k = map_of out k" if "k \<notin> set (columns_of b)" for k
  proof (cases "own r (aname b)")
    case True
    then obtain kvs where "enc b (get r (aname b)) = Inr kvs" "out1 = set_keys kvs out" using own by blast
    then show ?thesis
      using that enc_columns [OF wf(1), of "get r (aname b)" kvs] by (simp add: map_of_set_keys_other)
  qed (simp add: not_own)
  note IH = Cons.IH [OF w wf(2) dis(1)]
  have here: "map_of w k = map_of out1 k" if "k \<in> set (columns_of b)" for k
    using IH that dis(3) by blast
  have written: "\<exists>kvs. enc b (get r (aname b)) = Inr kvs \<and> (\<forall>(k, x) \<in> set kvs. map_of w k = Some x)"
    if "own r (aname b)"
  proof -
    obtain kvs where kvs: "enc b (get r (aname b)) = Inr kvs" "out1 = set_keys kvs out"
      using own \<open>own r (aname b)\<close> by blast
    have "map_of w k = Some x" if "(k, x) \<in> set kvs" for k x
    proof -
      have "k \<in> set (columns_of b)" by (rule enc_within [OF wf(1) kvs(1) that])
      then show ?thesis
        using here map_of_set_keys_same [OF enc_distinct [OF wf(1) kvs(1) dis(2)] that] kvs(2) by simp
    qed
    then show ?thesis using kvs(1) by blast
  qed
  have tail: "map_of w k = map_of out k"
    if "a \<in> set tail" "\<not> own r (aname a)" "k \<in> set (columns_of a)" for a k
  proof -
    have "k \<notin> set (columns_of b)" using that columns_of_flat [of a tail k] dis(3) by blast
    then show ?thesis using IH that other by metis
  qed
  have outside: "map_of w k = map_of out k" if "k \<notin> set (flat_columns (b # tail))" for k
    using that IH other by (simp add: flat_columns_def)
  show ?case
  proof (intro conjI ballI allI impI)
    fix a k
    assume a: "a \<in> set (b # tail)" "\<not> own r (aname a)" "k \<in> set (columns_of a)"
    show "map_of w k = map_of out k"
    proof (cases "a \<in> set tail")
      case False
      then have "a = b" using a(1) by simp
      then show ?thesis using here a(2,3) not_own by simp
    qed (use tail a(2,3) in blast)
  next
    fix a
    assume a: "a \<in> set (b # tail)" "own r (aname a)"
    show "\<exists>kvs. enc a (get r (aname a)) = Inr kvs \<and> (\<forall>(k, x) \<in> set kvs. map_of w k = Some x)"
    proof (cases "a \<in> set tail")
      case False
      then have "a = b" using a(1) by simp
      then show ?thesis using written a(2) by simp
    qed (use IH a(2) in blast)
  qed (rule outside)
qed (simp add: flat_columns_def)

text \<open>A level comes back with every field it had, in canonical form, and no other.\<close>

lemma level_round_trip:
  assumes "write_fields enc attrs r out = Inr w" and wf: "\<forall>a \<in> set attrs. wf a" and "distinct (flat_columns attrs)"
    "distinct (map aname attrs)" "\<forall>k \<in> set (flat_columns attrs). map_of out k = None"
    "\<forall>a \<in> set attrs. own r (aname a) \<longrightarrow> ok a (get r (aname a))"
    and raw: "\<forall>k \<in> set (flat_columns attrs). map_of raw k = map_of w k"
  shows "\<exists>r'. read_fields dec attrs raw out1 = Inr r' \<and>
    (\<forall>a \<in> set attrs. map_of r' (aname a) =
       (if own r (aname a) then Some (canon a (get r (aname a))) else map_of out1 (aname a))) \<and>
    (\<forall>n. n \<notin> aname ` set attrs \<longrightarrow> map_of r' n = map_of out1 n)"
proof -
  note look = write_fields_lookup [OF assms(1-3)]
  have here: "present a raw \<longleftrightarrow> own r (aname a)" if "a \<in> set attrs" for a
  proof (cases "own r (aname a)")
    case True
    then obtain kvs where kvs: "enc a (get r (aname a)) = Inr kvs" "\<forall>(k, x) \<in> set kvs. map_of w k = Some x"
      using conjunct2 [OF conjunct2 [OF look]] \<open>a \<in> set attrs\<close> by blast
    have c: "acolumn a \<in> set (columns_of a)" by (simp add: columns_of_def split: option.split)
    obtain x where "(acolumn a, x) \<in> set kvs"
      using enc_covers [OF _ kvs(1) c] wf \<open>a \<in> set attrs\<close> by blast
    then have "map_of w (acolumn a) = Some x" using kvs(2) by blast
    then have "own raw (acolumn a)"
      using raw columns_of_flat [OF \<open>a \<in> set attrs\<close> c] by (simp add: own_def)
    then have "present a raw" using c by (unfold present_def) (rule bexI)
    then show ?thesis using True by simp
  next
    case False
    have "map_of raw k = None" if k: "k \<in> set (columns_of a)" for k
    proof -
      have flat: "k \<in> set (flat_columns attrs)" by (rule columns_of_flat [OF \<open>a \<in> set attrs\<close> k])
      have "map_of w k = map_of out k" using look False \<open>a \<in> set attrs\<close> k by blast
      then show ?thesis using raw assms(5) flat by simp
    qed
    then show ?thesis using False by (simp add: present_def own_def)
  qed
  have "\<forall>a \<in> set attrs. present a raw \<longrightarrow> dec a raw = Inr (Some (canon a (get r (aname a))))"
  proof (intro ballI impI)
    fix a assume a: "a \<in> set attrs" "present a raw"
    then obtain kvs where kvs: "enc a (get r (aname a)) = Inr kvs" "\<forall>(k, x) \<in> set kvs. map_of w k = Some x"
      using conjunct2 [OF conjunct2 [OF look]] here by blast
    have "\<forall>(k, x) \<in> set kvs. map_of raw k = Some x"
    proof clarify
      fix k x assume kx: "(k, x) \<in> set kvs"
      then have "k \<in> set (columns_of a)" using enc_within [OF _ kvs(1)] wf a(1) by blast
      then show "map_of raw k = Some x" using kvs(2) kx raw columns_of_flat [OF a(1)] by auto
    qed
    then show "dec a raw = Inr (Some (canon a (get r (aname a))))"
      using dec_enc [OF _ kvs(1)] wf assms(6) a here columns_of_distinct [OF assms(3)] by blast
  qed
  from read_fields_lookup [where f = "\<lambda>a. canon a (get r (aname a))" and out = out1 and dec = dec
      and raw = raw and attrs = attrs, OF this assms(4)]
  show ?thesis using here by (elim exE) (rule exI, auto)
qed

lemma level_back:
  assumes wr: "write_fields enc attrs r out = Inr w" and lvl: "level_ok wf names columns attrs"
    and "level_fits ok attrs r" "\<forall>k \<in> set (flat_columns attrs). map_of out k = None"
    "\<forall>k \<in> set (flat_columns attrs). map_of raw k = map_of w k"
    "\<forall>a \<in> set attrs. map_of out1 (aname a) = None"
  shows "\<exists>r'. read_fields dec attrs raw out1 = Inr r' \<and>
    (\<forall>n. map_of r' n = (if n \<in> aname ` set attrs then level_view canon attrs r n else map_of out1 n))"
proof -
  have names: "distinct (map aname attrs)" "distinct (flat_columns attrs)" "\<forall>a \<in> set attrs. wf a"
    using lvl by (simp_all add: level_ok_def)
  obtain r' where r': "read_fields dec attrs raw out1 = Inr r'"
    "\<forall>a \<in> set attrs. map_of r' (aname a) =
       (if own r (aname a) then Some (canon a (get r (aname a))) else map_of out1 (aname a))"
    "\<forall>n. n \<notin> aname ` set attrs \<longrightarrow> map_of r' n = map_of out1 n"
    using level_round_trip [OF wr names(3,2,1) assms(4)
      assms(3) [unfolded level_fits_def] assms(5)] by blast
  have "map_of r' (aname a) = level_view canon attrs r (aname a)" if "a \<in> set attrs" for a
    using r'(2) that find_key [OF names(1) that] assms(6) by (simp add: level_view_def)
  then have "map_of r' n = (if n \<in> aname ` set attrs then level_view canon attrs r n else map_of out1 n)" for n
    using r'(3) by auto
  then show ?thesis using r'(1) by blast
qed

lemma write_fields_outside:
  assumes "write_fields enc attrs r out = Inr w" "level_ok wf names columns attrs" "k \<notin> set (flat_columns attrs)"
  shows "map_of w k = map_of out k"
  using write_fields_lookup [OF assms(1)] assms(2,3)
  by (simp add: level_ok_def)

lemma whole_level_back:
  assumes head: "encode_fixed fs r [] = Inr out" and wr: "write_fields enc attrs r out = Inr w"
    and lvl: "level_ok wf (map fname fs @ names) (map fcolumn fs @ columns) attrs" "\<forall>f \<in> set fs. field_ok f"
    and moments: "level_fits ok attrs r"
    and raw: "\<forall>k. k \<notin> set columns \<longrightarrow> map_of raw k = map_of w k"
  shows "\<exists>p r'. decode_fixed fs raw [] = Inr p \<and> read_fields dec attrs raw p = Inr r' \<and>
    (\<forall>n. map_of r' n = fields_view canon fs attrs r n) \<and> (\<forall>k \<in> set columns. map_of w k = None)"
proof -
  have dis: "distinct (map fname fs)" "distinct (map fcolumn fs)" "fcolumn ` set fs \<inter> set columns = {}"
    "fname ` set fs \<inter> aname ` set attrs = {}" "fcolumn ` set fs \<inter> set (flat_columns attrs) = {}"
    "set columns \<inter> set (flat_columns attrs) = {}"
    using lvl(1) by (auto simp: level_ok_def)
  note out = encode_fixed_map [OF head dis(2)]
  note outside = write_fields_outside [OF wr lvl(1)]
  have field: "map_of raw (fcolumn f) = map_of out (fcolumn f)" if "f \<in> set fs" for f
  proof -
    have "fcolumn f \<notin> set columns" "fcolumn f \<notin> set (flat_columns attrs)" using that dis(3,5) by auto
    then show ?thesis using raw outside by simp
  qed
  have each: "\<forall>f \<in> set fs. if own r (fname f)
    then \<exists>v. map_of raw (fcolumn f) = Some v \<and> fdec f v = Inr (fview f (get r (fname f)))
    else map_of raw (fcolumn f) = None"
  proof
    fix f assume f: "f \<in> set fs"
    show "if own r (fname f)
      then \<exists>v. map_of raw (fcolumn f) = Some v \<and> fdec f v = Inr (fview f (get r (fname f)))
      else map_of raw (fcolumn f) = None"
    using bspec [OF conjunct2 [OF out] f] bspec [OF lvl(2) f] field [OF f]
    by (auto simp: field_ok_def split: if_splits)
  qed
  obtain p where p: "decode_fixed fs raw [] = Inr p" "\<forall>n. n \<notin> fname ` set fs \<longrightarrow> map_of p n = None"
    "\<forall>f \<in> set fs. map_of p (fname f) = (if own r (fname f) then Some (fview f (get r (fname f))) else None)"
    using decode_fixed_map [OF each dis(1), of "[]"] by auto
  have fresh: "\<forall>a \<in> set attrs. map_of p (aname a) = None" using p(2) dis(4) by blast
  have blank: "\<forall>k. k \<notin> fcolumn ` set fs \<longrightarrow> map_of out k = None" using conjunct1 [OF out] by simp
  have empty: "\<forall>k \<in> set (flat_columns attrs). map_of out k = None" using blank dis(5) by blast
  have same: "\<forall>k \<in> set (flat_columns attrs). map_of raw k = map_of w k" using raw dis(6) by blast
  obtain r' where r': "read_fields dec attrs raw p = Inr r'"
    "\<forall>n. map_of r' n = (if n \<in> aname ` set attrs then level_view canon attrs r n else map_of p n)"
    using level_back [OF wr lvl(1) moments empty same fresh] by blast
  have "map_of r' n = fields_view canon fs attrs r n" for n
  proof (cases "n \<in> fname ` set fs")
    case True
    then obtain f where f: "f \<in> set fs" "n = fname f" by blast
    then have "n \<notin> aname ` set attrs" using dis(4) by blast
    then show ?thesis
      using r'(2) p(3) f find_key [OF dis(1) f(1)] by (auto simp: fields_view_def own_def get_def)
  next
    case False
    then have "find (\<lambda>f. fname f = n) fs = None" by (auto simp: find_None_iff)
    then show ?thesis using r'(2) p(2) False level_view_other by (auto simp: fields_view_def)
  qed
  moreover have "\<forall>k \<in> set columns. map_of w k = None"
  proof
    fix k assume "k \<in> set columns"
    then have "k \<notin> fcolumn ` set fs" "k \<notin> set (flat_columns attrs)" using dis(3,6) by blast+
    then show "map_of w k = None" using outside blank by simp
  qed
  ultimately show ?thesis using p(1) r'(1) by blast
qed

end

end
