(* ===== verification/Moments.thy ===== *)
theory Moments
  imports Dates
begin

section \<open>Moments of the wire\<close>

text \<open>
  \<open>normaliseDateTime\<close> of \<open>model/runtime/wire.ts\<close>: a moment as PostgREST or PostgreSQL writes
  it becomes UTC text of a fixed width with microseconds. The whole seconds go through \<open>Date\<close>
  (the day arithmetic of theory \<open>Dates\<close>), the fraction is carried over as text.
\<close>

subsection \<open>The two source forms\<close>

record moment =
  mdate :: jstr
  mhours :: nat
  mminutes :: nat
  mseconds :: nat
  mfraction :: jstr
  mzone :: int

text \<open>\<open>:?(\d{2})\<close>\<close>

definition zone_part :: "jstr \<Rightarrow> (jstr \<times> jstr) option" where
  "zone_part s = two_digits (if s \<noteq> [] \<and> hd s = 58 then tl s else s)"

text \<open>
  \<open>(?:Z|([+-])(\d{2})(?::?(\d{2})(?::?(\d{2}))?)?)$\<close>, as the signed seconds of the shift.
\<close>

definition zone_seconds :: "nat \<Rightarrow> jstr \<Rightarrow> jstr \<Rightarrow> jstr \<Rightarrow> int" where
  "zone_seconds c h m s =
     (if c = 45 then - 1 else 1) * int (digits_val h * 3600 + digits_val m * 60 + digits_val s)"

definition wire_zone :: "jstr \<Rightarrow> int option" where
  "wire_zone z =
     (case z of
        [] \<Rightarrow> None
      | c # r \<Rightarrow>
          if c = 90 then (if r = [] then Some 0 else None)
          else if c \<noteq> 43 \<and> c \<noteq> 45 then None
          else (case two_digits r of
                  None \<Rightarrow> None
                | Some (h, r) \<Rightarrow>
                    if r = [] then Some (zone_seconds c h [] [])
                    else (case zone_part r of
                            None \<Rightarrow> None
                          | Some (m, r) \<Rightarrow>
                              if r = [] then Some (zone_seconds c h m [])
                              else (case zone_part r of
                                      Some (s, []) \<Rightarrow> Some (zone_seconds c h m s)
                                    | _ \<Rightarrow> None))))"

text \<open>\<open>(?:\.(\d+))?\<close>\<close>

definition fraction_text :: "jstr \<Rightarrow> (jstr \<times> jstr) option" where
  "fraction_text s =
     (if s \<noteq> [] \<and> hd s = 46 then
        (let f = takeWhile is_digit (tl s)
         in if f = [] then None else Some (f, drop (length f) (tl s)))
      else Some ([], s))"

text \<open>\<open>DATE_TIME_WIRE\<close>: the fixed part up to the seconds, then the fraction and the zone.\<close>

definition clock_text :: "jstr \<Rightarrow> (jstr \<times> jstr \<times> jstr \<times> jstr) option" where
  "clock_text t =
     (if 19 \<le> length t \<and> (t ! 10 = 84 \<or> t ! 10 = 32) \<and> t ! 13 = 58 \<and> t ! 16 = 58
         \<and> all_digits (take 2 (drop 11 t)) \<and> all_digits (take 2 (drop 14 t))
         \<and> all_digits (take 2 (drop 17 t))
      then Some (take 2 (drop 11 t), take 2 (drop 14 t), take 2 (drop 17 t), drop 19 t) else None)"

definition date_time_wire :: "jstr \<Rightarrow> moment option" where
  "date_time_wire t =
     (case (date_text (take 10 t), clock_text t) of
        (Some _, Some (h, m, s, r)) \<Rightarrow>
          (case fraction_text r of
             None \<Rightarrow> None
           | Some (f, z) \<Rightarrow>
               (case wire_zone z of
                  None \<Rightarrow> None
                | Some zone \<Rightarrow>
                    Some \<lparr>mdate = take 10 t, mhours = digits_val h, mminutes = digits_val m,
                      mseconds = digits_val s, mfraction = f, mzone = zone\<rparr>))
      | _ \<Rightarrow> None)"

text \<open>What the checks of \<open>normaliseDateTime\<close> accept.\<close>

definition moment_ok :: "moment \<Rightarrow> bool" where
  "moment_ok p \<longleftrightarrow>
     is_date (mdate p) \<and> mhours p \<le> 23 \<and> mminutes p \<le> 59 \<and> mseconds p \<le> 59
     \<and> length (mfraction p) \<le> 6"

subsection \<open>The instant and its text\<close>

definition pad :: "nat \<Rightarrow> nat \<Rightarrow> jstr" where
  "pad w n = (let s = show_nat n in replicate (w - length s) 48 @ s)"

definition pad_fraction :: "jstr \<Rightarrow> jstr" where
  "pad_fraction f = f @ replicate (6 - length f) 48"

text \<open>
  The time value of \<open>Date\<close> in whole seconds: \<open>setUTCFullYear\<close> gives the day and
  \<open>setUTCHours\<close> adds the shifted hours, minutes and seconds.
\<close>

definition date_day :: "jstr \<Rightarrow> int" where
  "date_day t =
     make_day (int (digits_val (take 4 t))) (int (digits_val (take 2 (drop 5 t))) - 1)
       (int (digits_val (drop 8 t)))"

definition utc_seconds :: "moment \<Rightarrow> int" where
  "utc_seconds p =
     date_day (mdate p) * 86400
     + (int (mhours p) * 3600 + int (mminutes p) * 60 + int (mseconds p) - mzone p)"

definition date_part :: "int \<Rightarrow> jstr" where
  "date_part d =
     pad 4 (nat (year_from_day d)) @ [45] @ pad 2 (month_from_day d + 1) @ [45]
     @ pad 2 (nat (date_from_day d))"

definition clock_part :: "int \<Rightarrow> jstr" where
  "clock_part s =
     pad 2 (nat (s div 3600)) @ [58] @ pad 2 (nat (s div 60 mod 60)) @ [58] @ pad 2 (nat (s mod 60))"

definition moment_text :: "int \<Rightarrow> jstr \<Rightarrow> jstr" where
  "moment_text t f =
     date_part (t div 86400) @ [84] @ clock_part (t mod 86400) @ [46] @ pad_fraction f @ [90]"

text \<open>\<open>normaliseDateTime\<close>; \<open>None\<close> stands for the \<open>WireDecodeError\<close> it throws.\<close>

definition normalise_date_time :: "jstr \<Rightarrow> jstr option" where
  "normalise_date_time t =
     (case date_time_wire t of
        None \<Rightarrow> None
      | Some p \<Rightarrow>
          if \<not> moment_ok p then None
          else let u = utc_seconds p; y = year_from_day (u div 86400)
               in if y < 1 \<or> 9999 < y then None else Some (moment_text u (mfraction p)))"

subsection \<open>Fixed-width digits\<close>

lemma digits_val_Cons: "digits_val (c # s) = (c - 48) * 10 ^ length s + digits_val s"
  using digits_val_append [of "[c]" s] by (simp add: digits_val_def)

lemma digits_val_less: "all_digits s \<Longrightarrow> digits_val s < 10 ^ length s"
  by (rule digits_val_bound) (simp add: all_digits_def)

text \<open>Digit texts of one length compare as their values.\<close>

lemma digits_less_iff:
  "length a = length b \<Longrightarrow> all_digits a \<Longrightarrow> all_digits b \<Longrightarrow> a < b \<longleftrightarrow> digits_val a < digits_val b"
proof (induction a b rule: list_induct2)
  case (Cons c a d b)
  have lt: "digits_val a < 10 ^ length a" "digits_val b < 10 ^ length a"
    using Cons.prems Cons.hyps digits_val_less [of a] digits_val_less [of b] by simp_all
  have less: "x * n + u < y * n + v" if "x < y" "u < n" for x y n u v :: nat
  proof -
    have "x * n + u < Suc x * n" using that by simp
    also have "Suc x * n \<le> y * n" using that by (intro mult_right_mono) simp_all
    finally show ?thesis by simp
  qed
  consider (lt) "c < d" | (eq) "c = d" | (gt) "d < c" by linarith
  then show ?case
  proof cases
    case lt
    then have "c - 48 < d - 48" using Cons.prems by (auto simp: is_digit_def intro: diff_less_mono)
    from less [OF this \<open>digits_val a < _\<close>] show ?thesis
      using lt Cons.hyps by (simp add: digits_val_Cons)
  next
    case eq
    then show ?thesis using Cons by (simp add: digits_val_Cons)
  next
    case gt
    then have "d - 48 < c - 48" using Cons.prems by (auto simp: is_digit_def intro: diff_less_mono)
    from less [OF this \<open>digits_val b < _\<close>, of "digits_val a"] show ?thesis
      using gt Cons.hyps by (simp add: digits_val_Cons)
  qed
qed simp

lemma length_show_nat: "n < 10 ^ w \<Longrightarrow> 0 < w \<Longrightarrow> length (show_nat n) \<le> w"
proof (induction w arbitrary: n)
  case (Suc w)
  show ?case
  proof (cases "n < 10")
    case False
    then have "n div 10 < 10 ^ w" "0 < w" using Suc.prems by (auto intro: gr0I)
    then show ?thesis using Suc.IH False by (subst show_nat.simps) simp
  qed (simp add: show_nat.simps)
qed simp

lemma pad_digits [simp]: "all_digits (pad w n)" "digits_val (pad w n) = n"
  by (simp_all add: pad_def Let_def digits_val_append)

lemma length_pad: "n < 10 ^ w \<Longrightarrow> 0 < w \<Longrightarrow> length (pad w n) = w"
  using length_show_nat by (simp add: pad_def Let_def)

lemma pad_less: "m < n \<Longrightarrow> n < 10 ^ w \<Longrightarrow> 0 < w \<Longrightarrow> pad w m < pad w n"
  by (subst digits_less_iff) (simp_all add: length_pad)

lemma lex_block: "length a = length b \<Longrightarrow> a @ c < b @ d \<longleftrightarrow> a < b \<or> a = b \<and> c < (d :: nat list)"
  by (induction a b rule: list_induct2) auto

lemma lex_lessI: "a < b \<Longrightarrow> length a = length b \<Longrightarrow> a @ c < b @ (d :: nat list)"
  by (simp add: lex_block)

subsection \<open>The text of a moment sorts as the moment\<close>

lemma month_from_day_spec:
  fixes d defines "y \<equiv> year_from_day d" and "m \<equiv> month_from_day d"
  shows "m \<le> 11" "month_start y m \<le> d - day_from_year y" "d - day_from_year y < month_start y (Suc m)"
    "date_from_day d = d - day_from_year y - month_start y m + 1"
proof -
  have "0 \<le> d - day_from_year y" "d - day_from_year y < month_start y (Suc 11)"
    using year_from_day_bounds [of d] day_from_year_Suc [of y] month_start_12 [of y]
    by (simp_all add: y_def)
  from month_down_bounds [OF this] show "m \<le> 11" "month_start y m \<le> d - day_from_year y"
    "d - day_from_year y < month_start y (Suc m)"
    by (simp_all add: m_def y_def month_from_day_def Let_def)
qed (simp add: date_from_day_def y_def m_def Let_def)

lemma year_from_day_mono: "d < d' \<Longrightarrow> year_from_day d \<le> year_from_day d'"
proof (rule ccontr)
  assume "d < d'" "\<not> year_from_day d \<le> year_from_day d'"
  then have "day_from_year (year_from_day d' + 1) \<le> day_from_year (year_from_day d)"
    using day_from_year_strict [of "year_from_day d' + 1" "year_from_day d"]
    by (cases "year_from_day d' + 1 = year_from_day d") auto
  then show False
    using \<open>d < d'\<close> year_from_day_bounds [of d] year_from_day_bounds [of d'] by linarith
qed

lemma month_from_day_mono:
  assumes "d < d'" "year_from_day d = year_from_day d'"
  shows "month_from_day d \<le> month_from_day d'"
proof (rule ccontr)
  assume "\<not> month_from_day d \<le> month_from_day d'"
  then have "month_start (year_from_day d) (Suc (month_from_day d')) \<le> month_start (year_from_day d) (month_from_day d)"
    using month_from_day_spec(1) [of d] by (intro month_start_mono) simp_all
  then show False
    using assms month_from_day_spec(2) [of d] month_from_day_spec(3) [of d'] by simp
qed

lemma date_from_day_bounds: "1 \<le> date_from_day d" "date_from_day d \<le> 31"
proof -
  show "1 \<le> date_from_day d" using month_from_day_spec(2,4) [of d] by simp
  have "days_in_month (year_from_day d) (month_from_day d) \<le> 31"
  proof -
    have "\<forall>n \<in> set (month_lengths (year_from_day d)). n \<le> 31" by (simp add: month_lengths_def)
    moreover have "month_lengths (year_from_day d) ! month_from_day d \<in> set (month_lengths (year_from_day d))"
      using month_from_day_spec(1) [of d] by (intro nth_mem) simp
    ultimately show ?thesis unfolding days_in_month_def by blast
  qed
  then show "date_from_day d \<le> 31"
    using month_from_day_spec(1,3,4) [of d] month_start_Suc [of "month_from_day d" "year_from_day d"] by simp
qed

definition wire_year :: "int \<Rightarrow> bool" where
  "wire_year d \<longleftrightarrow> 1 \<le> year_from_day d \<and> year_from_day d \<le> 9999"

lemma date_part_lengths:
  assumes "wire_year d"
  shows "length (pad 4 (nat (year_from_day d))) = 4" "length (pad 2 (Suc (month_from_day d))) = 2"
    "length (pad 2 (nat (date_from_day d))) = 2"
  using assms month_from_day_spec(1) [of d] date_from_day_bounds [of d]
  by (intro length_pad; simp add: wire_year_def nat_less_iff)+

lemma length_date_part: "wire_year d \<Longrightarrow> length (date_part d) = 10"
  by (simp add: date_part_def date_part_lengths)

lemma date_part_less:
  assumes "d < d'" "wire_year d" "wire_year d'"
  shows "date_part d < date_part d'"
proof -
  consider (year) "year_from_day d < year_from_day d'"
    | (month) "year_from_day d = year_from_day d'" "month_from_day d < month_from_day d'"
    | (day) "year_from_day d = year_from_day d'" "month_from_day d = month_from_day d'"
      "date_from_day d < date_from_day d'"
    using year_from_day_mono [OF assms(1)] month_from_day_mono [OF assms(1)]
      month_from_day_spec(4) [of d] month_from_day_spec(4) [of d'] assms(1)
    by fastforce
  then show ?thesis
  proof cases
    case year
    then have "pad 4 (nat (year_from_day d)) < pad 4 (nat (year_from_day d'))"
      using assms by (intro pad_less) (simp_all add: wire_year_def)
    then show ?thesis
      unfolding date_part_def using assms by (intro lex_lessI) (simp_all add: date_part_lengths)
  next
    case month
    then have "pad 2 (month_from_day d + 1) < pad 2 (month_from_day d' + 1)"
      using month_from_day_spec(1) [of d'] by (intro pad_less) simp_all
    then show ?thesis
      using month(1) assms by (simp add: date_part_def lex_block date_part_lengths)
  next
    case day
    then have "pad 2 (nat (date_from_day d)) < pad 2 (nat (date_from_day d'))"
      using date_from_day_bounds [of d] date_from_day_bounds [of d'] by (intro pad_less) simp_all
    then show ?thesis using day(1,2) by (simp add: date_part_def lex_block)
  qed
qed

lemma date_part_order:
  assumes "wire_year d" "wire_year d'"
  shows "date_part d < date_part d' \<longleftrightarrow> d < d'" "date_part d = date_part d' \<longleftrightarrow> d = d'"
  using date_part_less [of d d'] date_part_less [of d' d] assms
  by (cases d d' rule: linorder_cases; force)+

lemma length_pad_2: "n < 60 \<Longrightarrow> length (pad 2 n) = 2"
  by (rule length_pad) simp_all

lemma clock_part_lengths:
  fixes s :: int assumes "0 \<le> s" "s < 86400"
  shows "nat (s div 3600) < 24" "nat (s div 60 mod 60) < 60" "nat (s mod 60) < 60"
    "length (pad 2 (nat (s div 3600))) = 2" "length (pad 2 (nat (s div 60 mod 60))) = 2"
    "length (pad 2 (nat (s mod 60))) = 2"
proof -
  have "s div 3600 < 24" using div_bounds [of 3600 s] assms by linarith
  then show h: "nat (s div 3600) < 24" by simp
  show m: "nat (s div 60 mod 60) < 60" and s: "nat (s mod 60) < 60" by (simp_all add: nat_less_iff)
  have "nat (s div 3600) < 60" using h by linarith
  then show "length (pad 2 (nat (s div 3600))) = 2" by (rule length_pad_2)
  show "length (pad 2 (nat (s div 60 mod 60))) = 2" "length (pad 2 (nat (s mod 60))) = 2"
    by (rule length_pad_2 [OF m], rule length_pad_2 [OF s])
qed

lemma clock_parts: "(s :: int) = 3600 * (s div 3600) + 60 * (s div 60 mod 60) + s mod 60"
proof -
  have "s div 60 div 60 = s div 3600" by (simp add: zdiv_zmult2_eq [symmetric])
  then show ?thesis
    using mult_div_mod_eq [of 60 s] mult_div_mod_eq [of 60 "s div 60"] by linarith
qed

lemma clock_part_less:
  assumes "s < s'" "0 \<le> s" "s' < 86400"
  shows "clock_part s < clock_part s'"
proof -
  define h m q where "h = s div 3600" "m = s div 60 mod 60" "q = s mod 60"
  define h' m' q' where "h' = s' div 3600" "m' = s' div 60 mod 60" "q' = s' mod 60"
  note defs = h_m_q_def h'_m'_q'_def
  have b: "0 \<le> h" "0 \<le> m" "m < 60" "0 \<le> q" "q < 60" "0 \<le> h'" "0 \<le> m'" "m' < 60" "0 \<le> q'" "q' < 60"
    using assms by (simp_all add: defs pos_imp_zdiv_nonneg_iff)
  have "3600 * h + 60 * m + q < 3600 * h' + 60 * m' + q'"
    using assms(1) clock_parts [of s] clock_parts [of s'] unfolding defs by linarith
  then consider (h) "h < h'" | (m) "h = h'" "m < m'" | (q) "h = h'" "m = m'" "q < q'"
    using b by linarith
  note cases = this
  have len: "length (pad 2 (nat h)) = 2" "length (pad 2 (nat m)) = 2" "length (pad 2 (nat h')) = 2"
    "length (pad 2 (nat m')) = 2"
    unfolding defs by (rule clock_part_lengths; use assms in linarith)+
  have lt: "nat h' < 100" "nat m' < 100" "nat q' < 100"
    using clock_part_lengths(1-3) [of s'] assms unfolding defs by linarith+
  have "clock_part s = pad 2 (nat h) @ [58] @ pad 2 (nat m) @ [58] @ pad 2 (nat q)"
    "clock_part s' = pad 2 (nat h') @ [58] @ pad 2 (nat m') @ [58] @ pad 2 (nat q')"
    by (simp_all add: clock_part_def defs)
  from cases show ?thesis
  proof cases
    case h
    then have "pad 2 (nat h) < pad 2 (nat h')" using b lt by (intro pad_less) simp_all
    then show ?thesis using len \<open>clock_part s = _\<close> \<open>clock_part s' = _\<close> by (simp add: lex_block)
  next
    case m
    then have "pad 2 (nat m) < pad 2 (nat m')" using b lt by (intro pad_less) simp_all
    then show ?thesis using len m(1) \<open>clock_part s = _\<close> \<open>clock_part s' = _\<close> by (simp add: lex_block)
  next
    case q
    then have "pad 2 (nat q) < pad 2 (nat q')" using b lt by (intro pad_less) simp_all
    then show ?thesis using len q(1,2) \<open>clock_part s = _\<close> \<open>clock_part s' = _\<close> by (simp add: lex_block)
  qed
qed

lemma clock_part_order:
  assumes "0 \<le> s" "s < 86400" "0 \<le> s'" "s' < 86400"
  shows "clock_part s < clock_part s' \<longleftrightarrow> s < s'" "clock_part s = clock_part s' \<longleftrightarrow> s = s'"
  using clock_part_less [of s s'] clock_part_less [of s' s] assms
  by (cases s s' rule: linorder_cases; force)+

lemma length_clock_part: "0 \<le> s \<Longrightarrow> s < 86400 \<Longrightarrow> length (clock_part s) = 8"
  by (simp add: clock_part_def clock_part_lengths)

lemma pad_fraction_digits:
  "all_digits f \<Longrightarrow> all_digits (pad_fraction f)" "length f \<le> 6 \<Longrightarrow> length (pad_fraction f) = 6"
  by (simp_all add: pad_fraction_def)

text \<open>The microseconds of a fraction.\<close>

definition micros :: "jstr \<Rightarrow> int" where
  "micros f = int (digits_val (pad_fraction f))"

lemma micros_bounds: "all_digits f \<Longrightarrow> length f \<le> 6 \<Longrightarrow> 0 \<le> micros f \<and> micros f < 1000000"
  using digits_val_less [of "pad_fraction f"] by (simp add: micros_def pad_fraction_digits)

lemma moment_text_order:
  assumes "wire_year (t div 86400)" "wire_year (u div 86400)" "all_digits f" "all_digits g"
    "length f \<le> 6" "length g \<le> 6"
  shows "moment_text t f < moment_text u g \<longleftrightarrow> t * 1000000 + micros f < u * 1000000 + micros g"
proof -
  have tu: "t = 86400 * (t div 86400) + t mod 86400" "u = 86400 * (u div 86400) + u mod 86400" by simp_all
  have s: "0 \<le> t mod 86400" "t mod 86400 < 86400" "0 \<le> u mod 86400" "u mod 86400 < 86400" by simp_all
  have seconds: "t < u \<longleftrightarrow> t div 86400 < u div 86400 \<or> t div 86400 = u div 86400 \<and> t mod 86400 < u mod 86400"
    "t = u \<longleftrightarrow> t div 86400 = u div 86400 \<and> t mod 86400 = u mod 86400"
    subgoal using tu s by linarith
    subgoal by (metis mult_div_mod_eq)
    done
  have "pad_fraction f < pad_fraction g \<longleftrightarrow> micros f < micros g"
    using assms by (simp add: micros_def digits_less_iff pad_fraction_digits)
  then have "moment_text t f < moment_text u g \<longleftrightarrow> t < u \<or> t = u \<and> micros f < micros g"
    unfolding moment_text_def using assms s
    by (simp add: lex_block length_date_part length_clock_part date_part_order clock_part_order
        pad_fraction_digits seconds) blast
  then show ?thesis
    using micros_bounds [OF assms(3,5)] micros_bounds [OF assms(4,6)] by linarith
qed

subsection \<open>The text of a moment is read back as the moment\<close>

definition instant :: "moment \<Rightarrow> int" where
  "instant p = utc_seconds p * 1000000 + micros (mfraction p)"

lemma clock_text_shape:
  assumes "length d = 10" "length h = 2" "length m = 2" "length q = 2" "all_digits h" "all_digits m" "all_digits q"
  shows "clock_text (d @ 84 # h @ 58 # m @ 58 # q @ r) = Some (h, m, q, r)"
  using assms by (simp add: clock_text_def nth_append nth_Cons')

lemma fraction_text_shape:
  "all_digits f \<Longrightarrow> f \<noteq> [] \<Longrightarrow> fraction_text (46 # f @ [90]) = Some (f, [90])"
proof -
  assume f: "all_digits f" "f \<noteq> []"
  have "takeWhile is_digit (f @ [90]) = f"
    using f by (intro takeWhile_prefix) (simp_all add: all_digits_def is_digit_def)
  then show ?thesis using f by (simp add: fraction_text_def)
qed

lemma date_text_part:
  assumes "wire_year d"
  shows "date_text (date_part d) =
    Some (pad 4 (nat (year_from_day d)), pad 2 (Suc (month_from_day d)), pad 2 (nat (date_from_day d)))"
  using date_part_lengths [OF assms] length_date_part [OF assms]
  by (simp add: date_text_def date_part_def nth_append)

lemma make_day_read_back:
  "make_day (year_from_day d) (int (month_from_day d)) (date_from_day d) = d"
  using month_from_day_spec(1,4) [of d] by (simp add: make_day_def zdiv_int [symmetric] zmod_int [symmetric])

lemma date_day_part: "wire_year d \<Longrightarrow> date_day (date_part d) = d"
  using date_part_lengths [of d] date_from_day_bounds [of d] make_day_read_back [of d]
  by (simp add: date_day_def date_part_def wire_year_def)

lemma is_date_part: "wire_year d \<Longrightarrow> is_date (date_part d)"
  using date_text_part [of d] date_from_day_bounds [of d] make_day_read_back [of d]
  by (simp add: is_date_def wire_year_def Let_def)

lemma date_time_wire_moment_text:
  assumes "wire_year (t div 86400)" "all_digits f" "length f \<le> 6"
  defines "s \<equiv> t mod 86400"
  shows "date_time_wire (moment_text t f) =
    Some \<lparr>mdate = date_part (t div 86400), mhours = nat (s div 3600), mminutes = nat (s div 60 mod 60),
      mseconds = nat (s mod 60), mfraction = pad_fraction f, mzone = 0\<rparr>"
proof -
  let ?d = "date_part (t div 86400)" and ?h = "pad 2 (nat (s div 3600))"
  let ?m = "pad 2 (nat (s div 60 mod 60))" and ?q = "pad 2 (nat (s mod 60))"
  have t: "moment_text t f = ?d @ 84 # ?h @ 58 # ?m @ 58 # ?q @ 46 # pad_fraction f @ [90]"
    by (simp add: moment_text_def clock_part_def s_def)
  have s: "0 \<le> s" "s < 86400" by (simp_all add: s_def)
  have "clock_text (moment_text t f) = Some (?h, ?m, ?q, 46 # pad_fraction f @ [90])"
    unfolding t
    by (rule clock_text_shape [OF length_date_part [OF assms(1)] clock_part_lengths(4-6) [OF s]]) (rule pad_digits)+
  moreover have "take 10 (moment_text t f) = ?d" unfolding t using length_date_part [OF assms(1)] by simp
  moreover have "fraction_text (46 # pad_fraction f @ [90]) = Some (pad_fraction f, [90])"
    using pad_fraction_digits [of f] assms by (intro fraction_text_shape) auto
  moreover have "wire_zone [90] = Some 0" by (simp add: wire_zone_def)
  ultimately show ?thesis
    using date_text_part [OF assms(1)] by (simp add: date_time_wire_def)
qed

lemma date_time_wire_fraction: "date_time_wire v = Some p \<Longrightarrow> all_digits (mfraction p)"
  by (auto simp: date_time_wire_def fraction_text_def Let_def split: option.splits if_splits)

lemma normalise_date_time_Some:
  "normalise_date_time v = Some a \<longleftrightarrow>
     (\<exists>p. date_time_wire v = Some p \<and> moment_ok p \<and> wire_year (utc_seconds p div 86400)
       \<and> a = moment_text (utc_seconds p) (mfraction p))"
  by (auto simp: normalise_date_time_def Let_def wire_year_def split: option.splits if_splits)



text \<open>
  Normalised moments sort as texts in the order of time, down to the microsecond; two
  sources give one text exactly when they name one instant.
\<close>

theorem normalise_date_time_order:
  assumes "normalise_date_time v = Some a" "date_time_wire v = Some p"
    "normalise_date_time w = Some b" "date_time_wire w = Some q"
  shows "(a < b \<longleftrightarrow> instant p < instant q) \<and> (a = b \<longleftrightarrow> instant p = instant q)"
proof -
  have order: "a < b \<longleftrightarrow> instant p < instant q"
    if "normalise_date_time v = Some a" "date_time_wire v = Some p"
      "normalise_date_time w = Some b" "date_time_wire w = Some q" for v w a b p q
    using that moment_text_order date_time_wire_fraction [of v p] date_time_wire_fraction [of w q]
    by (simp add: normalise_date_time_Some moment_ok_def instant_def)
  have "a < b \<longleftrightarrow> instant p < instant q" "b < a \<longleftrightarrow> instant q < instant p"
    using order assms by blast+
  then show ?thesis by (metis less_irrefl linorder_neqE)
qed

lemma normalise_date_time_order_witness:
  "(js ''1969-12-31T22:00:05.120000Z'' < js ''1970-01-01T00:00:05.200000Z'') =
   (instant (the (date_time_wire (js ''1970-01-01 00:30:05.12+02:30''))) <
    instant (the (date_time_wire (js ''1970-01-01T00:00:05.2Z''))))"
  using normalise_date_time_order [of "js ''1970-01-01 00:30:05.12+02:30''" "js ''1969-12-31T22:00:05.120000Z''"
      "the (date_time_wire (js ''1970-01-01 00:30:05.12+02:30''))"
      "js ''1970-01-01T00:00:05.2Z''" "js ''1970-01-01T00:00:05.200000Z''"
      "the (date_time_wire (js ''1970-01-01T00:00:05.2Z''))"]
  by (elim meta_impE) (code_simp, code_simp, code_simp, code_simp, blast)

end
