(* ===== verification/Wire.thy ===== *)
theory Wire
  imports Codec Moments
begin

section \<open>Rows on the wire\<close>

text \<open>
  \<open>model/runtime/wire.ts\<close>: a row of the runtime (logical names) becomes a row of physical
  columns, and a row of any source is decoded by the catalog entry. \<open>WireEncodeError\<close> and
  \<open>WireDecodeError\<close> are the two constructors of \<open>wire_error\<close>. A record is looked up by its
  own keys; what \<open>Object.prototype\<close> would add under a missing key is left out.
\<close>

datatype wire_error = EncodeError jstr | DecodeError jstr

definition sections_key :: jstr where
  "sections_key = js ''tabularSections''"

subsection \<open>Encoding\<close>

definition encode_integer :: "jstr \<Rightarrow> jval \<Rightarrow> wire_error + jval" where
  "encode_integer path v =
     (case v of
        JNum n \<Rightarrow> if safe_integer n then Inr (JStr (show_int (the (num_int n)))) else Inl (EncodeError path)
      | _ \<Rightarrow> Inl (EncodeError path))"

definition encode_key :: "jval \<Rightarrow> jval" where
  "encode_key v = (case v of JNum n \<Rightarrow> JStr (num_text n) | JBig i \<Rightarrow> JStr (show_int i) | _ \<Rightarrow> v)"

definition object_field :: "jval \<Rightarrow> jstr \<Rightarrow> jval" where
  "object_field v k = (case v of JObj r \<Rightarrow> get r k | _ \<Rightarrow> JUndef)"

text \<open>The columns of one attribute in \<open>encodeValues\<close>.\<close>

definition wire_attribute :: "jstr \<Rightarrow> attribute \<Rightarrow> jval \<Rightarrow> wire_error + row" where
  "wire_attribute prefix a v =
     (if atype a = Raw then Inr [(acolumn a, v)]
      else case encode_item_value a v (prefix @ aname a) of
        Inl _ \<Rightarrow> Inl (EncodeError (prefix @ aname a))
      | Inr w \<Rightarrow>
          (case apair a of
             Some p \<Rightarrow> Inr [(type_column p, object_field w (type_column p)),
                           (acolumn a, object_field w (acolumn a))]
           | None \<Rightarrow> Inr [(acolumn a, w)]))"

definition encode_values :: "attribute list \<Rightarrow> row \<Rightarrow> jstr \<Rightarrow> row \<Rightarrow> wire_error + row" where
  "encode_values attrs r prefix out = write_fields (wire_attribute prefix) attrs r out"

definition line_path :: "tabular_section \<Rightarrow> nat \<Rightarrow> jstr" where
  "line_path s i = sname s @ 46 # show_nat i"

definition encode_line :: "tabular_section \<Rightarrow> jstr \<Rightarrow> jval \<Rightarrow> wire_error + jval" where
  "encode_line s path line =
     (case line of
        JObj r \<Rightarrow>
          (let prefix = path @ [46]
           in bindE (copy_fields
                [(skey_name s, skey s, \<lambda>v. Inr (encode_key v)),
                 (sparent_name s, sparent s, Inr),
                 (sline_name s, sline s, encode_integer (prefix @ sline_name s))] r []) (\<lambda>out.
              bindE (encode_values (sattributes s) r prefix out) (\<lambda>out. Inr (JObj out))))
      | _ \<Rightarrow> Inl (EncodeError path))"

text \<open>\<open>lines.map(...)\<close>: the callback is not called for a hole of the array.\<close>

fun encode_lines :: "tabular_section \<Rightarrow> nat \<Rightarrow> jval list \<Rightarrow> wire_error + jval list" where
  "encode_lines s i [] = Inr []"
| "encode_lines s i (l # ls) =
     bindE (if l = JHole then Inr JHole else encode_line s (line_path s i) l) (\<lambda>w.
     bindE (encode_lines s (i + 1) ls) (\<lambda>ws. Inr (w # ws)))"

fun encode_sections :: "tabular_section list \<Rightarrow> row \<Rightarrow> row \<Rightarrow> wire_error + row" where
  "encode_sections [] secs out = Inr out"
| "encode_sections (s # tail) secs out =
     (if \<not> own secs (sname s) then encode_sections tail secs out
      else (case get secs (sname s) of
              JArr ls \<Rightarrow>
                bindE (encode_lines s 0 ls) (\<lambda>ws. encode_sections tail secs (set_key (sid s) (JArr ws) out))
            | _ \<Rightarrow> Inl (EncodeError (sname s))))"

definition encode_row :: "entry \<Rightarrow> row \<Rightarrow> wire_error + row" where
  "encode_row e r =
     bindE (copy_fields
       [(okey_name e, okey e, \<lambda>v. Inr (encode_key v)),
        (oversion_name e, oversion e, encode_integer (oversion_name e))] r []) (\<lambda>out.
     bindE (encode_values (oattributes e) r [] out) (\<lambda>out.
       if \<not> own r sections_key then Inr out
       else (case get r sections_key of
               JObj secs \<Rightarrow>
                 bindE (encode_sections (osections e) secs []) (\<lambda>w. Inr (set_key sections_key (JObj w) out))
             | _ \<Rightarrow> Inl (EncodeError sections_key))))"

subsection \<open>Decoding\<close>

definition decode_integer :: "jstr \<Rightarrow> jval \<Rightarrow> wire_error + jval" where
  "decode_integer column v =
     (case v of
        JStr s \<Rightarrow>
          if integer_text s \<and> safe_integer (Dec (int_of_text s) 0) then Inr (JNum (Dec (int_of_text s) 0))
          else Inl (DecodeError column)
      | _ \<Rightarrow> Inl (DecodeError column))"

text \<open>\<open>None\<close> is the mark \<open>ABSENT\<close> of an unknown label.\<close>

definition kept :: "jstr \<Rightarrow> bool \<Rightarrow> jval \<Rightarrow> wire_error + jval option" where
  "kept column b v = (if b then Inr (Some v) else Inl (DecodeError column))"

definition is_jstr :: "jval \<Rightarrow> bool" where
  "is_jstr v = (case v of JStr _ \<Rightarrow> True | _ \<Rightarrow> False)"

definition decode_text :: "attribute \<Rightarrow> logical_type \<Rightarrow> jstr \<Rightarrow> jstr \<Rightarrow> wire_error + jval option" where
  "decode_text a t column s =
     (case t of
        TBigInt \<Rightarrow> kept column (integer_text s) (JBig (int_of_text s))
      | TDateTime \<Rightarrow>
          (case normalise_date_time s of
             None \<Rightarrow> Inl (DecodeError column)
           | Some m \<Rightarrow> Inr (Some (JStr m)))
      | TRef \<Rightarrow>
          (case aenum a of
             Some vs \<Rightarrow> Inr (map_option (\<lambda>nl. JStr (fst nl)) (find (\<lambda>nl. snd nl = s) vs))
           | None \<Rightarrow> Inr (Some (JStr s)))
      | _ \<Rightarrow> Inr (Some (JStr s)))"

definition decode_scalar :: "attribute \<Rightarrow> jval \<Rightarrow> jstr \<Rightarrow> wire_error + jval option" where
  "decode_scalar a v column =
     (case atype a of
        Raw \<Rightarrow> Inr (Some v)
      | Logical t \<Rightarrow>
          if t = TInteger \<or> t = TSmallInt then
            kept column (case v of JNum n \<Rightarrow> safe_integer n | _ \<Rightarrow> False) v
          else if t = TBoolean then kept column (case v of JBool b \<Rightarrow> True | _ \<Rightarrow> False) v
          else if t = TJson then Inr (Some v)
          else (case v of JStr s \<Rightarrow> decode_text a t column s | _ \<Rightarrow> Inl (DecodeError column)))"

definition decode_item :: "attribute \<Rightarrow> jval \<Rightarrow> wire_error + jval option" where
  "decode_item a v =
     (if v = JHole \<or> v = JNull then Inr (Some v) else decode_scalar a v (acolumn a))"

definition decode_pair :: "pair_columns \<Rightarrow> attribute \<Rightarrow> row \<Rightarrow> wire_error + jval option" where
  "decode_pair p a raw =
     (let v = get raw (acolumn a); label = get raw (type_column p)
      in if label = JNull \<and> v = JNull then Inr (Some JNull)
         else case label of
           JStr l \<Rightarrow>
             (case v of
                JStr i \<Rightarrow>
                  Inr (map_option (\<lambda>t. JObj [(js ''type'', JStr (ref_key (fst t))), (js ''id'', JStr i)])
                    (find (\<lambda>t. snd t = l) (targets p)))
              | _ \<Rightarrow> Inl (DecodeError (acolumn a)))
         | _ \<Rightarrow> Inl (DecodeError (type_column p)))"

definition decode_value :: "attribute \<Rightarrow> row \<Rightarrow> wire_error + jval option" where
  "decode_value a raw =
     (case apair a of
        Some p \<Rightarrow> decode_pair p a raw
      | None \<Rightarrow>
          (let v = get raw (acolumn a)
           in if v = JNull then Inr (Some JNull)
              else if aarray a then
                (case v of
                   JArr vs \<Rightarrow>
                     bindE (mapE (decode_item a) vs) (\<lambda>items.
                       Inr (if None \<in> set items then None else Some (JArr (map the items))))
                 | _ \<Rightarrow> Inl (DecodeError (acolumn a)))
              else decode_scalar a v (acolumn a)))"

definition decode_into :: "attribute list \<Rightarrow> row \<Rightarrow> row \<Rightarrow> wire_error + row" where
  "decode_into attrs raw out = read_fields decode_value attrs raw out"

definition decode_values :: "attribute list \<Rightarrow> row \<Rightarrow> wire_error + row" where
  "decode_values attrs raw = decode_into attrs raw []"

definition decode_line :: "tabular_section \<Rightarrow> jval \<Rightarrow> wire_error + jval" where
  "decode_line s line =
     (case line of
        JObj r \<Rightarrow>
          bindE (copy_fields
            [(skey s, skey_name s, Inr), (sparent s, sparent_name s, Inr),
             (sline s, sline_name s, decode_integer (sline s))] r []) (\<lambda>out.
          bindE (decode_into (sattributes s) r out) (\<lambda>out. Inr (JObj out)))
      | _ \<Rightarrow> Inl (DecodeError (sid s)))"

fun decode_sections :: "tabular_section list \<Rightarrow> row \<Rightarrow> row \<Rightarrow> wire_error + row" where
  "decode_sections [] secs out = Inr out"
| "decode_sections (s # tail) secs out =
     (if \<not> own secs (sid s) then decode_sections tail secs out
      else (case get secs (sid s) of
              JArr ls \<Rightarrow>
                bindE (mapE (\<lambda>l. if l = JHole then Inr JHole else decode_line s l) ls) (\<lambda>ws.
                  decode_sections tail secs (set_key (sname s) (JArr ws) out))
            | _ \<Rightarrow> Inl (DecodeError (sid s))))"

definition decode_row :: "entry \<Rightarrow> jval \<Rightarrow> wire_error + row" where
  "decode_row e v =
     (case v of
        JObj raw \<Rightarrow>
          bindE (copy_fields
            [(okey e, okey_name e, Inr), (oversion e, oversion_name e, decode_integer (oversion e))] raw []) (\<lambda>out.
          bindE (decode_into (oattributes e) raw out) (\<lambda>out.
            if \<not> own raw sections_key then Inr out
            else (case get raw sections_key of
                    JObj secs \<Rightarrow>
                      bindE (decode_sections (osections e) secs []) (\<lambda>w.
                        Inr (set_key sections_key (JObj w) out))
                  | _ \<Rightarrow> Inl (DecodeError sections_key))))
      | _ \<Rightarrow> Inl (DecodeError (okey e)))"

subsection \<open>The canonical value\<close>

text \<open>
  What a value looks like after the wire: a \<open>BigInt\<close> is an integer, a moment is normalised, a
  reference of a pair has its two keys in one order. Everything else comes back as it was.
\<close>

definition canon_scalar :: "attribute \<Rightarrow> jval \<Rightarrow> jval" where
  "canon_scalar a v =
     (case (atype a, v) of
        (Logical TBigInt, JStr s) \<Rightarrow> JBig (int_of_text s)
      | (Logical TDateTime, JStr s) \<Rightarrow> (case normalise_date_time s of Some m \<Rightarrow> JStr m | None \<Rightarrow> v)
      | _ \<Rightarrow> v)"

definition canon :: "attribute \<Rightarrow> jval \<Rightarrow> jval" where
  "canon a v =
     (if atype a = Raw then v
      else case (apair a, v) of
        (Some _, JObj kvs) \<Rightarrow>
          JObj [(js ''type'', get kvs (js ''type'')), (js ''id'', get kvs (js ''id''))]
      | (Some _, _) \<Rightarrow> v
      | (None, JArr vs) \<Rightarrow> if aarray a then JArr (map (canon_scalar a) vs) else canon_scalar a v
      | (None, _) \<Rightarrow> canon_scalar a v)"

text \<open>
  A moment that the encoder accepts is not always one that the decoder takes: \<open>DATE_TIME_TEXT\<close>
  lets the seconds out and allows a longer fraction, \<open>DATE_TIME_WIRE\<close> does not.
\<close>

definition moment_value :: "attribute \<Rightarrow> jval \<Rightarrow> bool" where
  "moment_value a v =
     (case (atype a, v) of
        (Logical TDateTime, JStr s) \<Rightarrow> normalise_date_time s \<noteq> None
      | _ \<Rightarrow> True)"

definition moments_ok :: "attribute \<Rightarrow> jval \<Rightarrow> bool" where
  "moments_ok a v = (case v of JArr vs \<Rightarrow> (\<forall>w \<in> set vs. moment_value a w) | _ \<Rightarrow> moment_value a v)"

text \<open>What the catalog promises of an attribute: labels are distinct, a raw column is one column.\<close>

definition attribute_ok :: "attribute \<Rightarrow> bool" where
  "attribute_ok a \<longleftrightarrow>
     (atype a = Raw \<longrightarrow> apair a = None \<and> \<not> aarray a)
     \<and> (case aenum a of None \<Rightarrow> True | Some vs \<Rightarrow> distinct (map snd vs))
     \<and> (case apair a of None \<Rightarrow> True | Some p \<Rightarrow> distinct (map snd (targets p)))"

lemma find_label: "distinct (map snd ts) \<Longrightarrow> (n, l) \<in> set ts \<Longrightarrow> find (\<lambda>t. snd t = l) ts = Some (n, l)"
  by (induction ts) force+

lemma scalar_text_back:
  assumes "scalar_text a t s = Some w" "atype a = Logical t" "attribute_ok a" "moment_value a (JStr s)"
    "t \<noteq> TJson"
  shows "\<exists>s'. w = JStr s' \<and> decode_text a t c s' = Inr (Some (canon_scalar a (JStr s)))"
proof (cases t)
  case TRef
  show ?thesis
  proof (cases "aenum a")
    case (Some vs)
    then obtain nl where "find (\<lambda>nl. fst nl = s) vs = Some nl" "w = JStr (snd nl)"
      using assms(1) TRef by (auto simp: scalar_text_def)
    then show ?thesis
      using assms(2,3) Some TRef find_label [of vs s "snd nl"] find_SomeD [of "\<lambda>nl. fst nl = s" vs nl]
      by (cases nl) (auto simp: attribute_ok_def decode_text_def canon_scalar_def)
  qed (use assms TRef in \<open>auto simp: scalar_text_def decode_text_def canon_scalar_def\<close>)
qed (use assms in \<open>auto simp: scalar_text_def decode_text_def canon_scalar_def moment_value_def kept_def\<close>)

lemma int8_text_integer: "int8_text s \<Longrightarrow> integer_text s"
  by (simp add: int8_text_def)

lemma int_of_text_show_int [simp]: "int_of_text (show_int i) = i"
proof -
  have "\<not> is_sign (hd (show_nat n))" for n
    using show_nat_digits [of n] show_nat_not_Nil [of n] by (cases "show_nat n") (auto simp: is_digit_def is_sign_def)
  moreover have "hd (show_nat n) \<noteq> 45" for n
    using calculation by (metis is_sign_def)
  ultimately show ?thesis
    by (auto simp: int_of_text_def show_int_def strip_sign_def negative_def is_sign_def Let_def)
qed

lemma range_safe:
  "is_within_type (plain_type TInteger) (DNum n) \<Longrightarrow> safe_integer n"
  "is_within_type (plain_type TSmallInt) (DNum n) \<Longrightarrow> safe_integer n"
  by (auto simp: is_within_type_def Let_def plain_type_def integer_range_def in_range_def safe_integer_def
      split: option.splits)

lemma scalar_back:
  assumes "scalar a v = Some w" "attribute_ok a" "moment_value a v"
  shows "(w = JNull \<longleftrightarrow> v = JNull) \<and> w \<noteq> JHole \<and> decode_item a w = Inr (Some (canon_scalar a v))"
proof (cases "v = JNull")
  case True
  then show ?thesis using assms by (auto simp: scalar_def decode_item_def canon_scalar_def split: attribute_type.splits logical_type.splits)
next
  case False
  then obtain t where t: "atype a = Logical t"
    using assms(1) by (cases "atype a") (auto simp: scalar_def)
  show ?thesis
  proof (cases "t = TJson")
    case True
    then have "w = v" "v \<noteq> JHole"
      using assms(1) False t by (auto simp: scalar_def scalar_text_def split: jval.splits if_splits)
    then show ?thesis using False t True by (auto simp: decode_item_def decode_scalar_def canon_scalar_def)
  next
    case json: False
    show ?thesis
    proof (cases v)
      case (JStr s)
      then have st: "scalar_text a t s = Some w"
        using assms(1) t by (auto simp: scalar_def split: if_splits)
      from scalar_text_back [OF this t assms(2) assms(3) [unfolded JStr] json, of "acolumn a"]
      show ?thesis
        using JStr t json st
        by (auto simp: decode_item_def decode_scalar_def scalar_text_def split: logical_type.splits)
    next
      case (JBig i)
      then have "w = JStr (show_int i)" "t = TBigInt" "int8_text (show_int i)"
        using assms(1) t json by (auto simp: scalar_def split: if_splits)
      then show ?thesis
        using JBig t int8_text_integer
        by (auto simp: decode_item_def decode_scalar_def decode_text_def canon_scalar_def kept_def)
    qed (use assms(1) t json False in
      \<open>auto simp: scalar_def decode_item_def decode_scalar_def canon_scalar_def kept_def
        range_safe split: if_splits\<close>)
  qed
qed

subsection \<open>One attribute\<close>

lemma items_back:
  "encode_items a path i vs = Inr ws \<Longrightarrow> attribute_ok a \<Longrightarrow> \<forall>v \<in> set vs. moment_value a v \<Longrightarrow>
   mapE (decode_item a) ws = Inr (map (\<lambda>v. Some (canon_scalar a v)) vs)"
proof (induction a path i vs arbitrary: ws rule: encode_items.induct)
  case (2 a path i v vs)
  then obtain w us where w: "scalar a v = Some w" "encode_items a path (i + 1) vs = Inr us" "ws = w # us"
    by (auto simp: bindE_eq_Inr split: option.splits if_splits)
  show ?case using scalar_back [OF w(1)] "2.IH" [OF _ w(2)] "2.prems" w by (auto split: option.splits if_splits)
qed simp

lemma encode_pair_back:
  assumes "encode_pair a v path = Inr (label, i)" "apair a = Some p" "distinct (map snd (targets p))"
  shows "(label = JNull \<and> i = JNull \<and> v = JNull) \<or>
    (\<exists>kvs l j. v = JObj kvs \<and> label = JStr l \<and> i = JStr j \<and> get kvs (js ''id'') = JStr j \<and>
      (\<exists>t. find (\<lambda>t. snd t = l) (targets p) = Some t \<and> get kvs (js ''type'') = JStr (ref_key (fst t))))"
proof (cases v)
  case (JObj kvs)
  then obtain j l where kvs: "get kvs (js ''id'') = JStr j" "i = JStr j" "label = JStr l"
    "pair_target (targets p) (get kvs (js ''type'')) = Some l"
    using assms(1,2) by (auto simp: encode_pair_def Let_def split: if_splits jval.splits option.splits)
  then obtain s t where s: "get kvs (js ''type'') = JStr s" "l = snd t"
    and t: "find (\<lambda>t. ref_key (fst t) = s) (targets p) = Some t"
    by (auto simp: pair_target_def split: jval.splits)
  have "find (\<lambda>t. snd t = l) (targets p) = Some t"
    using find_SomeD [OF t] s(2) find_label [OF assms(3), of "fst t" "snd t"] by simp
  then show ?thesis using JObj kvs s find_SomeD [OF t] by blast
qed (use assms(1) in \<open>auto simp: encode_pair_def Let_def\<close>)

lemma wire_attribute_columns:
  "attribute_ok a \<Longrightarrow> wire_attribute prefix a v = Inr kvs \<Longrightarrow>
   set (map fst kvs) = set (columns_of a) \<and> length kvs = length (columns_of a)"
  by (auto simp: wire_attribute_def columns_of_def attribute_ok_def split: if_splits sum.splits option.splits)

lemma wire_pair_back:
  assumes "attribute_ok a" "wire_attribute prefix a v = Inr kvs" "distinct (columns_of a)"
    "\<forall>(k, x) \<in> set kvs. map_of raw k = Some x" "apair a = Some p"
  shows "decode_value a raw = Inr (Some (canon a v))"
proof -
  have cols: "acolumn a \<noteq> type_column p" using assms(3,5) by (simp add: columns_of_def)
  have raw: "atype a \<noteq> Raw" using assms(1,5) by (auto simp: attribute_ok_def)
  then obtain w where w: "encode_item_value a v (prefix @ aname a) = Inr w"
    "kvs = [(type_column p, object_field w (type_column p)), (acolumn a, object_field w (acolumn a))]"
    using assms(2,5) by (auto simp: wire_attribute_def split: sum.splits)
  obtain label i where pair: "encode_pair a v (prefix @ aname a) = Inr (label, i)"
    "w = JObj (set_keys [(type_column p, label), (acolumn a, i)] [])"
    using w(1) assms(5) by (auto simp: encode_item_value_def bindE_eq_Inr split: if_splits)
  have "get raw (type_column p) = label" "get raw (acolumn a) = i"
    using assms(4) w(2) pair(2) cols by (auto simp: object_field_def get_def)
  then show ?thesis
    using encode_pair_back [OF pair(1) assms(5)] assms(1,5) raw
    by (auto simp: decode_value_def decode_pair_def canon_def Let_def attribute_ok_def)
qed

lemma wire_attribute_back:
  assumes "attribute_ok a" "wire_attribute prefix a v = Inr kvs" "moments_ok a v" "distinct (columns_of a)"
    "\<forall>(k, x) \<in> set kvs. map_of raw k = Some x"
  shows "decode_value a raw = Inr (Some (canon a v))"
proof (cases "apair a")
  case None
  note pair = None
  show ?thesis
  proof (cases "atype a = Raw")
    case True
    then have "get raw (acolumn a) = v" using assms(2,5) by (auto simp: wire_attribute_def get_def)
    then show ?thesis
      using True pair assms(1) by (auto simp: decode_value_def decode_scalar_def canon_def attribute_ok_def Let_def)
  next
    case False
    then obtain w where w: "encode_item_value a v (prefix @ aname a) = Inr w" "kvs = [(acolumn a, w)]"
      using assms(2) pair by (auto simp: wire_attribute_def split: sum.splits)
    have raw: "get raw (acolumn a) = w" using assms(5) w(2) by (simp add: get_def)
    show ?thesis
    proof (cases "aarray a \<and> v \<noteq> JNull")
      case True
      then obtain vs ws where vs: "v = JArr vs" "encode_items a (prefix @ aname a) 0 vs = Inr ws" "w = JArr ws"
        using w(1) pair by (auto simp: encode_item_value_def bindE_eq_Inr split: if_splits jval.splits)
      have "mapE (decode_item a) ws = Inr (map (\<lambda>v. Some (canon_scalar a v)) vs)"
        using items_back [OF vs(2) assms(1)] assms(3) vs(1) by (simp add: moments_ok_def)
      then show ?thesis
        using raw vs(1,3) True pair False by (auto simp: decode_value_def canon_def Let_def comp_def)
    next
      case plain: False
      then have s: "scalar a v = Some w"
        using w(1) pair by (auto simp: encode_item_value_def split: if_splits option.splits)
      have m: "moment_value a v"
        using assms(3) by (cases v) (auto simp: moments_ok_def moment_value_def split: attribute_type.split logical_type.split)
      note decoded = scalar_back [OF s assms(1) m]
      have "decode_value a raw = decode_item a w"
        using decoded raw plain pair by (auto simp: decode_value_def decode_item_def Let_def)
      moreover have "canon a v = canon_scalar a v"
        using plain pair False by (cases v) (simp_all add: canon_def)
      ultimately show ?thesis using decoded by simp
    qed
  qed
qed (rule wire_pair_back [OF assms(1,2,4,5)])

interpretation wire: codec "wire_attribute prefix" decode_value canon moments_ok attribute_ok for prefix
  by unfold_locales (use wire_attribute_columns wire_attribute_back in blast)+

definition integer_view :: "jval \<Rightarrow> jval" where
  "integer_view v = (case v of JNum n \<Rightarrow> JNum (Dec (the (num_int n)) 0) | _ \<Rightarrow> v)"

lemma integer_text_show_int: "integer_text (show_int i)"
proof -
  have "strip_sign (show_nat n) = show_nat n" for n
    using show_nat_digits [of n] by (cases "show_nat n") (auto simp: strip_sign_def is_digit_def is_sign_def)
  then show ?thesis
    by (simp add: integer_text_def show_int_def strip_sign_def [of "_ # _"] is_sign_def)
qed

lemma decode_encode_integer:
  "encode_integer path v = Inr x \<Longrightarrow> decode_integer column x = Inr (integer_view v)"
  by (auto simp: encode_integer_def decode_integer_def integer_view_def integer_text_show_int safe_integer_def
      split: jval.splits if_splits option.splits)

subsection \<open>Lines and rows\<close>

definition section_ok :: "tabular_section \<Rightarrow> bool" where
  "section_ok s \<longleftrightarrow>
     level_ok attribute_ok [skey_name s, sparent_name s, sline_name s] [skey s, sparent s, sline s] (sattributes s)"

definition wire_ok :: "entry \<Rightarrow> bool" where
  "wire_ok e \<longleftrightarrow>
     level_ok attribute_ok [okey_name e, oversion_name e, sections_key] [okey e, oversion e, sections_key] (oattributes e)
     \<and> (\<forall>s \<in> set (osections e). section_ok s)
     \<and> distinct (map sname (osections e)) \<and> distinct (map sid (osections e))"

text \<open>The line and the header a client reads, by logical name.\<close>

definition line_fields :: "tabular_section \<Rightarrow> jstr \<Rightarrow> (wire_error, wire_error) fixed_field list" where
  "line_fields s path =
     [\<lparr>fname = skey_name s, fcolumn = skey s, fenc = \<lambda>v. Inr (encode_key v), fdec = Inr, fview = encode_key\<rparr>,
      \<lparr>fname = sparent_name s, fcolumn = sparent s, fenc = Inr, fdec = Inr, fview = id\<rparr>,
      \<lparr>fname = sline_name s, fcolumn = sline s, fenc = encode_integer (path @ 46 # sline_name s),
        fdec = decode_integer (sline s), fview = integer_view\<rparr>]"

definition header_fixed :: "entry \<Rightarrow> (wire_error, wire_error) fixed_field list" where
  "header_fixed e =
     [\<lparr>fname = okey_name e, fcolumn = okey e, fenc = \<lambda>v. Inr (encode_key v), fdec = Inr, fview = encode_key\<rparr>,
      \<lparr>fname = oversion_name e, fcolumn = oversion e, fenc = encode_integer (oversion_name e),
        fdec = decode_integer (oversion e), fview = integer_view\<rparr>]"

definition line_view :: "tabular_section \<Rightarrow> row \<Rightarrow> jstr \<Rightarrow> jval option" where
  "line_view s r n =
     (if n = skey_name s then map_option encode_key (map_of r n)
      else if n = sparent_name s then map_of r n
      else if n = sline_name s then map_option integer_view (map_of r n)
      else level_view canon (sattributes s) r n)"

definition header_view :: "entry \<Rightarrow> row \<Rightarrow> jstr \<Rightarrow> jval option" where
  "header_view e r n =
     (if n = okey_name e then map_option encode_key (map_of r n)
      else if n = oversion_name e then map_option integer_view (map_of r n)
      else level_view canon (oattributes e) r n)"

lemma line_fields_view: "fields_view canon (line_fields s path) (sattributes s) r n = line_view s r n"
  by (auto simp: fields_view_def line_fields_def line_view_def option.map_id)

lemma header_fields_view: "fields_view canon (header_fixed e) (oattributes e) r n = header_view e r n"
  by (auto simp: fields_view_def header_fixed_def header_view_def)

lemma fixed_ok: "\<forall>f \<in> set (line_fields s path). field_ok f" "\<forall>f \<in> set (header_fixed e). field_ok f"
  by (auto simp: line_fields_def header_fixed_def field_ok_def decode_encode_integer)

lemma decode_encode_line:
  assumes "encode_line s path (JObj r) = Inr w" and ok: "section_ok s" and "level_fits moments_ok (sattributes s) r"
  shows "\<exists>w' r'. w = JObj w' \<and> decode_line s w = Inr (JObj r') \<and> (\<forall>n. map_of r' n = line_view s r n)"
proof -
  obtain out w' where out: "encode_fixed (line_fields s path) r [] = Inr out"
    and w': "encode_values (sattributes s) r (path @ [46]) out = Inr w'" and w: "w = JObj w'"
    using assms(1) by (auto simp: encode_line_def line_fields_def bindE_eq_Inr Let_def simp del: copy_fields.simps)
  have "level_ok attribute_ok (map fname (line_fields s path) @ []) (map fcolumn (line_fields s path) @ []) (sattributes s)"
    using ok by (simp add: section_ok_def line_fields_def)
  from wire.whole_level_back [OF out w' [unfolded encode_values_def] this fixed_ok(1) assms(3), of w'] obtain p r' where
    "decode_fixed (line_fields s path) w' [] = Inr p" "decode_into (sattributes s) w' p = Inr r'"
    "\<forall>n. map_of r' n = line_view s r n"
    by (auto simp: line_fields_view decode_into_def)
  then show ?thesis by (simp add: decode_line_def w line_fields_def del: copy_fields.simps)
qed

definition lines_match :: "tabular_section \<Rightarrow> jval list \<Rightarrow> jval list \<Rightarrow> bool" where
  "lines_match s = list_all2 (\<lambda>l l'. l = JHole \<and> l' = JHole \<or>
     (\<exists>r r'. l = JObj r \<and> l' = JObj r' \<and> (\<forall>n. map_of r' n = line_view s r n)))"

abbreviation (input) decode_lines :: "tabular_section \<Rightarrow> jval list \<Rightarrow> wire_error + jval list" where
  "decode_lines s \<equiv> mapE (\<lambda>l. if l = JHole then Inr JHole else decode_line s l)"

lemma encode_lines_back:
  "encode_lines s i ls = Inr ws \<Longrightarrow> section_ok s \<Longrightarrow>
   \<forall>r. JObj r \<in> set ls \<longrightarrow> level_fits moments_ok (sattributes s) r \<Longrightarrow>
   \<exists>ls'. decode_lines s ws = Inr ls' \<and> lines_match s ls ls'"
proof (induction s i ls arbitrary: ws rule: encode_lines.induct)
  case (2 s i l ls)
  obtain w us where w: "(if l = JHole then Inr JHole else encode_line s (line_path s i) l) = Inr w"
    and us: "encode_lines s (i + 1) ls = Inr us" "ws = w # us"
    using "2.prems"(1) by (auto simp: bindE_eq_Inr)
  obtain ls' where ls': "decode_lines s us = Inr ls'" "lines_match s ls ls'"
    using "2.IH" [OF us(1) "2.prems"(2)] "2.prems"(3) by auto
  show ?case
  proof (cases "l = JHole")
    case True
    then show ?thesis using w us ls' by (auto simp: lines_match_def)
  next
    case False
    then obtain r where r: "l = JObj r" using w by (cases l) (auto simp: encode_line_def)
    then obtain w' r' where "w = JObj w'" "decode_line s w = Inr (JObj r')" "\<forall>n. map_of r' n = line_view s r n"
      using decode_encode_line [of s "line_path s i" r w] w "2.prems"(2,3) by auto
    then show ?thesis using us ls' r by (auto simp: lines_match_def)
  qed
qed (simp add: lines_match_def)

lemma encode_sections_lookup:
  "encode_sections ss secs out = Inr w \<Longrightarrow> distinct (map sid ss) \<Longrightarrow>
   (\<forall>k. k \<notin> sid ` set ss \<longrightarrow> map_of w k = map_of out k) \<and>
   (\<forall>s \<in> set ss.
      if own secs (sname s)
      then \<exists>ls ws. get secs (sname s) = JArr ls \<and> encode_lines s 0 ls = Inr ws \<and> map_of w (sid s) = Some (JArr ws)
      else map_of w (sid s) = map_of out (sid s))"
proof (induction ss secs out rule: encode_sections.induct)
  case (2 s tail secs out)
  have dis: "distinct (map sid tail)" "sid s \<notin> sid ` set tail" using "2.prems"(2) by auto
  show ?case
  proof (cases "own secs (sname s)")
    case False
    then show ?thesis using "2.IH"(1) [OF False] "2.prems"(1) dis by auto
  next
    case True
    then obtain ls ws where ls: "get secs (sname s) = JArr ls" "encode_lines s 0 ls = Inr ws"
      "encode_sections tail secs (set_key (sid s) (JArr ws) out) = Inr w"
      using "2.prems"(1) by (auto simp: bindE_eq_Inr split: jval.splits)
    from "2.IH"(2) [OF _ ls(1) ls(3) dis(1)] True dis(2) ls(1,2) show ?thesis
      by (auto split: if_splits) (metis image_eqI)+
  qed
qed simp

lemma decode_sections_lookup:
  "\<forall>s \<in> set ss. own w (sid s) \<longrightarrow> (\<exists>ws. get w (sid s) = JArr ws \<and> decode_lines s ws = Inr (g s)) \<Longrightarrow>
   distinct (map sname ss) \<Longrightarrow>
   \<exists>r. decode_sections ss w out = Inr r \<and>
     (\<forall>s \<in> set ss. map_of r (sname s) = (if own w (sid s) then Some (JArr (g s)) else map_of out (sname s))) \<and>
     (\<forall>n. n \<notin> sname ` set ss \<longrightarrow> map_of r n = map_of out n)"
proof (induction ss arbitrary: out)
  case (Cons s tail)
  define out1 where "out1 = (if own w (sid s) then set_key (sname s) (JArr (g s)) out else out)"
  obtain r where r: "decode_sections tail w out1 = Inr r"
    "\<forall>t \<in> set tail. map_of r (sname t) = (if own w (sid t) then Some (JArr (g t)) else map_of out1 (sname t))"
    "\<forall>n. n \<notin> sname ` set tail \<longrightarrow> map_of r n = map_of out1 n"
    using Cons.IH [of out1] Cons.prems by auto
  have "decode_sections (s # tail) w out = Inr r"
    using r(1) Cons.prems(1) by (auto simp: out1_def)
  moreover have "sname s \<notin> sname ` set tail" using Cons.prems(2) by simp
  moreover from this have "\<forall>t \<in> set tail. sname t \<noteq> sname s" by (metis imageI)
  ultimately show ?case using r(2,3) by (intro exI [of _ r]) (auto simp: out1_def)
qed simp

text \<open>What a client reads of the sections of a card.\<close>

definition sections_match :: "entry \<Rightarrow> row \<Rightarrow> row \<Rightarrow> bool" where
  "sections_match e secs secs' \<longleftrightarrow>
     (\<forall>s \<in> set (osections e).
        (case map_of secs (sname s) of
           Some (JArr ls) \<Rightarrow> (\<exists>ls'. map_of secs' (sname s) = Some (JArr ls') \<and> lines_match s ls ls')
         | _ \<Rightarrow> map_of secs' (sname s) = None))"

definition row_moments :: "entry \<Rightarrow> row \<Rightarrow> bool" where
  "row_moments e r \<longleftrightarrow>
     level_fits moments_ok (oattributes e) r
     \<and> (\<forall>secs. map_of r sections_key = Some (JObj secs) \<longrightarrow>
          (\<forall>s \<in> set (osections e). \<forall>ls. map_of secs (sname s) = Some (JArr ls) \<longrightarrow>
             (\<forall>l. JObj l \<in> set ls \<longrightarrow> level_fits moments_ok (sattributes s) l)))"

lemma own_getD: "own r k \<Longrightarrow> get r k = v \<Longrightarrow> map_of r k = Some v"
  by (auto simp: own_def get_def)

lemma sections_back:
  assumes "encode_sections (osections e) secs [] = Inr w" "wire_ok e"
    "\<forall>s \<in> set (osections e). \<forall>ls. map_of secs (sname s) = Some (JArr ls) \<longrightarrow>
       (\<forall>l. JObj l \<in> set ls \<longrightarrow> level_fits moments_ok (sattributes s) l)"
  shows "\<exists>secs'. decode_sections (osections e) w [] = Inr secs' \<and> sections_match e secs secs'"
proof -
  have e: "\<forall>s \<in> set (osections e). section_ok s" "distinct (map sname (osections e))" "distinct (map sid (osections e))"
    using assms(2) by (simp_all add: wire_ok_def)
  note enc = conjunct2 [OF encode_sections_lookup [OF assms(1) e(3)]]
  have one: "\<exists>ls ls' ws. map_of secs (sname s) = Some (JArr ls) \<and> map_of w (sid s) = Some (JArr ws)
      \<and> decode_lines s ws = Inr ls' \<and> lines_match s ls ls'"
    if s: "s \<in> set (osections e)" "own secs (sname s)" for s
  proof -
    obtain ls ws where ls: "get secs (sname s) = JArr ls" "encode_lines s 0 ls = Inr ws" "map_of w (sid s) = Some (JArr ws)"
      using enc s by force
    note m = own_getD [OF s(2) ls(1)]
    from encode_lines_back [OF ls(2)] e(1) assms(3) s(1) m
    obtain ls' where "decode_lines s ws = Inr ls'" "lines_match s ls ls'" by blast
    then show ?thesis using ls(3) m by blast
  qed
  have absent: "map_of w (sid s) = None" if "s \<in> set (osections e)" "\<not> own secs (sname s)" for s
    using enc that by force
  define g where "g s = projr (decode_lines s (case get w (sid s) of JArr ws \<Rightarrow> ws | _ \<Rightarrow> []))" for s
  have present: "\<exists>ws. get w (sid s) = JArr ws \<and> decode_lines s ws = Inr (g s)"
    if "s \<in> set (osections e)" "own w (sid s)" for s
  proof -
    have "own secs (sname s)" by (metis absent own_def that)
    from one [OF that(1) this] show ?thesis by (auto simp: g_def get_def)
  qed
  obtain secs' where secs': "decode_sections (osections e) w [] = Inr secs'"
    "\<forall>s \<in> set (osections e). map_of secs' (sname s) = (if own w (sid s) then Some (JArr (g s)) else None)"
    using decode_sections_lookup [of "osections e" w g "[]"] present e(2) by auto
  have "case map_of secs (sname s) of
      Some (JArr ls) \<Rightarrow> (\<exists>ls'. map_of secs' (sname s) = Some (JArr ls') \<and> lines_match s ls ls')
    | _ \<Rightarrow> map_of secs' (sname s) = None" if s: "s \<in> set (osections e)" for s
  proof (cases "own secs (sname s)")
    case True
    from one [OF s this] secs'(2) s show ?thesis by (auto simp: g_def get_def own_def)
  next
    case False
    then show ?thesis using absent [OF s] secs'(2) s by (auto simp: own_def)
  qed
  then show ?thesis using secs'(1) by (auto simp: sections_match_def)
qed

text \<open>A decoded row that has the fields of the row that was encoded, in canonical form.\<close>

definition row_match :: "entry \<Rightarrow> row \<Rightarrow> row \<Rightarrow> bool" where
  "row_match e r r' \<longleftrightarrow>
     (\<forall>n. n \<noteq> sections_key \<longrightarrow> map_of r' n = header_view e r n) \<and>
     (case map_of r sections_key of
        Some (JObj secs) \<Rightarrow> (\<exists>secs'. map_of r' sections_key = Some (JObj secs') \<and> sections_match e secs secs')
      | _ \<Rightarrow> map_of r' sections_key = None)"

lemma row_back:
  assumes "encode_row e r = Inr w" and ok: "wire_ok e" and "row_moments e r"
  shows "\<exists>r'. decode_row e (JObj w) = Inr r' \<and> row_match e r r'"
proof -
  obtain o1 o3 where o1: "encode_fixed (header_fixed e) r [] = Inr o1"
    and o3: "encode_values (oattributes e) r [] o1 = Inr o3"
    and w: "(if \<not> own r sections_key then Inr o3
       else case get r sections_key of
              JObj secs \<Rightarrow> bindE (encode_sections (osections e) secs []) (\<lambda>w. Inr (set_key sections_key (JObj w) o3))
            | _ \<Rightarrow> Inl (EncodeError sections_key)) = Inr w"
    using assms(1) by (auto simp: encode_row_def header_fixed_def bindE_eq_Inr simp del: copy_fields.simps)
  have lvl: "level_ok attribute_ok (map fname (header_fixed e) @ [sections_key]) (map fcolumn (header_fixed e) @ [sections_key]) (oattributes e)"
    using ok by (simp add: wire_ok_def header_fixed_def)
  have raw: "\<forall>k. k \<notin> set [sections_key] \<longrightarrow> map_of w k = map_of o3 k"
    using w by (auto simp: bindE_eq_Inr split: if_splits jval.splits)
  obtain p r1 where p: "decode_fixed (header_fixed e) w [] = Inr p" "decode_into (oattributes e) w p = Inr r1"
    and view: "\<forall>n. map_of r1 n = header_view e r n" and free: "map_of o3 sections_key = None"
    using wire.whole_level_back [OF o1 o3 [unfolded encode_values_def] lvl fixed_ok(2) _ raw] assms(3)
    by (auto simp: row_moments_def header_fields_view decode_into_def)
  have no_sections: "map_of r1 sections_key = None"
  proof -
    have "sections_key \<notin> aname ` set (oattributes e) \<union> {okey_name e, oversion_name e}"
      using ok by (auto simp: wire_ok_def level_ok_def)
    then show ?thesis using view level_view_other by (simp add: header_view_def)
  qed
  show ?thesis
  proof (cases "own r sections_key")
    case False
    then have "w = o3" using w by simp
    then have "decode_row e (JObj w) = Inr r1"
      using p free by (simp add: decode_row_def header_fixed_def own_def del: copy_fields.simps)
    then show ?thesis using view no_sections False by (simp add: row_match_def own_def)
  next
    case True
    then obtain secs ws where secs: "get r sections_key = JObj secs"
      "encode_sections (osections e) secs [] = Inr ws" "w = set_key sections_key (JObj ws) o3"
      using w by (auto simp: bindE_eq_Inr split: jval.splits)
    note m = own_getD [OF True secs(1)]
    obtain secs' where secs': "decode_sections (osections e) ws [] = Inr secs'" "sections_match e secs secs'"
      using sections_back [OF secs(2) ok] assms(3) m by (auto simp: row_moments_def)
    have "decode_row e (JObj w) = Inr (set_key sections_key (JObj secs') r1)"
      using p secs(3) secs'(1) by (simp add: decode_row_def header_fixed_def own_def get_def del: copy_fields.simps)
    then show ?thesis using view m secs'(2) by (auto simp: row_match_def)
  qed
qed


definition product_row :: row where
  "product_row =
     [(js ''id'', JNum (Dec 41 0)), (js ''rowVersion'', JNum (Dec 7 0)),
      (js ''owner'', JNull), (js ''marks'', JArr [JNull, JNum (Dec 5 0)]),
      (js ''tabularSections'', JObj [(js ''packing'', JArr [JObj
         [(js ''lineNo'', JNum (Dec 1 0)), (js ''boxCount'', JNum (Dec 3 0))]])])]"

definition product_wire :: row where
  "product_wire =
     [(js ''id'', JStr (js ''41'')), (js ''row_version'', JStr (js ''7'')),
      (js ''owner_type'', JNull), (js ''owner_id'', JNull), (js ''mark_list'', JArr [JNull, JNum (Dec 5 0)]),
      (js ''tabularSections'', JObj [(js ''s1'', JArr [JObj
         [(js ''line_no'', JStr (js ''1'')), (js ''box_count'', JNum (Dec 3 0))]])])]"

lemma product_moments: "row_moments product_entry product_row"
proof -
  have "moments_ok a v" if "a \<in> set (oattributes product_entry) \<union> set (sattributes packing_section)" for a v
    using that by (auto simp: sample_defs moments_ok_def moment_value_def split: jval.split)
  then show ?thesis
    by (auto simp: row_moments_def level_fits_def) (simp add: product_entry_def)
qed


subsection \<open>Keys come from the catalog only\<close>

lemma wire_attribute_within:
  "wire_attribute prefix a v = Inr kvs \<Longrightarrow> fst ` set kvs \<subseteq> set (columns_of a)"
  by (auto simp: wire_attribute_def columns_of_def split: if_splits sum.splits option.splits)

lemma decode_into_keys:
  "decode_into attrs raw out = Inr r \<Longrightarrow> fst ` set r \<subseteq> fst ` set out \<union> aname ` set attrs"
  unfolding decode_into_def
proof (induction attrs arbitrary: out)
  case (Cons a attrs)
  show ?case
  proof (cases "present a raw")
    case False
    then show ?thesis using Cons by auto
  next
    case True
    then obtain v where "read_fields decode_value attrs raw
        (case v of None \<Rightarrow> out | Some x \<Rightarrow> set_key (aname a) x out) = Inr r"
      using Cons.prems by (auto simp: bindE_eq_Inr)
    from Cons.IH [OF this] show ?thesis by (auto simp: set_key_dom split: option.splits)
  qed
qed simp

lemma key_chain: "A \<subseteq> insert k B \<Longrightarrow> B \<subseteq> C \<union> D \<Longrightarrow> C \<subseteq> {x, y} \<Longrightarrow> A \<subseteq> {x, y, k} \<union> D"
  by blast

text \<open>
  C38. The keys of a decoded row are the names of the catalog entry, whatever keys the raw row
  has: a key of another name (\<open>__proto__\<close>, say) gives no field.
\<close>

theorem decode_row_keys:
  assumes "decode_row e (JObj raw) = Inr r"
  shows "fst ` set r \<subseteq> {okey_name e, oversion_name e, sections_key} \<union> aname ` set (oattributes e)"
proof -
  obtain p q where p: "copy_fields
      [(okey e, okey_name e, Inr), (oversion e, oversion_name e, decode_integer (oversion e))] raw [] = Inr p"
    and q: "decode_into (oattributes e) raw p = Inr q" "r = q \<or> (\<exists>v. r = set_key sections_key v q)"
    using assms by (auto simp: decode_row_def bindE_eq_Inr simp del: copy_fields.simps split: if_splits jval.splits)
  have "fst ` set r \<subseteq> insert sections_key (fst ` set q)"
    using q(2) by (elim disjE exE) (simp_all add: set_key_dom subset_insertI)
  moreover have "fst ` set p \<subseteq> {okey_name e, oversion_name e}" using copy_fields_keys [OF p] by simp
  ultimately show ?thesis by (rule key_chain [OF _ decode_into_keys [OF q(1)]])
qed

lemma decode_row_keys_witness:
  "fst ` set [(js ''id'', JStr (js ''41''))]
   \<subseteq> {okey_name product_entry, oversion_name product_entry, sections_key} \<union> aname ` set (oattributes product_entry)"
  by (rule decode_row_keys [of product_entry "[(js ''__proto__'', JNull), (js ''id'', JStr (js ''41''))]"]) code_simp

end
