(* ===== verification/Path.thy ===== *)
theory Path
  imports Catalog
begin

section \<open>Error paths on the wire\<close>

text \<open>
  \<open>model/runtime/path.ts\<close>: the path of an error between its logical form (names) and its wire
  form (section ids and columns). A path is cut at the dots; the first segment is looked up
  among the sections, then as \<open>creatorMember\<close>, then among the fields of the header; what is
  not found stays as it is.
\<close>

datatype direction = ToWire | FromWire

type_synonym field = "jstr \<times> jstr"

definition attribute_fields :: "attribute list \<Rightarrow> field list" where
  "attribute_fields attrs = map (\<lambda>a. (aname a, acolumn a)) attrs"

definition header_fields :: "entry \<Rightarrow> field list" where
  "header_fields e =
     (okey_name e, okey e) # (oversion_name e, oversion e) # attribute_fields (oattributes e)"

definition section_fields :: "tabular_section \<Rightarrow> field list" where
  "section_fields s = (skey_name s, skey s) # attribute_fields (sattributes s)"

definition map_field :: "direction \<Rightarrow> field list \<Rightarrow> jstr \<Rightarrow> jstr option" where
  "map_field dir fs segment =
     (case dir of
        ToWire \<Rightarrow> map_option snd (find (\<lambda>f. fst f = segment) fs)
      | FromWire \<Rightarrow> map_option fst (find (\<lambda>f. snd f = segment) fs))"

definition map_or_same :: "direction \<Rightarrow> field list \<Rightarrow> jstr \<Rightarrow> jstr" where
  "map_or_same dir fs segment =
     (case map_field dir fs segment of None \<Rightarrow> segment | Some m \<Rightarrow> m)"

definition section_in :: "direction \<Rightarrow> tabular_section \<Rightarrow> jstr" where
  "section_in dir s = (case dir of ToWire \<Rightarrow> sname s | FromWire \<Rightarrow> sid s)"

definition section_out :: "direction \<Rightarrow> tabular_section \<Rightarrow> jstr" where
  "section_out dir s = (case dir of ToWire \<Rightarrow> sid s | FromWire \<Rightarrow> sname s)"

definition index_segment :: "jstr \<Rightarrow> bool" where
  "index_segment s \<longleftrightarrow> s \<noteq> [] \<and> all_digits s"

definition member_word :: jstr where
  "member_word = js ''creatorMember''"

text \<open>The rest of a section path: the name right after the section or after a row index.\<close>

definition map_tail :: "direction \<Rightarrow> field list \<Rightarrow> jstr list \<Rightarrow> jstr list" where
  "map_tail dir fs rest =
     (let i = (if rest \<noteq> [] \<and> index_segment (hd rest) then 1 else 0)
      in if i < length rest then rest[i := map_or_same dir fs (rest ! i)] else rest)"

definition map_segments :: "direction \<Rightarrow> catalog_index \<Rightarrow> entry \<Rightarrow> jstr list \<Rightarrow> jstr list option" where
  "map_segments dir ix e segs =
     (let head = hd segs; rest = tl segs
      in case find (\<lambda>s. section_in dir s = head) (osections e) of
           Some s \<Rightarrow> Some (section_out dir s # map_tail dir (section_fields s) rest)
         | None \<Rightarrow>
             (case ocreator_membership e of
                Some m \<Rightarrow>
                  if head = member_word then
                    (case (by_id ix m, rest) of
                       (Some membership, name # tail) \<Rightarrow>
                         Some (member_word # map_or_same dir (header_fields membership) name # tail)
                     | _ \<Rightarrow> None)
                  else map_option (\<lambda>h. h # rest) (map_field dir (header_fields e) head)
              | None \<Rightarrow> map_option (\<lambda>h. h # rest) (map_field dir (header_fields e) head)))"

definition map_path :: "direction \<Rightarrow> catalog_index \<Rightarrow> jstr \<Rightarrow> jstr \<Rightarrow> jstr" where
  "map_path dir ix object path =
     (case by_id ix object of
        None \<Rightarrow> path
      | Some e \<Rightarrow>
          (case map_segments dir ix e (split_on 46 path) of
             None \<Rightarrow> path
           | Some segs \<Rightarrow> join_with [46] segs))"

definition path_to_wire :: "catalog_index \<Rightarrow> jstr \<Rightarrow> jstr \<Rightarrow> jstr" where
  "path_to_wire = map_path ToWire"

definition path_from_wire :: "catalog_index \<Rightarrow> jstr \<Rightarrow> jstr \<Rightarrow> jstr" where
  "path_from_wire = map_path FromWire"

subsection \<open>Names that survive the wire\<close>

text \<open>
  What the compiler guarantees of the names of a table: names differ, columns differ, none
  holds a dot and none is a row index.
\<close>

definition segment_ok :: "jstr \<Rightarrow> bool" where
  "segment_ok s \<longleftrightarrow> 46 \<notin> set s \<and> \<not> index_segment s"

definition fields_ok :: "field list \<Rightarrow> bool" where
  "fields_ok fs \<longleftrightarrow>
     distinct (map fst fs) \<and> distinct (map snd fs) \<and> (\<forall>f \<in> set fs. segment_ok (fst f) \<and> segment_ok (snd f))"

definition entry_ok :: "entry \<Rightarrow> bool" where
  "entry_ok e \<longleftrightarrow>
     fields_ok (header_fields e) \<and> (\<forall>s \<in> set (osections e). fields_ok (section_fields s))
     \<and> distinct (map sname (osections e)) \<and> distinct (map sid (osections e))
     \<and> (\<forall>s \<in> set (osections e). 46 \<notin> set (sname s) \<and> 46 \<notin> set (sid s)
          \<and> sid s \<notin> snd ` set (header_fields e) \<and> sid s \<noteq> member_word)
     \<and> member_word \<notin> fst ` set (header_fields e) \<union> snd ` set (header_fields e)"

text \<open>
  A segment that is read as it was meant: a known name, or one that is not by chance the
  column of another field.
\<close>

definition meant :: "field list \<Rightarrow> jstr \<Rightarrow> bool" where
  "meant fs seg \<longleftrightarrow> seg \<in> fst ` set fs \<or> seg \<notin> snd ` set fs"

definition tail_name :: "jstr list \<Rightarrow> jstr option" where
  "tail_name rest =
     (let i = (if rest \<noteq> [] \<and> index_segment (hd rest) then 1 else 0)
      in if i < length rest then Some (rest ! i) else None)"

definition meant_segments :: "catalog_index \<Rightarrow> entry \<Rightarrow> jstr list \<Rightarrow> bool" where
  "meant_segments ix e segs \<longleftrightarrow>
     (let head = hd segs; rest = tl segs
      in case find (\<lambda>s. sname s = head) (osections e) of
           Some s \<Rightarrow> (case tail_name rest of None \<Rightarrow> True | Some n \<Rightarrow> meant (section_fields s) n)
         | None \<Rightarrow>
             head \<notin> sid ` set (osections e) \<and> meant (header_fields e) head
             \<and> (case (ocreator_membership e, rest) of
                  (Some m, n # _) \<Rightarrow>
                    (case by_id ix m of
                       Some membership \<Rightarrow>
                         head = member_word \<longrightarrow> entry_ok membership \<and> meant (header_fields membership) n
                     | None \<Rightarrow> True)
                | _ \<Rightarrow> True))"

lemma find_fst: "distinct (map fst fs) \<Longrightarrow> (n, c) \<in> set fs \<Longrightarrow> find (\<lambda>f. fst f = n) fs = Some (n, c)"
  by (induction fs) force+

lemma find_snd: "distinct (map snd fs) \<Longrightarrow> (n, c) \<in> set fs \<Longrightarrow> find (\<lambda>f. snd f = c) fs = Some (n, c)"
  by (induction fs) force+

lemma map_field_known:
  assumes "fields_ok fs" "(n, c) \<in> set fs"
  shows "map_field ToWire fs n = Some c" "map_field FromWire fs c = Some n"
  using assms by (simp_all add: map_field_def fields_ok_def find_fst find_snd)

lemma map_field_None: "map_field FromWire fs c = None \<longleftrightarrow> c \<notin> snd ` set fs"
  "map_field ToWire fs n = None \<longleftrightarrow> n \<notin> fst ` set fs"
  by (force simp: map_field_def find_None_iff)+

lemma map_field_Some: "map_field ToWire fs n = Some c \<Longrightarrow> (n, c) \<in> set fs"
  unfolding map_field_def by (induction fs) (auto split: if_splits)

lemma map_or_same_back:
  assumes "fields_ok fs" "meant fs n"
  shows "map_or_same FromWire fs (map_or_same ToWire fs n) = n"
proof (cases "n \<in> fst ` set fs")
  case True
  then obtain c where "(n, c) \<in> set fs" by force
  then show ?thesis using map_field_known [OF assms(1)] by (simp add: map_or_same_def)
next
  case False
  then have "n \<notin> snd ` set fs" using assms(2) by (simp add: meant_def)
  then show ?thesis using False map_field_None [of fs n] by (simp add: map_or_same_def)
qed

lemma map_or_same_index:
  "fields_ok fs \<Longrightarrow> \<not> index_segment n \<Longrightarrow> \<not> index_segment (map_or_same ToWire fs n)"
  by (auto simp: map_or_same_def fields_ok_def segment_ok_def split: option.split dest!: map_field_Some)

lemma map_or_same_dot:
  "fields_ok fs \<Longrightarrow> 46 \<notin> set n \<Longrightarrow> 46 \<notin> set (map_or_same ToWire fs n)"
  by (auto simp: map_or_same_def fields_ok_def segment_ok_def split: option.split dest!: map_field_Some)

lemma map_tail_back:
  assumes "fields_ok fs" "\<forall>n. tail_name rest = Some n \<longrightarrow> meant fs n"
  shows "map_tail FromWire fs (map_tail ToWire fs rest) = rest"
proof (cases rest)
  case (Cons a r)
  show ?thesis
  proof (cases "index_segment a")
    case True
    then show ?thesis
      using assms Cons map_or_same_back [OF assms(1)] by (cases r) (auto simp: map_tail_def tail_name_def)
  next
    case False
    then show ?thesis
      using assms Cons map_or_same_back [OF assms(1)] map_or_same_index [OF assms(1) False]
      by (auto simp: map_tail_def tail_name_def)
  qed
qed (simp add: map_tail_def)

lemma map_tail_dots:
  "fields_ok fs \<Longrightarrow> \<forall>s \<in> set rest. 46 \<notin> set s \<Longrightarrow> s \<in> set (map_tail ToWire fs rest) \<Longrightarrow> 46 \<notin> set s"
  using map_or_same_dot [of fs]
  by (auto simp: map_tail_def Let_def split: if_splits dest!: set_update_subset_insert [THEN subsetD])

lemma map_segments_back:
  assumes e: "entry_ok e" and segs: "segs \<noteq> []" "\<forall>s \<in> set segs. 46 \<notin> set s"
    and meant: "meant_segments ix e segs"
  shows "case map_segments ToWire ix e segs of
      None \<Rightarrow> map_segments FromWire ix e segs = None
    | Some w \<Rightarrow> w \<noteq> [] \<and> (\<forall>s \<in> set w. 46 \<notin> set s) \<and> map_segments FromWire ix e w = Some segs"
proof -
  define head rest where "head = hd segs" and "rest = tl segs"
  have hr: "segs = head # rest" "46 \<notin> set head" "\<forall>s \<in> set rest. 46 \<notin> set s"
    using segs by (auto simp: head_def rest_def dest: list.set_sel(2))
  note ok = e [unfolded entry_ok_def]
  have no_section: "find (\<lambda>s. sid s = c) (osections e) = None" if "c \<in> snd ` set (header_fields e)" for c
    using ok that by (auto simp: find_None_iff)
  show ?thesis
  proof (cases "find (\<lambda>s. sname s = head) (osections e)")
    case (Some s)
    then have s: "s \<in> set (osections e)" "sname s = head" by (auto simp: find_Some_iff)
    then have fs: "fields_ok (section_fields s)" "46 \<notin> set (sid s)" using ok by auto
    have "find (\<lambda>t. sid t = sid s) (osections e) = Some s" using ok s(1) by (intro find_key) auto
    moreover have "map_tail FromWire (section_fields s) (map_tail ToWire (section_fields s) rest) = rest"
      using meant Some by (intro map_tail_back [OF fs(1)])
        (auto simp: meant_segments_def hr(1) split: option.splits)
    moreover have "\<forall>x \<in> set (map_tail ToWire (section_fields s) rest). 46 \<notin> set x"
      using map_tail_dots [OF fs(1) hr(3)] by blast
    ultimately show ?thesis
      using Some s(2) fs(2) by (simp add: map_segments_def hr(1) section_in_def section_out_def)
  next
    case None
    have m: "head \<notin> sid ` set (osections e)" "meant (header_fields e) head"
      using meant None by (auto simp: meant_segments_def hr(1))
    then have no_sid: "find (\<lambda>s. sid s = head) (osections e) = None" by (auto simp: find_None_iff)
    have member: "member_word \<notin> fst ` set (header_fields e)" "member_word \<notin> snd ` set (header_fields e)"
      using ok by auto
    have header: ?thesis
      if "map_segments ToWire ix e segs = map_option (\<lambda>h. h # rest) (map_field ToWire (header_fields e) head)"
        and "\<And>c. c \<noteq> member_word \<or> ocreator_membership e = None \<Longrightarrow>
          find (\<lambda>s. sid s = c) (osections e) = None \<Longrightarrow>
          map_segments FromWire ix e (c # rest) = map_option (\<lambda>h. h # rest) (map_field FromWire (header_fields e) c)"
        and "head \<noteq> member_word \<or> ocreator_membership e = None"
    proof (cases "map_field ToWire (header_fields e) head")
      case None
      then have "map_field FromWire (header_fields e) head = None"
        using m(2) by (auto simp: map_field_None meant_def)
      then show ?thesis using that(1) that(2) [OF that(3) no_sid] None by (simp add: hr(1))
    next
      case (Some c)
      then have c: "(head, c) \<in> set (header_fields e)" by (rule map_field_Some)
      then have in_columns: "c \<in> snd ` set (header_fields e)" by force
      have "c \<noteq> member_word" using in_columns member(2) by blast
      moreover have "find (\<lambda>s. sid s = c) (osections e) = None" using in_columns by (rule no_section)
      moreover have "46 \<notin> set c" using ok c by (auto simp: fields_ok_def segment_ok_def)
      ultimately have "c \<noteq> member_word" "find (\<lambda>s. sid s = c) (osections e) = None" "46 \<notin> set c" .
      then show ?thesis
        using that(1) that(2) [of c] Some map_field_known(2) [OF _ c] ok hr by simp
    qed
    show ?thesis
    proof (cases "ocreator_membership e = None \<or> head \<noteq> member_word")
      case True
      then show ?thesis
        using None by (intro header) (auto simp: map_segments_def hr(1) section_in_def split: option.splits)
    next
      case False
      then obtain mid where mid: "ocreator_membership e = Some mid" "head = member_word" by auto
      have same: "map_segments dir ix e (member_word # r) = (case (by_id ix mid, r) of
          (Some membership, name # tail) \<Rightarrow>
            Some (member_word # map_or_same dir (header_fields membership) name # tail)
        | _ \<Rightarrow> None)" if "find (\<lambda>s. section_in dir s = member_word) (osections e) = None" for dir r
        using that mid(1) by (simp add: map_segments_def)
      have none: "find (\<lambda>s. section_in dir s = member_word) (osections e) = None" for dir
        using None no_sid mid(2) by (cases dir) (simp_all add: section_in_def)
      show ?thesis
      proof (cases "by_id ix mid")
        case None
        then show ?thesis using same [OF none] mid(2) by (simp add: hr(1))
      next
        case (Some membership)
        show ?thesis
        proof (cases rest)
          case Nil
          then show ?thesis using same [OF none] mid(2) Some by (simp add: hr(1))
        next
          case (Cons n tail)
          have "entry_ok membership" "meant (header_fields membership) n"
            using meant None mid Some Cons by (auto simp: meant_segments_def hr(1))
          then have "fields_ok (header_fields membership)" by (simp add: entry_ok_def)
          moreover from this have "map_or_same FromWire (header_fields membership)
              (map_or_same ToWire (header_fields membership) n) = n"
            using \<open>meant (header_fields membership) n\<close> by (rule map_or_same_back)
          ultimately show ?thesis
            using same [OF none] mid(2) Some Cons hr map_or_same_dot by simp
        qed
      qed
    qed
  qed
qed

lemma path_back:
  assumes "by_id ix object = Some e" "entry_ok e" "meant_segments ix e (split_on 46 path)"
  shows "path_from_wire ix object (path_to_wire ix object path) = path"
proof -
  have segs: "split_on 46 path \<noteq> []" "\<forall>s \<in> set (split_on 46 path). 46 \<notin> set s"
    using split_on_free by auto
  show ?thesis
    using map_segments_back [OF assms(2) segs assms(3)] assms(1)
    by (auto simp: path_to_wire_def path_from_wire_def map_path_def split_join split: option.splits)
qed

text \<open>
  C34. \<open>pathFromWire\<close> undoes \<open>pathToWire\<close>: the logical path of an error comes back unchanged,
  whatever it points at (a section, a row of it, one of its fields, a member of the creator, a
  field of the header, or anything else), when its segments are meant as names.
\<close>

theorem path_round_trip:
  assumes "by_id ix object = Some e" "entry_ok e" "meant_segments ix e (split_on 46 path)"
  shows "path_from_wire ix object (path_to_wire ix object path) = path"
  by (rule path_back [OF assms])

theorem path_round_trip_witness:
  "path_from_wire (catalog_index_of [product_entry]) (js ''o1'')
     (path_to_wire (catalog_index_of [product_entry]) (js ''o1'') (js ''packing.0.boxCount'')) =
   js ''packing.0.boxCount''"
  by (rule path_round_trip [where e = product_entry]) code_simp+

end
