(* ===== verification/Messages.thy ===== *)
theory Messages
  imports Wire Path
begin

section \<open>Operations, errors and changes on the wire\<close>

text \<open>
  The first half of \<open>model/runtime/mapping.ts\<close>: an operation, an error and a list of changes
  between their logical form (names, \<open>{ kind, name }\<close>) and their wire form (columns, section
  ids, the id of the object). A \<open>Refusal\<close> thrown inside \<open>mapped\<close> is the left of a sum: a name
  outside the catalog, or an input the mapping refuses.
\<close>

record unknown_name =
  uobject :: jstr
  usection :: "jstr option"
  ucolumn :: "jstr option"
  uname :: "jstr option"

datatype refusal = Unknown unknown_name | Invalid command_error

definition unknown_object :: "jstr \<Rightarrow> unknown_name" where
  "unknown_object i = \<lparr>uobject = i, usection = None, ucolumn = None, uname = None\<rparr>"

definition refuse_invalid :: "jstr \<Rightarrow> refusal + 'a" where
  "refuse_invalid path = Inl (Invalid (invalid path))"

definition refuse_object :: "jstr \<Rightarrow> refusal + 'a" where
  "refuse_object i = Inl (Unknown (unknown_object i))"

text \<open>A level: the header, a line of a section or \<open>creatorMember\<close>.\<close>

record level =
  plain :: "(jstr \<times> jstr) list"
  lattributes :: "attribute list"
  lprefix :: jstr
  lobject :: jstr
  lsection :: "jstr option"

definition header_plain :: "entry \<Rightarrow> (jstr \<times> jstr) list" where
  "header_plain e = [(okey_name e, okey e), (oversion_name e, oversion e)]"

definition line_plain :: "tabular_section \<Rightarrow> (jstr \<times> jstr) list" where
  "line_plain s = [(skey_name s, skey s), (sparent_name s, sparent s), (sline_name s, sline s)]"

definition header_level :: "entry \<Rightarrow> level" where
  "header_level e =
     \<lparr>plain = header_plain e, lattributes = oattributes e, lprefix = [], lobject = oid e, lsection = None\<rparr>"

definition line_level :: "entry \<Rightarrow> tabular_section \<Rightarrow> nat \<Rightarrow> level" where
  "line_level e s i =
     \<lparr>plain = line_plain s, lattributes = sattributes s, lprefix = line_path s i @ [46],
      lobject = oid e, lsection = Some (sid s)\<rparr>"

definition member_level :: "entry \<Rightarrow> level" where
  "member_level m =
     \<lparr>plain = header_plain m, lattributes = oattributes m, lprefix = member_word @ [46],
      lobject = oid m, lsection = None\<rparr>"

subsection \<open>To the wire\<close>

definition level_attribute :: "jstr \<Rightarrow> attribute \<Rightarrow> jval \<Rightarrow> refusal + row" where
  "level_attribute prefix a v =
     (case encode_item_value a v (prefix @ aname a) of
        Inl e \<Rightarrow> Inl (Invalid e)
      | Inr w \<Rightarrow>
          (case apair a of
             Some p \<Rightarrow> Inr [(type_column p, object_field w (type_column p)),
                           (acolumn a, object_field w (acolumn a))]
           | None \<Rightarrow> Inr [(acolumn a, w)]))"

definition known_name :: "level \<Rightarrow> jstr \<Rightarrow> bool" where
  "known_name l k \<longleftrightarrow> k \<in> fst ` set (plain l) \<or> k \<in> aname ` set (lattributes l)"

definition level_to_wire :: "level \<Rightarrow> jval \<Rightarrow> jstr \<Rightarrow> refusal + row" where
  "level_to_wire l record path =
     (case record of
        JObj r \<Rightarrow>
          (case find (\<lambda>k. \<not> known_name l k) (map fst r) of
             Some k \<Rightarrow>
               Inl (Unknown \<lparr>uobject = lobject l, usection = lsection l, ucolumn = None, uname = Some k\<rparr>)
           | None \<Rightarrow>
               bindE (copy_fields (map (\<lambda>(n, c). (n, c, Inr)) (plain l)) r []) (\<lambda>out.
                 write_fields (level_attribute (lprefix l)) (lattributes l) r out))
      | _ \<Rightarrow> refuse_invalid path)"

fun lines_to_wire :: "entry \<Rightarrow> tabular_section \<Rightarrow> nat \<Rightarrow> jval list \<Rightarrow> refusal + jval list" where
  "lines_to_wire e s i [] = Inr []"
| "lines_to_wire e s i (l # ls) =
     bindE (if l = JHole then Inr JHole
            else bindE (level_to_wire (line_level e s i) l (line_path s i)) (\<lambda>w. Inr (JObj w))) (\<lambda>w.
     bindE (lines_to_wire e s (i + 1) ls) (\<lambda>ws. Inr (w # ws)))"

fun sections_to_wire :: "entry \<Rightarrow> row \<Rightarrow> row \<Rightarrow> refusal + row" where
  "sections_to_wire e [] out = Inr out"
| "sections_to_wire e ((name, lines) # rest) out =
     (case find (\<lambda>s. sname s = name) (osections e) of
        None \<Rightarrow> Inl (Unknown \<lparr>uobject = oid e, usection = None, ucolumn = None, uname = Some name\<rparr>)
      | Some s \<Rightarrow>
          (case lines of
             JArr ls \<Rightarrow>
               bindE (lines_to_wire e s 0 ls) (\<lambda>ws. sections_to_wire e rest (set_key (sid s) (JArr ws) out))
           | _ \<Rightarrow> refuse_invalid name))"

definition sections_value :: "(row \<Rightarrow> refusal + row) \<Rightarrow> jval \<Rightarrow> refusal + jval" where
  "sections_value f v =
     (case v of
        JObj secs \<Rightarrow> bindE (f secs) (\<lambda>w. Inr (JObj w))
      | _ \<Rightarrow> refuse_invalid sections_key)"

definition membership_of :: "catalog_index \<Rightarrow> entry \<Rightarrow> refusal + entry" where
  "membership_of ix e =
     (case ocreator_membership e of
        None \<Rightarrow> refuse_invalid member_word
      | Some m \<Rightarrow> (case by_id ix m of None \<Rightarrow> refuse_object m | Some x \<Rightarrow> Inr x))"

text \<open>
  An operation over the type of its object: a reference in the logical form, an id on the wire.
  An absent field is \<open>None\<close>. The wire schema leaves \<open>deleteIds\<close> out; the mapping itself keeps
  whatever the operation carries.
\<close>

datatype 'o operation =
    CreateOp 'o "jstr option" "jval option" "jval option" "jval option"
  | UpdateOp 'o jstr int "jval option" "jval option" "(jstr \<times> jstr list) list option"
  | MarkOp 'o jstr int bool
  | DeleteOp 'o jstr int

fun op_object :: "'o operation \<Rightarrow> 'o" where
  "op_object (CreateOp r _ _ _ _) = r"
| "op_object (UpdateOp r _ _ _ _ _) = r"
| "op_object (MarkOp r _ _ _) = r"
| "op_object (DeleteOp r _ _) = r"

text \<open>\<open>if (value !== undefined) out.field = f(value)\<close>\<close>

definition optional :: "('a \<Rightarrow> 'e + 'b) \<Rightarrow> 'a option \<Rightarrow> 'e + 'b option" where
  "optional f v = (case v of None \<Rightarrow> Inr None | Some x \<Rightarrow> bindE (f x) (\<lambda>y. Inr (Some y)))"

text \<open>
  The spread \<open>{ ...op, object }\<close> and the three fields that are translated, in the order of the
  code: \<open>values\<close>, \<open>tabularSections\<close>, \<open>creatorMember\<close>.
\<close>

definition map_operation ::
  "'p \<Rightarrow> (jval \<Rightarrow> refusal + jval) \<Rightarrow> (jval \<Rightarrow> refusal + jval) \<Rightarrow> (jval \<Rightarrow> refusal + jval) \<Rightarrow>
   'o operation \<Rightarrow> refusal + 'p operation"
where
  "map_operation object values sections member op =
     (case op of
        CreateOp _ i vs secs m \<Rightarrow>
          bindE (optional values vs) (\<lambda>vs. bindE (optional sections secs) (\<lambda>secs.
          bindE (optional member m) (\<lambda>m. Inr (CreateOp object i vs secs m))))
      | UpdateOp _ i ver vs secs del \<Rightarrow>
          bindE (optional values vs) (\<lambda>vs. bindE (optional sections secs) (\<lambda>secs.
            Inr (UpdateOp object i ver vs secs del)))
      | MarkOp _ i ver mark \<Rightarrow> Inr (MarkOp object i ver mark)
      | DeleteOp _ i ver \<Rightarrow> Inr (DeleteOp object i ver))"

definition level_value :: "(level \<Rightarrow> jval \<Rightarrow> jstr \<Rightarrow> refusal + row) \<Rightarrow> level \<Rightarrow> jstr \<Rightarrow> jval \<Rightarrow> refusal + jval" where
  "level_value f l path v = bindE (f l v path) (\<lambda>w. Inr (JObj w))"

definition values_path :: jstr where
  "values_path = js ''values''"

definition find_ref :: "catalog_index \<Rightarrow> metadata_ref \<Rightarrow> refusal + entry" where
  "find_ref ix r = (case by_ref ix (ref_key r) of None \<Rightarrow> refuse_object (ref_key r) | Some e \<Rightarrow> Inr e)"

definition find_id :: "catalog_index \<Rightarrow> jstr \<Rightarrow> refusal + entry" where
  "find_id ix i = (case by_id ix i of None \<Rightarrow> refuse_object i | Some e \<Rightarrow> Inr e)"

definition operation_to_wire :: "catalog_index \<Rightarrow> metadata_ref operation \<Rightarrow> refusal + jstr operation" where
  "operation_to_wire ix op =
     bindE (find_ref ix (op_object op)) (\<lambda>e.
       map_operation (oid e)
         (level_value level_to_wire (header_level e) values_path)
         (sections_value (\<lambda>secs. sections_to_wire e secs []))
         (\<lambda>v. bindE (membership_of ix e) (\<lambda>m. level_value level_to_wire (member_level m) member_word v))
         op)"

subsection \<open>From the wire\<close>

definition enum_item :: "attribute \<Rightarrow> jval \<Rightarrow> jstr \<Rightarrow> refusal + jval" where
  "enum_item a v path =
     (if v = JNull then Inr JNull
      else case v of
        JStr s \<Rightarrow>
          (case find (\<lambda>nl. snd nl = s) (case aenum a of None \<Rightarrow> [] | Some vs \<Rightarrow> vs) of
             Some nl \<Rightarrow> Inr (JStr (fst nl))
           | None \<Rightarrow> refuse_invalid path)
      | _ \<Rightarrow> refuse_invalid path)"

fun enum_items :: "attribute \<Rightarrow> jstr \<Rightarrow> nat \<Rightarrow> jval list \<Rightarrow> refusal + jval list" where
  "enum_items a path i [] = Inr []"
| "enum_items a path i (v # vs) =
     bindE (if v = JHole then Inr JHole else enum_item a v (at_index path i)) (\<lambda>w.
     bindE (enum_items a path (i + 1) vs) (\<lambda>ws. Inr (w # ws)))"

definition enum_from_wire :: "attribute \<Rightarrow> jval \<Rightarrow> jstr \<Rightarrow> refusal + jval" where
  "enum_from_wire a v path =
     (if \<not> aarray a then enum_item a v path
      else if v = JNull then Inr JNull
      else case v of
        JArr vs \<Rightarrow> bindE (enum_items a path 0 vs) (\<lambda>ws. Inr (JArr ws))
      | _ \<Rightarrow> refuse_invalid path)"

definition pair_from_wire :: "pair_columns \<Rightarrow> attribute \<Rightarrow> row \<Rightarrow> jstr \<Rightarrow> refusal + jval" where
  "pair_from_wire p a record path =
     (let label = get record (type_column p); i = get record (acolumn a);
          both = own record (type_column p) \<and> own record (acolumn a)
      in if both \<and> label = JNull \<and> i = JNull then Inr JNull
         else case (if both then (case label of JStr l \<Rightarrow> find (\<lambda>t. snd t = l) (targets p) | _ \<Rightarrow> None) else None) of
           None \<Rightarrow> refuse_invalid path
         | Some t \<Rightarrow> Inr (JObj [(js ''type'', JStr (ref_key (fst t))), (js ''id'', i)]))"

definition from_attribute :: "jstr \<Rightarrow> attribute \<Rightarrow> row \<Rightarrow> refusal + jval option" where
  "from_attribute prefix a record =
     (let path = prefix @ aname a
      in bindE
           (case apair a of
              Some p \<Rightarrow> pair_from_wire p a record path
            | None \<Rightarrow>
                if aenum a = None then Inr (get record (acolumn a))
                else enum_from_wire a (get record (acolumn a)) path)
           (\<lambda>v. Inr (Some v)))"

definition known_column :: "level \<Rightarrow> jstr \<Rightarrow> bool" where
  "known_column l k \<longleftrightarrow> k \<in> snd ` set (plain l) \<or> k \<in> set (flat_columns (lattributes l))"

definition level_from_wire :: "level \<Rightarrow> jval \<Rightarrow> jstr \<Rightarrow> refusal + row" where
  "level_from_wire l record path =
     (case record of
        JObj r \<Rightarrow>
          (case find (\<lambda>k. \<not> known_column l k) (map fst r) of
             Some k \<Rightarrow>
               Inl (Unknown \<lparr>uobject = lobject l, usection = lsection l, ucolumn = Some k, uname = None\<rparr>)
           | None \<Rightarrow>
               bindE (copy_fields (map (\<lambda>(n, c). (c, n, Inr)) (plain l)) r []) (\<lambda>out.
                 read_fields (from_attribute (lprefix l)) (lattributes l) r out))
      | _ \<Rightarrow> refuse_invalid path)"

fun lines_from_wire :: "entry \<Rightarrow> tabular_section \<Rightarrow> nat \<Rightarrow> jval list \<Rightarrow> refusal + jval list" where
  "lines_from_wire e s i [] = Inr []"
| "lines_from_wire e s i (l # ls) =
     bindE (if l = JHole then Inr JHole
            else bindE (level_from_wire (line_level e s i) l (line_path s i)) (\<lambda>w. Inr (JObj w))) (\<lambda>w.
     bindE (lines_from_wire e s (i + 1) ls) (\<lambda>ws. Inr (w # ws)))"

fun sections_from_wire :: "entry \<Rightarrow> row \<Rightarrow> row \<Rightarrow> refusal + row" where
  "sections_from_wire e [] out = Inr out"
| "sections_from_wire e ((i, lines) # rest) out =
     (case find (\<lambda>s. sid s = i) (osections e) of
        None \<Rightarrow> Inl (Unknown \<lparr>uobject = oid e, usection = Some i, ucolumn = None, uname = None\<rparr>)
      | Some s \<Rightarrow>
          (case lines of
             JArr ls \<Rightarrow>
               bindE (lines_from_wire e s 0 ls) (\<lambda>ws. sections_from_wire e rest (set_key (sname s) (JArr ws) out))
           | _ \<Rightarrow> refuse_invalid (sname s)))"

definition operation_from_wire :: "catalog_index \<Rightarrow> jstr operation \<Rightarrow> refusal + metadata_ref operation" where
  "operation_from_wire ix wire =
     bindE (find_id ix (op_object wire)) (\<lambda>e.
       map_operation (entry_ref e)
         (level_value level_from_wire (header_level e) values_path)
         (sections_value (\<lambda>secs. sections_from_wire e secs []))
         (\<lambda>v. bindE (membership_of ix e) (\<lambda>m. level_value level_from_wire (member_level m) member_word v))
         wire)"

subsection \<open>One attribute there and back\<close>

text \<open>What the server reads of a value: a \<open>bigint\<close> arrives as text, a pair in one order of its keys.\<close>

definition text_scalar :: "attribute \<Rightarrow> jval \<Rightarrow> jval" where
  "text_scalar a v =
     (case (atype a, v) of (Logical TBigInt, JBig i) \<Rightarrow> JStr (show_int i) | _ \<Rightarrow> v)"

definition sent :: "attribute \<Rightarrow> jval \<Rightarrow> jval" where
  "sent a v =
     (case (apair a, v) of
        (Some _, JObj kvs) \<Rightarrow>
          JObj [(js ''type'', get kvs (js ''type'')), (js ''id'', get kvs (js ''id''))]
      | (Some _, _) \<Rightarrow> v
      | (None, JArr vs) \<Rightarrow> if aarray a then JArr (map (text_scalar a) vs) else text_scalar a v
      | (None, _) \<Rightarrow> text_scalar a v)"

definition label_ok :: "attribute \<Rightarrow> bool" where
  "label_ok a \<longleftrightarrow> attribute_ok a \<and> (aenum a \<noteq> None \<longrightarrow> atype a = Logical TRef)"

lemma scalar_text_same:
  "scalar_text a t s = Some w \<Longrightarrow> aenum a = None \<Longrightarrow> w = JStr s"
  by (auto simp: scalar_text_def split: logical_type.splits)

lemma scalar_sent_plain:
  assumes "scalar a v = Some w" "aenum a = None"
  shows "w = text_scalar a v"
  using assms
  by (cases "atype a"; cases v)
    (auto simp: scalar_def text_scalar_def dest!: scalar_text_same split: if_splits logical_type.splits)

lemma scalar_sent_enum:
  assumes "scalar a v = Some w" "aenum a = Some vs" "label_ok a"
  shows "enum_item a w path = Inr v \<and> text_scalar a v = v"
proof -
  have a: "atype a = Logical TRef" "distinct (map snd vs)" using assms(2,3) by (auto simp: label_ok_def attribute_ok_def)
  show ?thesis
  proof (cases "v = JNull")
    case True
    then show ?thesis using assms(1) a by (simp add: scalar_def enum_item_def text_scalar_def)
  next
    case False
    then obtain s where s: "v = JStr s" "scalar_text a TRef s = Some w"
      using assms(1) a by (cases v) (auto simp: scalar_def split: if_splits)
    then obtain nl where nl: "find (\<lambda>nl. fst nl = s) vs = Some nl" "w = JStr (snd nl)"
      using assms(2) by (auto simp: scalar_text_def)
    then show ?thesis
      using find_SomeD [OF nl(1)] find_label [OF a(2), of "fst nl" "snd nl"] assms(2) s(1) a(1)
      by (cases nl) (simp add: enum_item_def text_scalar_def)
  qed
qed

lemma scalar_null: "scalar a v = Some JNull \<longleftrightarrow> v = JNull"
  by (cases "atype a"; cases v)
    (auto simp: scalar_def scalar_text_def split: if_splits logical_type.splits option.splits)

lemma encode_items_plain:
  "encode_items a path i vs = Inr ws \<Longrightarrow> aenum a = None \<Longrightarrow> ws = map (text_scalar a) vs"
proof (induction a path i vs arbitrary: ws rule: encode_items.induct)
  case (2 a path i v vs)
  then obtain w us where w: "scalar a v = Some w" "encode_items a path (i + 1) vs = Inr us" "ws = w # us" "v \<noteq> JHole"
    by (auto simp: bindE_eq_Inr split: option.splits if_splits)
  show ?case using scalar_sent_plain [OF w(1)] "2.IH" [OF _ w(2)] "2.prems"(2) w by auto
qed simp

lemma encode_items_enum:
  "encode_items a path i vs = Inr ws \<Longrightarrow> aenum a = Some es \<Longrightarrow> label_ok a \<Longrightarrow>
   enum_items a path' i ws = Inr vs \<and> map (text_scalar a) vs = vs"
proof (induction a path i vs arbitrary: ws rule: encode_items.induct)
  case (2 a path i v vs)
  then obtain w us where w: "scalar a v = Some w" "encode_items a path (i + 1) vs = Inr us" "ws = w # us" "v \<noteq> JHole"
    by (auto simp: bindE_eq_Inr split: option.splits if_splits)
  note one = scalar_sent_enum [OF w(1) "2.prems"(2,3), of "at_index path' i"]
  then have "w \<noteq> JHole" by (auto simp: enum_item_def refuse_invalid_def)
  then show ?case using one "2.IH" [OF _ w(2) "2.prems"(2,3)] w by auto
qed simp

lemma level_attribute_columns:
  "level_attribute prefix a v = Inr kvs \<Longrightarrow>
   set (map fst kvs) = set (columns_of a) \<and> length kvs = length (columns_of a)"
  by (auto simp: level_attribute_def columns_of_def split: sum.splits option.splits)

lemma from_attribute_plain:
  assumes "label_ok a" "level_attribute prefix a v = Inr kvs" "apair a = None"
    "\<forall>(k, x) \<in> set kvs. map_of raw k = Some x"
  shows "from_attribute prefix' a raw = Inr (Some (sent a v))"
proof -
  obtain w where w: "encode_item_value a v (prefix @ aname a) = Inr w" "get raw (acolumn a) = w"
    using assms(2,3,4) by (auto simp: level_attribute_def get_def split: sum.splits)
  show ?thesis
  proof (cases "aarray a \<and> v \<noteq> JNull")
    case True
    then obtain vs ws where vs: "v = JArr vs" "encode_items a (prefix @ aname a) 0 vs = Inr ws" "w = JArr ws"
      using w(1) assms(3) by (auto simp: encode_item_value_def bindE_eq_Inr split: if_splits jval.splits)
    show ?thesis
    proof (cases "aenum a")
      case None
      then show ?thesis
        using True vs w(2) encode_items_plain [OF vs(2) None] assms(3) by (simp add: from_attribute_def sent_def Let_def)
    next
      case (Some es)
      then show ?thesis
        using True vs w(2) encode_items_enum [OF vs(2) Some assms(1)] assms(3)
        by (simp add: from_attribute_def enum_from_wire_def sent_def Let_def)
    qed
  next
    case False
    then have s: "scalar a v = Some w"
      using w(1) assms(3) by (auto simp: encode_item_value_def split: if_splits option.splits)
    have sent: "sent a v = text_scalar a v" using False assms(3) by (cases v) (simp_all add: sent_def)
    show ?thesis
    proof (cases "aenum a")
      case None
      then show ?thesis
        using scalar_sent_plain [OF s None] w(2) assms(3) sent by (simp add: from_attribute_def Let_def)
    next
      case (Some es)
      note one = scalar_sent_enum [OF s Some assms(1)]
      have "aarray a \<Longrightarrow> w = JNull" "aarray a \<Longrightarrow> v = JNull" using False s by (auto simp: scalar_def)
      then show ?thesis
        using one w(2) assms(3) Some sent by (auto simp: from_attribute_def enum_from_wire_def Let_def)
    qed
  qed
qed

lemma from_attribute_pair:
  assumes "label_ok a" "level_attribute prefix a v = Inr kvs" "apair a = Some p" "distinct (columns_of a)"
    "\<forall>(k, x) \<in> set kvs. map_of raw k = Some x"
  shows "from_attribute prefix' a raw = Inr (Some (sent a v))"
proof -
  have cols: "acolumn a \<noteq> type_column p" using assms(3,4) by (simp add: columns_of_def)
  obtain w where w: "encode_item_value a v (prefix @ aname a) = Inr w"
    "kvs = [(type_column p, object_field w (type_column p)), (acolumn a, object_field w (acolumn a))]"
    using assms(2,3) by (auto simp: level_attribute_def split: sum.splits)
  obtain label i where pair: "encode_pair a v (prefix @ aname a) = Inr (label, i)"
    "w = JObj (set_keys [(type_column p, label), (acolumn a, i)] [])"
    using w(1) assms(3) by (auto simp: encode_item_value_def bindE_eq_Inr split: if_splits)
  have raw: "map_of raw (type_column p) = Some label" "map_of raw (acolumn a) = Some i"
    using assms(5) w(2) pair(2) cols by (auto simp: object_field_def get_def)
  have "distinct (map snd (targets p))" using assms(1,3) by (simp add: label_ok_def attribute_ok_def)
  from encode_pair_back [OF pair(1) assms(3) this] raw assms(3) show ?thesis
    by (auto simp: from_attribute_def pair_from_wire_def sent_def Let_def own_def get_eq)
qed

interpretation msg: codec "level_attribute prefix" "from_attribute prefix" sent "\<lambda>_ _. True" label_ok for prefix
proof
  fix a v kvs raw
  assume a: "label_ok a" "level_attribute prefix a v = Inr kvs"
  show "set (map fst kvs) = set (columns_of a) \<and> length kvs = length (columns_of a)"
    by (rule level_attribute_columns [OF a(2)])
  assume "distinct (columns_of a)" "\<forall>(k, x) \<in> set kvs. map_of raw k = Some x"
  then show "from_attribute prefix a raw = Inr (Some (sent a v))"
    using a from_attribute_plain from_attribute_pair by (cases "apair a") blast+
qed

subsection \<open>A level there and back\<close>

definition sent_view :: "jstr list \<Rightarrow> attribute list \<Rightarrow> row \<Rightarrow> jstr \<Rightarrow> jval option" where
  "sent_view names attrs r n = (if n \<in> set names then map_of r n else level_view sent attrs r n)"

definition level_good :: "level \<Rightarrow> bool" where
  "level_good l \<longleftrightarrow> level_ok label_ok (map fst (plain l)) (map snd (plain l)) (lattributes l)"

definition plain_field :: "jstr \<times> jstr \<Rightarrow> (refusal, refusal) fixed_field" where
  "plain_field f = \<lparr>fname = fst f, fcolumn = snd f, fenc = Inr, fdec = Inr, fview = id\<rparr>"

lemma plain_fields:
  "map (\<lambda>(n, c). (n, c, Inr)) fs = map (\<lambda>f. (fname f, fcolumn f, fenc f)) (map plain_field fs)"
  "map (\<lambda>(n, c). (c, n, Inr)) fs = map (\<lambda>f. (fcolumn f, fname f, fdec f)) (map plain_field fs)"
  "map fname (map plain_field fs) = map fst fs" "map fcolumn (map plain_field fs) = map snd fs"
  by (auto simp: plain_field_def split: prod.splits)

lemma fields_view_plain:
  "fields_view sent (map plain_field fs) attrs r n = sent_view (map fst fs) attrs r n"
proof -
  have "find (\<lambda>f. fname f = n) (map plain_field fs) = map_option plain_field (find (\<lambda>f. fst f = n) fs)"
    by (induction fs) (auto simp: plain_field_def)
  moreover have "find (\<lambda>f. fst f = n) fs = None \<longleftrightarrow> n \<notin> fst ` set fs" by (induction fs) auto
  ultimately show ?thesis
    by (auto simp: fields_view_def sent_view_def plain_field_def option.map_id dest: find_SomeD split: option.splits)
qed

lemma level_there_back:
  assumes "level_to_wire l (JObj r) path = Inr w" "level_good l"
  shows "\<exists>r'. level_from_wire l (JObj w) path' = Inr r'
    \<and> (\<forall>n. map_of r' n = sent_view (map fst (plain l)) (lattributes l) r n)"
proof -
  let ?fs = "map plain_field (plain l)"
  obtain out where out: "encode_fixed ?fs r [] = Inr out"
    and w: "write_fields (level_attribute (lprefix l)) (lattributes l) r out = Inr w"
    using assms(1) by (auto simp: level_to_wire_def plain_fields(1) bindE_eq_Inr split: option.splits)
  have "level_ok label_ok (map fname ?fs @ []) (map fcolumn ?fs @ []) (lattributes l)"
    using assms(2) by (simp add: level_good_def plain_field_def comp_def)
  moreover have "\<forall>f \<in> set ?fs. field_ok f" by (auto simp: plain_field_def field_ok_def)
  ultimately obtain p r' where r': "decode_fixed ?fs w [] = Inr p"
    "read_fields (from_attribute (lprefix l)) (lattributes l) w p = Inr r'"
    "\<forall>n. map_of r' n = fields_view sent ?fs (lattributes l) r n"
    using msg.whole_level_back [OF out w, where columns = "[]" and names = "[]" and raw = w]
    by (auto simp: level_fits_def)
  have within: "fst ` set kvs \<subseteq> set (columns_of a)" if "level_attribute (lprefix l) a v = Inr kvs" for a v kvs
    using level_attribute_columns [OF that] by simp
  have cols: "fst ` set out \<subseteq> snd ` set (plain l)"
    using copy_fields_keys [OF out] by (simp add: plain_field_def image_image comp_def)
  have "fst ` set w \<subseteq> fst ` set out \<union> set (flat_columns (lattributes l))"
    by (rule write_fields_keys [OF w within])
  then have "known_column l k" if "k \<in> fst ` set w" for k
    unfolding known_column_def using subsetD [OF _ that] subsetD [OF cols, of k] by (meson UnE)
  then have "find (\<lambda>k. \<not> known_column l k) (map fst w) = None" by (auto simp: find_None_iff)
  then show ?thesis
    using r' by (simp add: level_from_wire_def plain_fields(2) fields_view_plain)
qed

subsection \<open>Sections there and back\<close>

definition sent_lines :: "tabular_section \<Rightarrow> jval list \<Rightarrow> jval list \<Rightarrow> bool" where
  "sent_lines s = list_all2 (\<lambda>l l'. l = JHole \<and> l' = JHole \<or>
     (\<exists>r r'. l = JObj r \<and> l' = JObj r' \<and>
       (\<forall>n. map_of r' n = sent_view (map fst (line_plain s)) (sattributes s) r n)))"

definition message_ok :: "entry \<Rightarrow> bool" where
  "message_ok e \<longleftrightarrow>
     level_good (header_level e) \<and> (\<forall>s \<in> set (osections e). level_good (line_level e s 0))
     \<and> distinct (map sname (osections e)) \<and> distinct (map sid (osections e))"

lemma lines_there_back:
  "lines_to_wire e s i ls = Inr ws \<Longrightarrow> level_good (line_level e s 0) \<Longrightarrow>
   \<exists>ls'. lines_from_wire e s i ws = Inr ls' \<and> sent_lines s ls ls'"
proof (induction e s i ls arbitrary: ws rule: lines_to_wire.induct)
  case (2 e s i l ls)
  obtain w us where w: "(if l = JHole then Inr JHole
      else bindE (level_to_wire (line_level e s i) l (line_path s i)) (\<lambda>w. Inr (JObj w))) = Inr w"
    and us: "lines_to_wire e s (i + 1) ls = Inr us" "ws = w # us"
    using "2.prems"(1) by (auto simp: bindE_eq_Inr)
  obtain ls' where ls': "lines_from_wire e s (i + 1) us = Inr ls'" "sent_lines s ls ls'"
    using "2.IH" [OF us(1) "2.prems"(2)] by blast
  show ?case
  proof (cases "l = JHole")
    case True
    then show ?thesis using w us ls' by (auto simp: sent_lines_def)
  next
    case False
    then obtain r w' where r: "l = JObj r" "level_to_wire (line_level e s i) (JObj r) (line_path s i) = Inr w'" "w = JObj w'"
      using w by (cases l) (auto simp: bindE_eq_Inr level_to_wire_def refuse_invalid_def)
    have "level_good (line_level e s i)" using "2.prems"(2) by (simp add: level_good_def line_level_def)
    from level_there_back [OF r(2) this] obtain r' where
      "level_from_wire (line_level e s i) (JObj w') (line_path s i) = Inr r'"
      "\<forall>n. map_of r' n = sent_view (map fst (line_plain s)) (sattributes s) r n"
      by (auto simp: line_level_def)
    then show ?thesis using r us ls' by (auto simp: sent_lines_def)
  qed
qed (simp add: sent_lines_def)

lemma set_key_new: "k \<notin> fst ` set r \<Longrightarrow> set_key k v r = r @ [(k, v)]"
  unfolding set_key_def by (induction r) auto

definition sent_pair :: "(tabular_section \<Rightarrow> jval list \<Rightarrow> jval list \<Rightarrow> bool) \<Rightarrow>
    (tabular_section \<Rightarrow> jstr) \<Rightarrow> (tabular_section \<Rightarrow> jstr) \<Rightarrow> entry \<Rightarrow> jstr \<times> jval \<Rightarrow> jstr \<times> jval \<Rightarrow> bool" where
  "sent_pair lines key key' e p q \<longleftrightarrow>
     (\<exists>s \<in> set (osections e). \<exists>ls ls'. p = (key s, JArr ls) \<and> q = (key' s, JArr ls') \<and> lines s ls ls')"

lemma sent_pairI:
  "s \<in> set (osections e) \<Longrightarrow> lines s ls ls' \<Longrightarrow> sent_pair lines key key' e (key s, JArr ls) (key' s, JArr ls')"
  by (auto simp: sent_pair_def)

lemma sections_to_wire_list:
  assumes "distinct (map sid (osections e))" "distinct (map sname (osections e))"
  shows "sections_to_wire e secs out = Inr w \<Longrightarrow> distinct (map fst secs) \<Longrightarrow>
    \<forall>s \<in> set (osections e). sname s \<in> fst ` set secs \<longrightarrow> sid s \<notin> fst ` set out \<Longrightarrow>
    \<exists>q. w = out @ q \<and> list_all2 (sent_pair (\<lambda>s ls ws. lines_to_wire e s 0 ls = Inr ws) sname sid e) secs q"
proof (induction secs arbitrary: out)
  case (Cons p secs)
  obtain name lines where p: "p = (name, lines)" by (cases p)
  obtain s ls ws where s: "find (\<lambda>s. sname s = name) (osections e) = Some s" "lines = JArr ls"
    "lines_to_wire e s 0 ls = Inr ws" "sections_to_wire e secs (set_key (sid s) (JArr ws) out) = Inr w"
    using Cons.prems(1) by (auto simp: p bindE_eq_Inr refuse_invalid_def split: option.splits jval.splits)
  have in_s: "s \<in> set (osections e)" "sname s = name" using find_SomeD [OF s(1)] by auto
  have new: "set_key (sid s) (JArr ws) out = out @ [(sid s, JArr ws)]"
    using Cons.prems(3) in_s p by (intro set_key_new) auto
  have fresh: "sid t \<notin> fst ` set (out @ [(sid s, JArr ws)])"
    if t: "t \<in> set (osections e)" "sname t \<in> fst ` set secs" for t
  proof -
    have "sname s \<notin> fst ` set secs" using Cons.prems(2) in_s(2) p by simp
    then have "sname t \<noteq> sname s" using t(2) by metis
    then have "sid t \<noteq> sid s" using assms(1) t(1) in_s(1) by (auto simp: distinct_map dest: inj_onD)
    then show ?thesis using Cons.prems(3) t by (auto simp: p)
  qed
  then obtain q where "w = (out @ [(sid s, JArr ws)]) @ q"
    "list_all2 (sent_pair (\<lambda>s ls ws. lines_to_wire e s 0 ls = Inr ws) sname sid e) secs q"
    using Cons.IH [OF s(4) [unfolded new]] Cons.prems(2) by auto
  then show ?case
    using s(2,3) in_s p by (intro exI [of _ "(sid s, JArr ws) # q"]) (auto intro!: sent_pairI)
qed simp

lemma sections_from_wire_list:
  assumes "distinct (map sid (osections e))" "distinct (map sname (osections e))"
    "\<And>s ls ws. s \<in> set (osections e) \<Longrightarrow> rel s ls ws \<Longrightarrow> \<exists>ls'. lines_from_wire e s 0 ws = Inr ls' \<and> rel' s ls ls'"
  shows "list_all2 (sent_pair rel sname sid e) secs q \<Longrightarrow> distinct (map fst secs) \<Longrightarrow>
    fst ` set secs \<inter> fst ` set out = {} \<Longrightarrow>
    \<exists>r. sections_from_wire e q out = Inr (out @ r) \<and> list_all2 (sent_pair rel' sname sname e) secs r"
proof (induction secs q arbitrary: out rule: list_all2_induct)
  case (Cons p secs x q)
  obtain s ls ws where s: "s \<in> set (osections e)" "p = (sname s, JArr ls)" "x = (sid s, JArr ws)" "rel s ls ws"
    using Cons.hyps(1) by (auto simp: sent_pair_def)
  obtain ls' where ls': "lines_from_wire e s 0 ws = Inr ls'" "rel' s ls ls'" using assms(3) s(1,4) by blast
  have "find (\<lambda>t. sid t = sid s) (osections e) = Some s"
    by (rule find_key [OF assms(1) s(1)])
  moreover have "set_key (sname s) (JArr ls') out = out @ [(sname s, JArr ls')]"
    using Cons.prems(2) s(2) by (intro set_key_new) auto
  moreover obtain r where "sections_from_wire e q (out @ [(sname s, JArr ls')]) = Inr ((out @ [(sname s, JArr ls')]) @ r)"
    "list_all2 (sent_pair rel' sname sname e) secs r"
    using Cons.IH [of "out @ [(sname s, JArr ls')]"] Cons.prems s(2) by auto
  ultimately show ?case
    using s ls' by (intro exI [of _ "(sname s, JArr ls') # r"]) (auto intro!: sent_pairI)
qed simp

subsection \<open>An operation there and back\<close>

definition sent_header :: "entry \<Rightarrow> jval \<Rightarrow> jval \<Rightarrow> bool" where
  "sent_header e v v' \<longleftrightarrow>
     (\<exists>r r'. v = JObj r \<and> v' = JObj r' \<and>
       (\<forall>n. map_of r' n = sent_view (map fst (header_plain e)) (oattributes e) r n))"

definition sent_sections :: "entry \<Rightarrow> jval \<Rightarrow> jval \<Rightarrow> bool" where
  "sent_sections e v v' \<longleftrightarrow>
     (\<exists>r r'. v = JObj r \<and> v' = JObj r' \<and> list_all2 (sent_pair sent_lines sname sname e) r r')"

text \<open>The same operation on the object \<open>r\<close>, its values, sections and member related.\<close>

definition operation_rel ::
  "'p \<Rightarrow> (jval \<Rightarrow> jval \<Rightarrow> bool) \<Rightarrow> (jval \<Rightarrow> jval \<Rightarrow> bool) \<Rightarrow> (jval \<Rightarrow> jval \<Rightarrow> bool) \<Rightarrow>
   'o operation \<Rightarrow> 'p operation \<Rightarrow> bool"
where
  "operation_rel r P Q R op op' \<longleftrightarrow>
     (case (op, op') of
        (CreateOp _ i vs secs m, CreateOp r' i' vs' secs' m') \<Rightarrow>
          r' = r \<and> i' = i \<and> rel_option P vs vs' \<and> rel_option Q secs secs' \<and> rel_option R m m'
      | (UpdateOp _ i n vs secs del, UpdateOp r' i' n' vs' secs' del') \<Rightarrow>
          r' = r \<and> i' = i \<and> n' = n \<and> rel_option P vs vs' \<and> rel_option Q secs secs' \<and> del' = del
      | (MarkOp _ i n mark, MarkOp r' i' n' mark') \<Rightarrow> r' = r \<and> i' = i \<and> n' = n \<and> mark' = mark
      | (DeleteOp _ i n, DeleteOp r' i' n') \<Rightarrow> r' = r \<and> i' = i \<and> n' = n
      | _ \<Rightarrow> False)"

text \<open>The same operation, its values as the server reads them.\<close>

definition sent_operation :: "catalog_index \<Rightarrow> entry \<Rightarrow> metadata_ref operation \<Rightarrow> metadata_ref operation \<Rightarrow> bool" where
  "sent_operation ix e op =
     operation_rel (op_object op) (sent_header e) (sent_sections e)
       (\<lambda>v v'. \<exists>x. membership_of ix e = Inr x \<and> sent_header x v v') op"

text \<open>Every object names each section once: the keys of a JavaScript object are distinct.\<close>

fun op_sections :: "'o operation \<Rightarrow> jval option" where
  "op_sections (CreateOp _ _ _ secs _) = secs"
| "op_sections (UpdateOp _ _ _ _ secs _) = secs"
| "op_sections _ = None"

definition keys_distinct :: "jval option \<Rightarrow> bool" where
  "keys_distinct v = (case v of Some (JObj r) \<Rightarrow> distinct (map fst r) | _ \<Rightarrow> True)"

lemma header_there_back:
  assumes "level_value level_to_wire l path v = Inr w" "level_good l" "l = header_level e \<or> l = member_level e"
  shows "\<exists>v'. level_value level_from_wire l path' w = Inr v' \<and> sent_header e v v'"
proof -
  obtain r w' where r: "v = JObj r" "level_to_wire l (JObj r) path = Inr w'" "w = JObj w'"
    using assms(1) by (cases v) (auto simp: level_value_def bindE_eq_Inr level_to_wire_def refuse_invalid_def)
  have l: "plain l = header_plain e" "lattributes l = oattributes e"
    using assms(3) by (auto simp: header_level_def member_level_def)
  obtain r' where "level_from_wire l (JObj w') path' = Inr r'"
    "\<forall>n. map_of r' n = sent_view (map fst (header_plain e)) (oattributes e) r n"
    using level_there_back [OF r(2) assms(2), of path'] l by auto
  then show ?thesis using r by (auto simp: level_value_def sent_header_def)
qed

lemma sections_there_back:
  assumes "sections_value (\<lambda>secs. sections_to_wire e secs []) v = Inr w" "message_ok e" "keys_distinct (Some v)"
  shows "\<exists>v'. sections_value (\<lambda>secs. sections_from_wire e secs []) w = Inr v' \<and> sent_sections e v v'"
proof -
  obtain r w' where r: "v = JObj r" "sections_to_wire e r [] = Inr w'" "w = JObj w'" "distinct (map fst r)"
    using assms(1,3) by (cases v) (auto simp: sections_value_def bindE_eq_Inr refuse_invalid_def keys_distinct_def)
  have e: "distinct (map sid (osections e))" "distinct (map sname (osections e))"
    "\<forall>s \<in> set (osections e). level_good (line_level e s 0)"
    using assms(2) by (simp_all add: message_ok_def)
  have sent: "list_all2 (sent_pair (\<lambda>s ls ws. lines_to_wire e s 0 ls = Inr ws) sname sid e) r w'"
    using sections_to_wire_list [OF e(1,2) r(2,4)] by auto
  have "\<exists>ls'. lines_from_wire e s 0 ws = Inr ls' \<and> sent_lines s ls ls'"
    if "s \<in> set (osections e)" "lines_to_wire e s 0 ls = Inr ws" for s ls ws
    using lines_there_back [OF that(2)] e(3) that(1) by blast
  from sections_from_wire_list [where out = "[]" and rel' = sent_lines, OF e(1,2) this sent r(4)] obtain r' where
    "sections_from_wire e w' [] = Inr r'" "list_all2 (sent_pair sent_lines sname sname e) r r'"
    by auto
  then show ?thesis using r by (auto simp: sections_value_def sent_sections_def)
qed

lemma optional_rel:
  assumes "optional f v = Inr w" "\<And>x y. v = Some x \<Longrightarrow> f x = Inr y \<Longrightarrow> \<exists>z. g y = Inr z \<and> P x z"
  shows "\<exists>v'. optional g w = Inr v' \<and> rel_option P v v'"
proof (cases v)
  case (Some x)
  then obtain y where "f x = Inr y" "w = Some y" using assms(1) by (auto simp: optional_def bindE_eq_Inr)
  then show ?thesis using assms(2) [OF Some] Some by (fastforce simp: optional_def)
qed (use assms(1) in \<open>simp add: optional_def\<close>)

lemma map_operation_rel:
  assumes "map_operation o1 f1 g1 h1 op = Inr w"
    "\<And>x y. f1 x = Inr y \<Longrightarrow> \<exists>z. f2 y = Inr z \<and> P x z"
    "\<And>x y. op_sections op = Some x \<Longrightarrow> g1 x = Inr y \<Longrightarrow> \<exists>z. g2 y = Inr z \<and> Q x z"
    "\<And>x y. h1 x = Inr y \<Longrightarrow> \<exists>z. h2 y = Inr z \<and> R x z"
  shows "op_object w = o1 \<and> (\<exists>op'. map_operation o2 f2 g2 h2 w = Inr op' \<and> operation_rel o2 P Q R op op')"
proof (cases op)
  case (CreateOp r i vs ss m)
  then obtain vs1 ss1 m1 where one: "w = CreateOp o1 i vs1 ss1 m1"
    "optional f1 vs = Inr vs1" "optional g1 ss = Inr ss1" "optional h1 m = Inr m1"
    using assms(1) by (auto simp: map_operation_def bindE_eq_Inr)
  from optional_rel [OF one(2) assms(2)] optional_rel [OF one(3) assms(3)] optional_rel [OF one(4) assms(4)]
  show ?thesis using one(1) CreateOp by (fastforce simp: map_operation_def operation_rel_def)
next
  case (UpdateOp r i n vs ss del)
  then obtain vs1 ss1 where one: "w = UpdateOp o1 i n vs1 ss1 del"
    "optional f1 vs = Inr vs1" "optional g1 ss = Inr ss1"
    using assms(1) by (auto simp: map_operation_def bindE_eq_Inr)
  from optional_rel [OF one(2) assms(2)] optional_rel [OF one(3) assms(3)]
  show ?thesis using one(1) UpdateOp by (fastforce simp: map_operation_def operation_rel_def)
qed (use assms(1) in \<open>auto simp: map_operation_def operation_rel_def\<close>)

text \<open>
  C1. An operation survives the wire: what a client maps to columns and ids, the server maps
  back to the same operation. No value is lost or added, the sections and their lines keep their
  order, and the server refuses none of the columns that the client wrote.
\<close>

theorem operation_there_back:
  fixes objects defines "ix \<equiv> catalog_index_of objects"
  assumes "operation_to_wire ix op = Inr w" "distinct (map oid objects)" "\<forall>e \<in> set objects. message_ok e"
    "keys_distinct (op_sections op)"
  shows "\<exists>e op'. by_ref ix (ref_key (op_object op)) = Some e \<and> operation_from_wire ix w = Inr op'
    \<and> sent_operation ix e op op'"
proof -
  obtain e where e: "by_ref ix (ref_key (op_object op)) = Some e"
    and w: "map_operation (oid e) (level_value level_to_wire (header_level e) values_path)
      (sections_value (\<lambda>secs. sections_to_wire e secs []))
      (\<lambda>v. bindE (membership_of ix e) (\<lambda>m. level_value level_to_wire (member_level m) member_word v)) op = Inr w"
    using assms(2) by (auto simp: operation_to_wire_def find_ref_def refuse_object_def bindE_eq_Inr split: option.splits)
  have obj: "e \<in> set objects" "entry_ref e = op_object op"
    using catalog_index_of_ref [OF e [unfolded ix_def]] ref_key_inj by auto
  then have ok: "message_ok e" and id: "find_id ix (oid e) = Inr e"
    using assms(3,4) catalog_index_of_lookup(1) by (simp_all add: find_id_def ix_def)
  have member: "message_ok m" if "membership_of ix e = Inr m" for m
    using that assms(4) catalog_index_of_id
    by (auto simp: membership_of_def ix_def refuse_invalid_def refuse_object_def split: option.splits)
  have good: "message_ok m \<Longrightarrow> level_good (member_level m)" for m
    by (simp add: message_ok_def level_good_def header_level_def member_level_def)
  have header: "\<exists>z. level_value level_from_wire (header_level e) values_path y = Inr z \<and> sent_header e x z"
    if "level_value level_to_wire (header_level e) values_path x = Inr y" for x y
    using header_there_back [OF that] ok by (simp add: message_ok_def)
  have creator: "\<exists>z. bindE (membership_of ix e) (\<lambda>m. level_value level_from_wire (member_level m) member_word y) = Inr z
      \<and> (\<exists>m. membership_of ix e = Inr m \<and> sent_header m x z)"
    if "bindE (membership_of ix e) (\<lambda>m. level_value level_to_wire (member_level m) member_word x) = Inr y" for x y
    using that header_there_back [of "member_level m" for m] member good by (auto simp: bindE_eq_Inr)
  have secs: "\<exists>z. sections_value (\<lambda>secs. sections_from_wire e secs []) y = Inr z \<and> sent_sections e x z"
    if "op_sections op = Some x" "sections_value (\<lambda>secs. sections_to_wire e secs []) x = Inr y" for x y
    using sections_there_back [OF that(2) ok] assms(5) that(1) by simp
  from map_operation_rel [OF w header secs creator, where ?o2.0 = "entry_ref e"]
  show ?thesis using e id obj(2) by (auto simp: operation_from_wire_def sent_operation_def)
qed

definition product_operation :: "metadata_ref operation" where
  "product_operation =
     UpdateOp \<lparr>ref_kind = Catalog, ref_name = js ''Product''\<rparr> (js ''41'') 7
       (Some (JObj [(js ''marks'', JArr [JNull]), (js ''rowVersion'', JNum (Dec 7 0))]))
       (Some (JObj [(js ''packing'', JArr [JObj [(js ''boxCount'', JNull)]])])) None"

lemma operation_there_back_witness:
  "\<exists>e op'. by_ref (catalog_index_of [product_entry]) (ref_key (op_object product_operation)) = Some e
    \<and> operation_from_wire (catalog_index_of [product_entry])
        (UpdateOp (js ''o1'') (js ''41'') 7
          (Some (JObj [(js ''row_version'', JNum (Dec 7 0)), (js ''mark_list'', JArr [JNull])]))
          (Some (JObj [(js ''s1'', JArr [JObj [(js ''box_count'', JNull)]])])) None) = Inr op'
    \<and> sent_operation (catalog_index_of [product_entry]) e product_operation op'"
  by (rule operation_there_back) (code_simp, code_simp, code_simp, code_simp)

subsection \<open>Errors\<close>

text \<open>
  A command error on the wire: the id of its object beside the rest of the error, in which the
  object is left out.
\<close>

type_synonym wire_command_error = "jstr option \<times> command_error"

definition map_paths :: "(jstr \<Rightarrow> jstr) \<Rightarrow> command_error \<Rightarrow> command_error" where
  "map_paths f err =
     err\<lparr>epath := map_option f (epath err), eattributes := map_option (map f) (eattributes err)\<rparr>"

definition error_to_wire :: "catalog_index \<Rightarrow> command_error \<Rightarrow> wire_command_error" where
  "error_to_wire ix err =
     (let e = (case eobject err of None \<Rightarrow> None | Some r \<Rightarrow> by_ref ix (ref_key r));
          f = (\<lambda>p. case e of None \<Rightarrow> p | Some x \<Rightarrow> path_to_wire ix (oid x) p)
      in (map_option oid e, (map_paths f err)\<lparr>eobject := None\<rparr>))"

definition error_from_wire :: "catalog_index \<Rightarrow> wire_command_error \<Rightarrow> command_error" where
  "error_from_wire ix w =
     (let e = (case fst w of None \<Rightarrow> None | Some i \<Rightarrow> by_id ix i);
          f = (\<lambda>p. case e of None \<Rightarrow> p | Some x \<Rightarrow> path_from_wire ix (oid x) p)
      in (map_paths f (snd w))\<lparr>eobject := map_option entry_ref e\<rparr>)"

definition error_paths :: "command_error \<Rightarrow> jstr set" where
  "error_paths err =
     (case epath err of None \<Rightarrow> {} | Some p \<Rightarrow> {p})
     \<union> (case eattributes err of None \<Rightarrow> {} | Some ps \<Rightarrow> set ps)"

lemma map_paths_back:
  assumes "\<forall>p \<in> error_paths err. g (f p) = p"
  shows "map_paths g (map_paths f err) = err"
proof -
  have "map_option g (map_option f (epath err)) = epath err"
    using assms by (cases "epath err") (simp_all add: error_paths_def)
  moreover have "map_option (map g) (map_option (map f) (eattributes err)) = eattributes err"
    using assms by (cases "eattributes err") (simp_all add: error_paths_def map_idI)
  ultimately show ?thesis by (simp add: map_paths_def)
qed

lemma map_paths_object: "map_paths f (err\<lparr>eobject := x\<rparr>) = (map_paths f err)\<lparr>eobject := x\<rparr>"
  by (simp add: map_paths_def)

text \<open>
  C40. An error reaches the client as the server meant it: code, reason, versions and hashes
  unchanged, the object and the paths through ids and columns and back.
\<close>

theorem error_there_back:
  fixes objects defines "ix \<equiv> catalog_index_of objects"
  assumes "distinct (map oid objects)" "eobject err = None \<or>
    (\<exists>e. by_ref ix (ref_key (the (eobject err))) = Some e \<and> entry_ok e
      \<and> (\<forall>p \<in> error_paths err. meant_segments ix e (split_on 46 p)))"
  shows "error_from_wire ix (error_to_wire ix err) = err"
proof (cases "eobject err")
  case None
  then have "err\<lparr>eobject := None\<rparr> = err" by (cases err) simp
  moreover have "map_paths (\<lambda>p. p) x = x" for x :: command_error
    by (simp add: map_paths_def option.map_ident)
  ultimately show ?thesis
    using None by (simp add: error_to_wire_def error_from_wire_def)
next
  case (Some r)
  then obtain e where e: "by_ref ix (ref_key r) = Some e" "entry_ok e"
    "\<forall>p \<in> error_paths err. meant_segments ix e (split_on 46 p)"
    using assms(3) by auto
  have obj: "e \<in> set objects" "entry_ref e = r"
    using catalog_index_of_ref [OF e(1) [unfolded ix_def]] ref_key_inj by auto
  then have id: "by_id ix (oid e) = Some e"
    using assms(2) catalog_index_of_lookup(1) by (simp add: ix_def)
  have "map_paths (path_from_wire ix (oid e)) (map_paths (path_to_wire ix (oid e)) err) = err"
    using e(3) path_back [OF id e(2)] by (intro map_paths_back) blast
  then show ?thesis
    using Some e(1) id obj(2) by (simp add: error_to_wire_def error_from_wire_def map_paths_object Let_def)
qed

lemma error_there_back_witness:
  "error_from_wire (catalog_index_of [product_entry]) (error_to_wire (catalog_index_of [product_entry])
     ((invalid (js ''packing.0.boxCount''))\<lparr>eobject := Some \<lparr>ref_kind = Catalog, ref_name = js ''Product''\<rparr>\<rparr>)) =
   (invalid (js ''packing.0.boxCount''))\<lparr>eobject := Some \<lparr>ref_kind = Catalog, ref_name = js ''Product''\<rparr>\<rparr>"
proof (rule error_there_back)
  let ?err = "(invalid (js ''packing.0.boxCount''))\<lparr>eobject := Some \<lparr>ref_kind = Catalog, ref_name = js ''Product''\<rparr>\<rparr>"
  have "by_ref (catalog_index_of [product_entry]) (ref_key (the (eobject ?err))) = Some product_entry"
    "entry_ok product_entry"
    "meant_segments (catalog_index_of [product_entry]) product_entry (split_on 46 (js ''packing.0.boxCount''))"
    by code_simp+
  moreover have "error_paths ?err = {js ''packing.0.boxCount''}"
    by (simp add: error_paths_def invalid_def error_of_def)
  ultimately show "eobject ?err = None \<or>
    (\<exists>e. by_ref (catalog_index_of [product_entry]) (ref_key (the (eobject ?err))) = Some e \<and> entry_ok e
      \<and> (\<forall>p \<in> error_paths ?err. meant_segments (catalog_index_of [product_entry]) e (split_on 46 p)))"
    by auto
qed simp

subsection \<open>Changes\<close>

record 'o change =
  chobject :: 'o
  chscope_kind :: "jstr option"
  chscope :: "jstr option"
  chid :: jstr
  chversion :: int
  choperation :: object_operation

definition with_object :: "'o change \<Rightarrow> 'p \<Rightarrow> 'p change" where
  "with_object c x =
     \<lparr>chobject = x, chscope_kind = chscope_kind c, chscope = chscope c, chid = chid c,
      chversion = chversion c, choperation = choperation c\<rparr>"

definition changes_to_wire :: "catalog_index \<Rightarrow> metadata_ref change list \<Rightarrow> refusal + jstr change list" where
  "changes_to_wire ix = mapE (\<lambda>c. bindE (find_ref ix (chobject c)) (\<lambda>e. Inr (with_object c (oid e))))"

definition changes_from_wire :: "catalog_index \<Rightarrow> jstr change list \<Rightarrow> refusal + metadata_ref change list" where
  "changes_from_wire ix = mapE (\<lambda>c. bindE (find_id ix (chobject c)) (\<lambda>e. Inr (with_object c (entry_ref e))))"

lemma find_ref_id:
  assumes "find_ref (catalog_index_of objects) r = Inr e" "distinct (map oid objects)"
  shows "find_id (catalog_index_of objects) (oid e) = Inr e \<and> entry_ref e = r \<and> e \<in> set objects"
proof -
  have "by_ref (catalog_index_of objects) (ref_key r) = Some e"
    using assms(1) by (auto simp: find_ref_def refuse_object_def split: option.splits)
  from catalog_index_of_ref [OF this] show ?thesis
    using catalog_index_of_lookup(1) [OF assms(2)] ref_key_inj by (auto simp: find_id_def)
qed

lemma with_object_back [simp]: "with_object (with_object c x) (chobject c) = c"
  by (simp add: with_object_def)

lemma chobject_with [simp]: "chobject (with_object c x) = x"
  by (simp add: with_object_def)

text \<open>
  The changes of a command come back in their order with the same objects.
\<close>

theorem changes_there_back:
  assumes "changes_to_wire (catalog_index_of objects) cs = Inr ws" "distinct (map oid objects)"
  shows "changes_from_wire (catalog_index_of objects) ws = Inr cs"
  using assms(1)
proof (induction cs arbitrary: ws)
  case (Cons c cs)
  then obtain e ws' where "find_ref (catalog_index_of objects) (chobject c) = Inr e"
    "changes_to_wire (catalog_index_of objects) cs = Inr ws'" "ws = with_object c (oid e) # ws'"
    by (auto simp: changes_to_wire_def bindE_eq_Inr)
  then show ?case
    using Cons.IH find_ref_id [OF _ assms(2)] by (auto simp: changes_from_wire_def)
qed (simp add: changes_to_wire_def changes_from_wire_def)

lemma changes_there_back_witness:
  "changes_from_wire (catalog_index_of [product_entry])
     [\<lparr>chobject = js ''o1'', chscope_kind = None, chscope = None, chid = js ''41'', chversion = 8, choperation = Update\<rparr>] =
   Inr [\<lparr>chobject = \<lparr>ref_kind = Catalog, ref_name = js ''Product''\<rparr>, chscope_kind = None, chscope = None,
     chid = js ''41'', chversion = 8, choperation = Update\<rparr>]"
  by (rule changes_there_back) code_simp+

end
