(* ===== verification/Queries.thy ===== *)
theory Queries
  imports Messages
begin

section \<open>Read queries and their results on the wire\<close>

text \<open>
  The second half of \<open>model/runtime/mapping.ts\<close>: a read query and its result between the logical
  form and the wire form. Both directions of a query run the same walk (\<open>readQueryMap\<close>) over a
  \<open>ReadWay\<close>, a record of functions here as in the code.
\<close>

subsection \<open>Filters and queries\<close>

datatype filter_operator =
  OpEq | OpNe | OpLt | OpLte | OpGt | OpGte | OpIn | OpIsNull | OpContains | OpStartsWith

text \<open>A condition without a value has the value \<open>JUndef\<close>.\<close>

datatype read_filter =
    FAnd "read_filter list"
  | FOr "read_filter list"
  | FNot read_filter
  | FCond jstr filter_operator jval

datatype wanted_sections = AllSections | SectionList "jstr list"

text \<open>\<open>asc\<close> or \<open>desc\<close>, and where nulls go.\<close>

record order_item =
  oiattribute :: jstr
  oidescending :: bool
  oinulls_first :: "bool option"

record 'o read_query =
  qobject :: 'o
  qsection :: "jstr option"
  qsections :: "wanted_sections option"
  qwhere :: "read_filter option"
  qorder :: "order_item list option"
  qinclude :: "jstr list option"
  qid :: "jstr option"
  qowner :: "jstr option"
  qlimit :: "int option"
  qoffset :: "int option"
  qcount :: bool

subsection \<open>Targets\<close>

record read_column =
  cname :: jstr
  ccolumn :: jstr
  cattribute :: "attribute option"
  cversion :: bool

record read_target =
  tcolumns :: "read_column list"
  tobject :: jstr
  tsection :: "jstr option"

definition plain_column :: "jstr \<times> jstr \<Rightarrow> read_column" where
  "plain_column f = \<lparr>cname = fst f, ccolumn = snd f, cattribute = None, cversion = False\<rparr>"

definition attribute_columns :: "attribute list \<Rightarrow> read_column list" where
  "attribute_columns =
     map (\<lambda>a. \<lparr>cname = aname a, ccolumn = acolumn a, cattribute = Some a, cversion = False\<rparr>)"

definition object_target :: "entry \<Rightarrow> read_target" where
  "object_target e =
     \<lparr>tcolumns =
        [plain_column (okey_name e, okey e),
         \<lparr>cname = oversion_name e, ccolumn = oversion e, cattribute = None, cversion = True\<rparr>]
        @ attribute_columns (oattributes e),
      tobject = oid e, tsection = None\<rparr>"

definition section_target :: "entry \<Rightarrow> tabular_section \<Rightarrow> read_target" where
  "section_target e s =
     \<lparr>tcolumns = map plain_column (line_plain s) @ attribute_columns (sattributes s),
      tobject = oid e, tsection = Some (sid s)\<rparr>"

subsection \<open>The two ways\<close>

record ('i, 'o) read_way =
  rw_entry :: "catalog_index \<Rightarrow> 'i \<Rightarrow> refusal + entry"
  rw_object :: "entry \<Rightarrow> 'o"
  rw_section :: "entry \<Rightarrow> jstr \<Rightarrow> refusal + tabular_section"
  rw_section_out :: "tabular_section \<Rightarrow> jstr"
  rw_column :: "read_target \<Rightarrow> jstr \<Rightarrow> refusal + read_column"
  rw_column_out :: "read_column \<Rightarrow> jstr"
  rw_value :: "read_column \<Rightarrow> jval \<Rightarrow> jstr \<Rightarrow> refusal + jval"

definition or_unknown :: "unknown_name \<Rightarrow> 'a option \<Rightarrow> refusal + 'a" where
  "or_unknown u v = (case v of None \<Rightarrow> Inl (Unknown u) | Some x \<Rightarrow> Inr x)"

definition or_invalid :: "jstr \<Rightarrow> 'a option \<Rightarrow> refusal + 'a" where
  "or_invalid path v = (case v of None \<Rightarrow> refuse_invalid path | Some x \<Rightarrow> Inr x)"

definition value_to_wire :: "read_column \<Rightarrow> jval \<Rightarrow> jstr \<Rightarrow> refusal + jval" where
  "value_to_wire c v path =
     (if cversion c then
        (case v of
           JNum n \<Rightarrow> if safe_integer n then Inr (JStr (show_int (the (num_int n)))) else refuse_invalid path
         | _ \<Rightarrow> refuse_invalid path)
      else case cattribute c of
        None \<Rightarrow> Inr v
      | Some a \<Rightarrow>
          (if apair a \<noteq> None then
             (case encode_pair a v path of
                Inl _ \<Rightarrow> refuse_invalid path
              | Inr (label, i) \<Rightarrow> Inr (JObj [(js ''type'', label), (js ''id'', i)]))
           else case aenum a of
             Some vs \<Rightarrow>
               or_invalid path (case v of
                 JStr s \<Rightarrow> map_option (\<lambda>nl. JStr (snd nl)) (find (\<lambda>nl. fst nl = s) vs)
               | _ \<Rightarrow> None)
           | None \<Rightarrow>
               Inr (case v of JBig i \<Rightarrow> if atype a = Logical TBigInt then JStr (show_int i) else v | _ \<Rightarrow> v)))"

definition value_from_wire :: "read_column \<Rightarrow> jval \<Rightarrow> jstr \<Rightarrow> refusal + jval" where
  "value_from_wire c v path =
     (if cversion c then
        (case v of
           JStr s \<Rightarrow>
             if integer_text s \<and> safe_integer (Dec (int_of_text s) 0) then Inr (JNum (Dec (int_of_text s) 0))
             else refuse_invalid path
         | _ \<Rightarrow> refuse_invalid path)
      else case cattribute c of
        None \<Rightarrow> Inr v
      | Some a \<Rightarrow>
          (case apair a of
             Some p \<Rightarrow>
               (case v of
                  JObj kvs \<Rightarrow>
                    if length kvs \<noteq> 2 \<or> \<not> own kvs (js ''type'') \<or> \<not> own kvs (js ''id'') then refuse_invalid path
                    else or_invalid path (case get kvs (js ''type'') of
                      JStr l \<Rightarrow>
                        map_option (\<lambda>t. JObj [(js ''type'', JStr (ref_key (fst t))), (js ''id'', get kvs (js ''id''))])
                          (find (\<lambda>t. snd t = l) (targets p))
                    | _ \<Rightarrow> None)
                | _ \<Rightarrow> refuse_invalid path)
           | None \<Rightarrow>
               (case aenum a of
                  Some vs \<Rightarrow>
                    or_invalid path (case v of
                      JStr s \<Rightarrow> map_option (\<lambda>nl. JStr (fst nl)) (find (\<lambda>nl. snd nl = s) vs)
                    | _ \<Rightarrow> None)
                | None \<Rightarrow> Inr v)))"

definition to_wire :: "(metadata_ref, jstr) read_way" where
  "to_wire =
     \<lparr>rw_entry = find_ref,
      rw_object = oid,
      rw_section = (\<lambda>e name. or_unknown
        \<lparr>uobject = oid e, usection = None, ucolumn = None, uname = Some name\<rparr>
        (find (\<lambda>s. sname s = name) (osections e))),
      rw_section_out = sid,
      rw_column = (\<lambda>t name. or_unknown
        \<lparr>uobject = tobject t, usection = tsection t, ucolumn = None, uname = Some name\<rparr>
        (find (\<lambda>c. cname c = name) (tcolumns t))),
      rw_column_out = ccolumn,
      rw_value = value_to_wire\<rparr>"

definition from_wire :: "(jstr, metadata_ref) read_way" where
  "from_wire =
     \<lparr>rw_entry = find_id,
      rw_object = entry_ref,
      rw_section = (\<lambda>e i. or_unknown
        \<lparr>uobject = oid e, usection = Some i, ucolumn = None, uname = None\<rparr>
        (find (\<lambda>s. sid s = i) (osections e))),
      rw_section_out = sname,
      rw_column = (\<lambda>t column. or_unknown
        \<lparr>uobject = tobject t, usection = tsection t, ucolumn = Some column, uname = None\<rparr>
        (find (\<lambda>c. ccolumn c = column) (tcolumns t))),
      rw_column_out = cname,
      rw_value = value_from_wire\<rparr>"

subsection \<open>The walk\<close>

definition map_one :: "('i, 'o) read_way \<Rightarrow> read_column \<Rightarrow> jval \<Rightarrow> jstr \<Rightarrow> refusal + jval" where
  "map_one way c v path = (if v = JNull then Inr JNull else rw_value way c v path)"

fun map_values :: "('i, 'o) read_way \<Rightarrow> read_column \<Rightarrow> jstr \<Rightarrow> nat \<Rightarrow> jval list \<Rightarrow> refusal + jval list" where
  "map_values way c path i [] = Inr []"
| "map_values way c path i (v # vs) =
     bindE (if v = JHole then Inr JHole else map_one way c v (at_index path i)) (\<lambda>w.
     bindE (map_values way c path (i + 1) vs) (\<lambda>ws. Inr (w # ws)))"

definition condition_value :: "('i, 'o) read_way \<Rightarrow> read_column \<Rightarrow> filter_operator \<Rightarrow> jval \<Rightarrow> jstr \<Rightarrow> refusal + jval" where
  "condition_value way c operator v path =
     (if v = JUndef then Inr JUndef
      else case (operator, v) of
        (OpIn, JArr vs) \<Rightarrow> bindE (map_values way c path 0 vs) (\<lambda>ws. Inr (JArr ws))
      | _ \<Rightarrow> map_one way c v path)"

definition condition_map :: "('i, 'o) read_way \<Rightarrow> read_target \<Rightarrow> jstr \<Rightarrow> filter_operator \<Rightarrow> jval \<Rightarrow> jstr \<Rightarrow> refusal + read_filter" where
  "condition_map way t name operator v path =
     bindE (rw_column way t name) (\<lambda>c.
     bindE (condition_value way c operator v (path @ js ''.value'')) (\<lambda>w.
       Inr (FCond (rw_column_out way c) operator w)))"

fun filter_map :: "('i, 'o) read_way \<Rightarrow> read_target \<Rightarrow> jstr \<Rightarrow> read_filter \<Rightarrow> refusal + read_filter"
  and filter_maps :: "('i, 'o) read_way \<Rightarrow> read_target \<Rightarrow> jstr \<Rightarrow> nat \<Rightarrow> read_filter list \<Rightarrow> refusal + read_filter list"
where
  "filter_map way t path (FNot f) = bindE (filter_map way t (path @ js ''.not'') f) (\<lambda>g. Inr (FNot g))"
| "filter_map way t path (FAnd fs) = bindE (filter_maps way t (path @ js ''.and'') 0 fs) (\<lambda>gs. Inr (FAnd gs))"
| "filter_map way t path (FOr fs) = bindE (filter_maps way t (path @ js ''.or'') 0 fs) (\<lambda>gs. Inr (FOr gs))"
| "filter_map way t path (FCond name operator v) = condition_map way t name operator v path"
| "filter_maps way t path i [] = Inr []"
| "filter_maps way t path i (f # fs) =
     bindE (filter_map way t (at_index path i) f) (\<lambda>g.
     bindE (filter_maps way t path (i + 1) fs) (\<lambda>gs. Inr (g # gs)))"

definition query_target :: "('i, 'o) read_way \<Rightarrow> entry \<Rightarrow> jstr option \<Rightarrow> refusal + jstr option \<times> read_target" where
  "query_target way e sec =
     (case sec of
        None \<Rightarrow> Inr (None, object_target e)
      | Some k \<Rightarrow>
          bindE (rw_section way e k) (\<lambda>s. Inr (Some (rw_section_out way s), section_target e s)))"

definition map_sections :: "('i, 'o) read_way \<Rightarrow> entry \<Rightarrow> wanted_sections \<Rightarrow> refusal + wanted_sections" where
  "map_sections way e w =
     (case w of
        AllSections \<Rightarrow> Inr AllSections
      | SectionList ks \<Rightarrow>
          bindE (mapE (\<lambda>k. bindE (rw_section way e k) (\<lambda>s. Inr (rw_section_out way s))) ks)
            (\<lambda>ks. Inr (SectionList ks)))"

definition map_order :: "('i, 'o) read_way \<Rightarrow> read_target \<Rightarrow> order_item list \<Rightarrow> refusal + order_item list" where
  "map_order way t =
     mapE (\<lambda>i. bindE (rw_column way t (oiattribute i)) (\<lambda>c. Inr (i\<lparr>oiattribute := rw_column_out way c\<rparr>)))"

definition map_include :: "('i, 'o) read_way \<Rightarrow> read_target \<Rightarrow> jstr list \<Rightarrow> refusal + jstr list" where
  "map_include way t = mapE (\<lambda>k. bindE (rw_column way t k) (\<lambda>c. Inr (rw_column_out way c)))"

definition where_path :: jstr where
  "where_path = js ''where''"

definition read_query_map :: "('i, 'o) read_way \<Rightarrow> catalog_index \<Rightarrow> 'i read_query \<Rightarrow> refusal + 'o read_query" where
  "read_query_map way ix q =
     bindE (rw_entry way ix (qobject q)) (\<lambda>e.
     bindE (query_target way e (qsection q)) (\<lambda>(sec, t).
     bindE (optional (map_sections way e) (qsections q)) (\<lambda>secs.
     bindE (optional (filter_map way t where_path) (qwhere q)) (\<lambda>flt.
     bindE (optional (map_order way t) (qorder q)) (\<lambda>order.
     bindE (optional (map_include way (object_target e)) (qinclude q)) (\<lambda>incl.
       Inr \<lparr>qobject = rw_object way e, qsection = sec, qsections = secs, qwhere = flt, qorder = order,
         qinclude = incl, qid = qid q, qowner = qowner q, qlimit = qlimit q, qoffset = qoffset q,
         qcount = qcount q\<rparr>))))))"

definition read_query_to_wire :: "catalog_index \<Rightarrow> metadata_ref read_query \<Rightarrow> refusal + jstr read_query" where
  "read_query_to_wire = read_query_map to_wire"

definition read_query_from_wire :: "catalog_index \<Rightarrow> jstr read_query \<Rightarrow> refusal + metadata_ref read_query" where
  "read_query_from_wire = read_query_map from_wire"

subsection \<open>The contract of two opposite ways\<close>

text \<open>The form of a value that the walk looks at: \<open>null\<close>, \<open>undefined\<close>, a hole, an array.\<close>

definition value_shape :: "jval \<Rightarrow> nat" where
  "value_shape v = (case v of JNull \<Rightarrow> 0 | JUndef \<Rightarrow> 1 | JHole \<Rightarrow> 2 | JArr _ \<Rightarrow> 3 | _ \<Rightarrow> 4)"

lemma value_shape_eq [simp]:
  "value_shape v = value_shape JNull \<longleftrightarrow> v = JNull" "value_shape v = value_shape JUndef \<longleftrightarrow> v = JUndef"
  "value_shape v = value_shape JHole \<longleftrightarrow> v = JHole"
  by (auto simp: value_shape_def split: jval.splits)

definition canon_one :: "(read_column \<Rightarrow> jval \<Rightarrow> jval) \<Rightarrow> read_column \<Rightarrow> jval \<Rightarrow> jval" where
  "canon_one cf c v = (if v = JNull then v else cf c v)"

definition canon_condition :: "(read_column \<Rightarrow> jval \<Rightarrow> jval) \<Rightarrow> read_column \<Rightarrow> filter_operator \<Rightarrow> jval \<Rightarrow> jval" where
  "canon_condition cf c operator v =
     (if v = JUndef then v
      else case (operator, v) of
        (OpIn, JArr vs) \<Rightarrow> JArr (map (canon_one cf c) vs)
      | _ \<Rightarrow> canon_one cf c v)"

fun canon_filter :: "('i, 'o) read_way \<Rightarrow> (read_column \<Rightarrow> jval \<Rightarrow> jval) \<Rightarrow> read_target \<Rightarrow> read_filter \<Rightarrow> read_filter" where
  "canon_filter way cf t (FNot f) = FNot (canon_filter way cf t f)"
| "canon_filter way cf t (FAnd fs) = FAnd (map (canon_filter way cf t) fs)"
| "canon_filter way cf t (FOr fs) = FOr (map (canon_filter way cf t) fs)"
| "canon_filter way cf t (FCond name operator v) =
     FCond name operator (case rw_column way t name of Inr c \<Rightarrow> canon_condition cf c operator v | Inl _ \<Rightarrow> v)"

definition canon_query ::
  "('i, 'o) read_way \<Rightarrow> (read_column \<Rightarrow> jval \<Rightarrow> jval) \<Rightarrow> catalog_index \<Rightarrow> 'i read_query \<Rightarrow> 'i read_query"
where
  "canon_query way cf ix q =
     (case bindE (rw_entry way ix (qobject q)) (\<lambda>e. query_target way e (qsection q)) of
        Inr (_, t) \<Rightarrow> q\<lparr>qwhere := map_option (canon_filter way cf t) (qwhere q)\<rparr>
      | Inl _ \<Rightarrow> q)"

locale opposite_ways =
  fixes there :: "('i, 'o) read_way" and again :: "('o, 'i) read_way"
    and canon :: "read_column \<Rightarrow> jval \<Rightarrow> jval"
    and ok_target :: "read_target \<Rightarrow> bool" and ok_entry :: "entry \<Rightarrow> bool" and ok_index :: "catalog_index \<Rightarrow> bool"
  assumes entry_back: "ok_index ix \<Longrightarrow> rw_entry there ix k = Inr e \<Longrightarrow>
      rw_entry again ix (rw_object there e) = Inr e \<and> rw_object again e = k \<and> ok_entry e"
    and section_back: "ok_entry e \<Longrightarrow> rw_section there e name = Inr s \<Longrightarrow>
      rw_section again e (rw_section_out there s) = Inr s \<and> rw_section_out again s = name \<and> ok_target (section_target e s)"
    and object_ok: "ok_entry e \<Longrightarrow> ok_target (object_target e)"
    and column_back: "ok_target t \<Longrightarrow> rw_column there t name = Inr c \<Longrightarrow>
      rw_column again t (rw_column_out there c) = Inr c \<and> rw_column_out again c = name \<and> c \<in> set (tcolumns t)"
    and value_back: "ok_target t \<Longrightarrow> c \<in> set (tcolumns t) \<Longrightarrow> v \<noteq> JNull \<Longrightarrow> rw_value there c v path = Inr w \<Longrightarrow>
      rw_value again c w path' = Inr (canon c v) \<and> value_shape w = value_shape v"
    and hole_back: "canon c JHole = JHole"
begin

lemma one_back:
  assumes "ok_target t" "c \<in> set (tcolumns t)" "map_one there c v path = Inr w"
  shows "map_one again c w path' = Inr (canon_one canon c v)" "value_shape w = value_shape v"
proof -
  show "value_shape w = value_shape v"
    using assms(3) value_back [OF assms(1,2)] by (auto simp: map_one_def split: if_splits)
  then have "w = JNull \<longleftrightarrow> v = JNull" by (metis value_shape_eq(1))
  then show "map_one again c w path' = Inr (canon_one canon c v)"
    using assms(3) value_back [OF assms(1,2)] by (auto simp: map_one_def canon_one_def)
qed

lemma values_back:
  "map_values there c path i vs = Inr ws \<Longrightarrow> ok_target t \<Longrightarrow> c \<in> set (tcolumns t) \<Longrightarrow>
   map_values again c path' i ws = Inr (map (canon_one canon c) vs)"
proof (induction vs arbitrary: i ws)
  case (Cons v vs)
  obtain w us where w: "(if v = JHole then Inr JHole else map_one there c v (at_index path i)) = Inr w"
    "map_values there c path (i + 1) vs = Inr us" "ws = w # us"
    using Cons.prems(1) by (auto simp: bindE_eq_Inr)
  note tail = Cons.IH [OF w(2) Cons.prems(2,3)]
  show ?case
  proof (cases "v = JHole")
    case False
    then have "map_one there c v (at_index path i) = Inr w" using w(1) by simp
    note one = one_back [OF Cons.prems(2,3) this]
    have "w \<noteq> JHole" using one(2) False by (metis value_shape_eq(3))
    then show ?thesis using one(1) tail w(3) by simp
  qed (use w tail in \<open>auto simp: canon_one_def hole_back\<close>)
qed simp

lemma condition_back:
  assumes "condition_value there c operator v path = Inr w" "ok_target t" "c \<in> set (tcolumns t)"
  shows "condition_value again c operator w path' = Inr (canon_condition canon c operator v)"
proof (cases "v = JUndef \<or> (operator = OpIn \<and> value_shape v = 3)")
  case True
  then show ?thesis
    using assms(1) values_back [OF _ assms(2,3)]
    by (auto simp: condition_value_def canon_condition_def bindE_eq_Inr value_shape_def split: jval.splits)
next
  case False
  then have one: "map_one there c v path = Inr w"
    using assms(1) by (cases operator; cases v) (auto simp: condition_value_def value_shape_def)
  note again = one_back [OF assms(2,3) one]
  have w: "w \<noteq> JUndef" "\<not> (operator = OpIn \<and> value_shape w = 3)"
    using again(2) False by (metis value_shape_eq(2))+
  then have "condition_value again c operator w path' = map_one again c w path'"
    by (cases operator; cases w) (auto simp: condition_value_def value_shape_def)
  moreover have "canon_condition canon c operator v = canon_one canon c v"
    using False by (cases operator; cases v) (auto simp: canon_condition_def value_shape_def)
  ultimately show ?thesis using again(1) by simp
qed

lemma filters_back:
  assumes "\<And>f path g path'. f \<in> set fs \<Longrightarrow> filter_map there t path f = Inr g \<Longrightarrow>
      filter_map again t path' g = Inr (canon_filter there canon t f)"
  shows "filter_maps there t path i fs = Inr gs \<Longrightarrow>
    filter_maps again t path' i gs = Inr (map (canon_filter there canon t) fs)"
  using assms by (induction fs arbitrary: i gs) (auto simp: bindE_eq_Inr)

lemma filter_back:
  assumes "ok_target t"
  shows "filter_map there t path f = Inr g \<Longrightarrow> filter_map again t path' g = Inr (canon_filter there canon t f)"
proof (induction f arbitrary: path path' g rule: read_filter.induct)
  case (FCond name operator v)
  then obtain c w where c: "rw_column there t name = Inr c"
    "condition_value there c operator v (path @ js ''.value'') = Inr w" "g = FCond (rw_column_out there c) operator w"
    by (auto simp: condition_map_def bindE_eq_Inr)
  note col = column_back [OF assms c(1)]
  show ?case
    using condition_back [OF c(2) assms] col c(1,3) by (simp add: condition_map_def)
qed (auto simp: bindE_eq_Inr intro!: filters_back)

lemma optional_back:
  assumes "optional f v = Inr w" "\<And>x y. v = Some x \<Longrightarrow> f x = Inr y \<Longrightarrow> g y = Inr (h x)"
  shows "optional g w = Inr (map_option h v)"
  using assms by (cases v) (auto simp: optional_def bindE_eq_Inr)

lemma include_back:
  "ok_target t \<Longrightarrow> map_include there t ks = Inr cs \<Longrightarrow> map_include again t cs = Inr ks"
  unfolding map_include_def using column_back [of t] by (induction ks arbitrary: cs) (auto simp: bindE_eq_Inr)

lemma order_back:
  "ok_target t \<Longrightarrow> map_order there t os = Inr ps \<Longrightarrow> map_order again t ps = Inr os"
  unfolding map_order_def using column_back [of t] by (induction os arbitrary: ps) (auto simp: bindE_eq_Inr)

lemma sections_list_back:
  "ok_entry e \<Longrightarrow> map_sections there e w = Inr w' \<Longrightarrow> map_sections again e w' = Inr w"
proof (cases w)
  case (SectionList ks)
  assume a: "ok_entry e" "map_sections there e w = Inr w'"
  have "mapE (\<lambda>k. bindE (rw_section there e k) (\<lambda>s. Inr (rw_section_out there s))) ks = Inr ls \<Longrightarrow>
    mapE (\<lambda>k. bindE (rw_section again e k) (\<lambda>s. Inr (rw_section_out again s))) ls = Inr ks" for ls
    using section_back [OF a(1)] by (induction ks arbitrary: ls) (auto simp: bindE_eq_Inr)
  then show ?thesis using a(2) SectionList by (auto simp: map_sections_def bindE_eq_Inr)
qed (simp add: map_sections_def)

lemma query_back:
  assumes "read_query_map there ix q = Inr w" "ok_index ix"
  shows "read_query_map again ix w = Inr (canon_query there canon ix q)"
proof -
  obtain e sec t secs flt order incl where e: "rw_entry there ix (qobject q) = Inr e"
    and t: "query_target there e (qsection q) = Inr (sec, t)"
    and secs: "optional (map_sections there e) (qsections q) = Inr secs"
    and flt: "optional (filter_map there t where_path) (qwhere q) = Inr flt"
    and order: "optional (map_order there t) (qorder q) = Inr order"
    and incl: "optional (map_include there (object_target e)) (qinclude q) = Inr incl"
    and w: "w = \<lparr>qobject = rw_object there e, qsection = sec, qsections = secs, qwhere = flt, qorder = order,
         qinclude = incl, qid = qid q, qowner = qowner q, qlimit = qlimit q, qoffset = qoffset q,
         qcount = qcount q\<rparr>"
    using assms(1) by (auto simp: read_query_map_def bindE_eq_Inr)
  note entry = entry_back [OF assms(2) e]
  then have ok: "ok_entry e" by blast
  have target: "query_target again e sec = Inr (qsection q, t) \<and> ok_target t"
    using t object_ok [OF ok] section_back [OF ok]
    by (auto simp: query_target_def bindE_eq_Inr split: option.splits)
  have "optional (map_sections again e) secs = Inr (qsections q)"
    using optional_back [OF secs, of "map_sections again e" "\<lambda>x. x"] sections_list_back [OF ok] by (simp add: option.map_ident)
  moreover have "optional (filter_map again t where_path) flt = Inr (map_option (canon_filter there canon t) (qwhere q))"
    using optional_back [OF flt] filter_back target by blast
  moreover have "optional (map_order again t) order = Inr (qorder q)"
    using optional_back [OF order, of "map_order again t" "\<lambda>x. x"] order_back target by (simp add: option.map_ident)
  moreover have "optional (map_include again (object_target e)) incl = Inr (qinclude q)"
    using optional_back [OF incl, of "map_include again (object_target e)" "\<lambda>x. x"] include_back object_ok [OF ok]
    by (simp add: option.map_ident)
  ultimately show ?thesis
    using entry target e t by (simp add: read_query_map_def w canon_query_def)
qed

end

subsection \<open>The two ways of the code are opposite\<close>

definition target_ok :: "read_target \<Rightarrow> bool" where
  "target_ok t \<longleftrightarrow>
     distinct (map cname (tcolumns t)) \<and> distinct (map ccolumn (tcolumns t))
     \<and> (\<forall>c \<in> set (tcolumns t). case cattribute c of None \<Rightarrow> True | Some a \<Rightarrow> attribute_ok a)"

definition index_ok :: "catalog_index \<Rightarrow> bool" where
  "index_ok ix \<longleftrightarrow>
     (\<exists>objects. ix = catalog_index_of objects \<and> distinct (map oid objects) \<and> (\<forall>e \<in> set objects. message_ok e))"

text \<open>The value of a condition as the server reads it.\<close>

definition sent_value :: "read_column \<Rightarrow> jval \<Rightarrow> jval" where
  "sent_value c v =
     (if cversion c then integer_view v
      else case cattribute c of
        None \<Rightarrow> v
      | Some a \<Rightarrow>
          (if apair a \<noteq> None then
             (case v of
                JObj kvs \<Rightarrow> JObj [(js ''type'', get kvs (js ''type'')), (js ''id'', get kvs (js ''id''))]
              | _ \<Rightarrow> v)
           else if aenum a \<noteq> None then v else text_scalar a v))"

lemma distinct_acolumn:
  "distinct (flat_columns attrs) \<Longrightarrow> distinct (map acolumn attrs)"
  "set (map acolumn attrs) \<subseteq> set (flat_columns attrs)"
  by (induction attrs) (auto simp: flat_columns_def columns_of_def split: option.splits)

lemma level_target_ok:
  assumes "level_ok label_ok names columns attrs" "map cname plains = names" "map ccolumn plains = columns"
    "\<forall>c \<in> set plains. cattribute c = None" "tcolumns t = plains @ attribute_columns attrs"
  shows "target_ok t"
proof -
  have names: "map cname (tcolumns t) = names @ map aname attrs"
    "map ccolumn (tcolumns t) = columns @ map acolumn attrs"
    using assms(2,3,5) by (simp_all add: attribute_columns_def comp_def)
  have "distinct (columns @ map acolumn attrs)"
    using assms(1) distinct_acolumn [of attrs] by (auto simp: level_ok_def)
  moreover have "\<forall>c \<in> set (tcolumns t). case cattribute c of None \<Rightarrow> True | Some a \<Rightarrow> attribute_ok a"
    using assms(1,4,5) by (auto simp: attribute_columns_def level_ok_def label_ok_def)
  ultimately show ?thesis using assms(1) names by (simp add: target_ok_def level_ok_def)
qed

lemma targets_ok:
  assumes "message_ok e"
  shows "target_ok (object_target e)" "s \<in> set (osections e) \<Longrightarrow> target_ok (section_target e s)"
proof -
  have "level_ok label_ok [okey_name e, oversion_name e] [okey e, oversion e] (oattributes e)"
    using assms by (simp add: message_ok_def level_good_def header_level_def header_plain_def)
  then show "target_ok (object_target e)"
    by (rule level_target_ok [where plains = "[plain_column (okey_name e, okey e),
        \<lparr>cname = oversion_name e, ccolumn = oversion e, cattribute = None, cversion = True\<rparr>]"])
      (simp_all add: plain_column_def object_target_def)
  assume "s \<in> set (osections e)"
  then have "level_ok label_ok (map fst (line_plain s)) (map snd (line_plain s)) (sattributes s)"
    using assms by (simp add: message_ok_def level_good_def line_level_def)
  then show "target_ok (section_target e s)"
    by (rule level_target_ok [where plains = "map plain_column (line_plain s)"])
      (auto simp: plain_column_def section_target_def)
qed

lemma version_value_back:
  assumes "cversion c" "value_to_wire c v path = Inr w"
  shows "value_from_wire c w path' = Inr (sent_value c v) \<and> value_shape w = value_shape v"
  using assms
  by (auto simp: value_to_wire_def value_from_wire_def sent_value_def integer_view_def refuse_invalid_def
      integer_text_show_int safe_integer_def value_shape_def split: jval.splits if_splits option.splits)

lemma pair_value_back:
  assumes "value_to_wire c v path = Inr w" "\<not> cversion c" "cattribute c = Some a" "apair a = Some p"
    "attribute_ok a" "v \<noteq> JNull"
  shows "value_from_wire c w path' = Inr (sent_value c v) \<and> value_shape w = value_shape v"
proof -
  obtain label i where pair: "encode_pair a v path = Inr (label, i)"
    "w = JObj [(js ''type'', label), (js ''id'', i)]"
    using assms(1-4) by (auto simp: value_to_wire_def refuse_invalid_def split: sum.splits)
  have "distinct (map snd (targets p))" using assms(4,5) by (simp add: attribute_ok_def)
  from encode_pair_back [OF pair(1) assms(4) this] obtain kvs l j t where
    "v = JObj kvs" "label = JStr l" "i = JStr j" "get kvs (js ''id'') = JStr j"
    "find (\<lambda>t. snd t = l) (targets p) = Some t" "get kvs (js ''type'') = JStr (ref_key (fst t))"
    using assms(6) by auto
  then show ?thesis
    using pair(2) assms(2-4)
    by (simp add: value_from_wire_def sent_value_def own_def get_def or_invalid_def value_shape_def)
qed

lemma enum_value_back:
  assumes "value_to_wire c v path = Inr w" "\<not> cversion c" "cattribute c = Some a" "apair a = None"
    "aenum a = Some vs" "attribute_ok a"
  shows "value_from_wire c w path' = Inr (sent_value c v) \<and> value_shape w = value_shape v"
proof -
  obtain s nl where s: "v = JStr s" "find (\<lambda>nl. fst nl = s) vs = Some nl" "w = JStr (snd nl)"
    using assms(1-5) by (auto simp: value_to_wire_def or_invalid_def refuse_invalid_def split: jval.splits option.splits)
  moreover have "distinct (map snd vs)" using assms(5,6) by (simp add: attribute_ok_def)
  ultimately show ?thesis
    using find_SomeD [OF s(2)] find_label [of vs "fst nl" "snd nl"] assms(2-5)
    by (cases nl) (simp add: value_from_wire_def sent_value_def or_invalid_def value_shape_def)
qed

lemma way_value_back:
  assumes "target_ok t" "c \<in> set (tcolumns t)" "v \<noteq> JNull" "value_to_wire c v path = Inr w"
  shows "value_from_wire c w path' = Inr (sent_value c v) \<and> value_shape w = value_shape v"
proof (cases "cversion c")
  case True
  then show ?thesis using assms(4) by (rule version_value_back)
next
  case False
  show ?thesis
  proof (cases "cattribute c")
    case None
    then show ?thesis using False assms(4) by (simp add: value_to_wire_def value_from_wire_def sent_value_def)
  next
    case (Some a)
    then have a: "attribute_ok a" using assms(1,2) by (fastforce simp: target_ok_def)
    show ?thesis
    proof (cases "apair a")
      case None
      then show ?thesis
        using assms(4) False Some enum_value_back [OF assms(4) False Some None _ a]
        by (cases "aenum a")
          (auto simp: value_to_wire_def value_from_wire_def sent_value_def text_scalar_def value_shape_def
            split: jval.splits attribute_type.splits logical_type.splits)
    qed (rule pair_value_back [OF assms(4) False Some _ a assms(3)])
  qed
qed

interpretation query: opposite_ways to_wire from_wire sent_value target_ok message_ok index_ok
proof
  fix ix k e
  assume "index_ok ix" "rw_entry to_wire ix k = Inr e"
  then show "rw_entry from_wire ix (rw_object to_wire e) = Inr e \<and> rw_object from_wire e = k \<and> message_ok e"
    by (auto simp: to_wire_def from_wire_def index_ok_def dest!: find_ref_id)
next
  fix e name s
  assume e: "message_ok e" "rw_section to_wire e name = Inr s"
  then have s: "s \<in> set (osections e)" "sname s = name"
    by (auto simp: to_wire_def or_unknown_def split: option.splits dest!: find_SomeD)
  moreover have "find (\<lambda>t. sid t = sid s) (osections e) = Some s"
    using e(1) s(1) by (intro find_key) (simp_all add: message_ok_def)
  ultimately show "rw_section from_wire e (rw_section_out to_wire s) = Inr s
      \<and> rw_section_out from_wire s = name \<and> target_ok (section_target e s)"
    using targets_ok(2) [OF e(1)] by (simp add: to_wire_def from_wire_def or_unknown_def)
next
  fix t name c
  assume t: "target_ok t" "rw_column to_wire t name = Inr c"
  then have c: "c \<in> set (tcolumns t)" "cname c = name"
    by (auto simp: to_wire_def or_unknown_def split: option.splits dest!: find_SomeD)
  moreover have "find (\<lambda>d. ccolumn d = ccolumn c) (tcolumns t) = Some c"
    using t(1) c(1) by (intro find_key) (simp_all add: target_ok_def)
  ultimately show "rw_column from_wire t (rw_column_out to_wire c) = Inr c
      \<and> rw_column_out from_wire c = name \<and> c \<in> set (tcolumns t)"
    by (simp add: to_wire_def from_wire_def or_unknown_def)
qed (auto simp: to_wire_def from_wire_def targets_ok(1) way_value_back sent_value_def text_scalar_def
    integer_view_def split: option.splits attribute_type.splits logical_type.splits)

text \<open>
  C18. A read query survives the wire: the server reads the query the client wrote, the filter
  tree with its operators and the order of its children, the sort order and the included names
  unchanged, the values of the conditions in the form the server expects.
\<close>

theorem read_query_there_back:
  assumes "read_query_to_wire ix q = Inr w" "index_ok ix"
  shows "read_query_from_wire ix w = Inr (canon_query to_wire sent_value ix q)"
  using query.query_back assms unfolding read_query_to_wire_def read_query_from_wire_def by blast

definition product_query :: "metadata_ref read_query" where
  "product_query =
     \<lparr>qobject = \<lparr>ref_kind = Catalog, ref_name = js ''Product''\<rparr>, qsection = None, qsections = None,
      qwhere = Some (FAnd [FCond (js ''rowVersion'') OpGt (JNum (Dec 3 0)), FNot (FCond (js ''owner'') OpIsNull JUndef)]),
      qorder = Some [\<lparr>oiattribute = js ''price'', oidescending = True, oinulls_first = None\<rparr>],
      qinclude = None, qid = None, qowner = None, qlimit = Some 20, qoffset = None, qcount = False\<rparr>"

lemma product_index_ok: "index_ok (catalog_index_of [product_entry])"
proof -
  have "message_ok product_entry" by code_simp
  then show ?thesis unfolding index_ok_def by (intro exI [of _ "[product_entry]"]) simp
qed

lemma read_query_there_back_witness:
  "read_query_from_wire (catalog_index_of [product_entry])
     (projr (read_query_to_wire (catalog_index_of [product_entry]) product_query)) =
   Inr (canon_query to_wire sent_value (catalog_index_of [product_entry]) product_query)"
  by (rule read_query_there_back [OF _ product_index_ok]) code_simp

subsection \<open>Results\<close>

datatype read_result =
    ResultRows "row list" "(jstr \<times> row list) list option" "jsnum option"
  | ResultCount int bool

text \<open>The wire form of a result; its rows are whatever the source sent.\<close>

datatype wire_result =
    WireRows "jval list" "(jstr \<times> jval list) list option" "jval option"
  | WireCount int bool

definition result_target ::
  "catalog_index \<Rightarrow> metadata_ref read_query \<Rightarrow> (jstr \<Rightarrow> wire_error) \<Rightarrow> wire_error + entry \<times> tabular_section option"
where
  "result_target ix q fail =
     (case by_ref ix (ref_key (qobject q)) of
        None \<Rightarrow> Inl (fail (js ''object''))
      | Some e \<Rightarrow>
          (case qsection q of
             None \<Rightarrow> Inr (e, None)
           | Some name \<Rightarrow>
               (case find (\<lambda>s. sname s = name) (osections e) of
                  None \<Rightarrow> Inl (fail (js ''tabularSection''))
                | Some s \<Rightarrow> Inr (e, Some s))))"

text \<open>\<open>card.tabularSections[key]!\<close>\<close>

definition card_lines :: "row \<Rightarrow> jstr \<Rightarrow> jval list" where
  "card_lines r key =
     (case object_field (get r sections_key) key of JArr ls \<Rightarrow> ls | _ \<Rightarrow> [])"

definition one_section :: "jstr \<Rightarrow> jval list \<Rightarrow> row" where
  "one_section key ls = [(sections_key, JObj [(key, JArr ls)])]"

definition encode_section_rows :: "entry \<Rightarrow> tabular_section \<Rightarrow> row list \<Rightarrow> wire_error + jval list" where
  "encode_section_rows e s rows =
     bindE (encode_row e (one_section (sname s) (map JObj rows))) (\<lambda>card. Inr (card_lines card (sid s)))"

definition row_of :: "jval \<Rightarrow> row" where
  "row_of v = (case v of JObj r \<Rightarrow> r | _ \<Rightarrow> [])"

definition decode_section_rows :: "entry \<Rightarrow> tabular_section \<Rightarrow> jval list \<Rightarrow> wire_error + row list" where
  "decode_section_rows e s rows =
     bindE (decode_row e (JObj (one_section (sid s) rows))) (\<lambda>card. Inr (map row_of (card_lines card (sname s))))"

definition encode_rows :: "entry \<Rightarrow> row list \<Rightarrow> wire_error + jval list" where
  "encode_rows e = mapE (\<lambda>r. bindE (encode_row e r) (\<lambda>w. Inr (JObj w)))"

definition decode_rows :: "entry \<Rightarrow> jval list \<Rightarrow> wire_error + row list" where
  "decode_rows e = mapE (decode_row e)"

fun encode_included ::
  "catalog_index \<Rightarrow> (jstr \<times> row list) list \<Rightarrow> (jstr \<times> jval list) list \<Rightarrow> wire_error + (jstr \<times> jval list) list"
where
  "encode_included ix [] out = Inr out"
| "encode_included ix ((key, rows) # rest) out =
     (case by_ref ix key of
        None \<Rightarrow> Inl (EncodeError (js ''included.'' @ key))
      | Some t \<Rightarrow>
          bindE (encode_rows t rows) (\<lambda>ws. encode_included ix rest (AList.update (oid t) ws out)))"

fun decode_included ::
  "catalog_index \<Rightarrow> (jstr \<times> jval list) list \<Rightarrow> (jstr \<times> row list) list \<Rightarrow> wire_error + (jstr \<times> row list) list"
where
  "decode_included ix [] out = Inr out"
| "decode_included ix ((i, rows) # rest) out =
     (case by_id ix i of
        None \<Rightarrow> decode_included ix rest out
      | Some t \<Rightarrow>
          bindE (decode_rows t rows) (\<lambda>rs.
            decode_included ix rest (AList.update (ref_key (entry_ref t)) rs out)))"

definition owner_version_path :: jstr where
  "owner_version_path = js ''ownerVersion''"

definition read_result_to_wire ::
  "catalog_index \<Rightarrow> metadata_ref read_query \<Rightarrow> read_result \<Rightarrow> wire_error + wire_result"
where
  "read_result_to_wire ix q result =
     (case result of
        ResultCount n capped \<Rightarrow> Inr (WireCount n capped)
      | ResultRows rows incl ver \<Rightarrow>
          bindE (result_target ix q EncodeError) (\<lambda>(e, sec).
          bindE (case sec of None \<Rightarrow> encode_rows e rows | Some s \<Rightarrow> encode_section_rows e s rows) (\<lambda>ws.
          bindE (optional (\<lambda>m. encode_included ix m []) incl) (\<lambda>wincl.
          bindE (optional (\<lambda>n. encode_integer owner_version_path (JNum n)) ver) (\<lambda>wver.
            Inr (WireRows ws wincl wver))))))"

definition read_result_from_wire ::
  "catalog_index \<Rightarrow> metadata_ref read_query \<Rightarrow> wire_result \<Rightarrow> wire_error + read_result"
where
  "read_result_from_wire ix q wire =
     (case wire of
        WireCount n capped \<Rightarrow> Inr (ResultCount n capped)
      | WireRows ws wincl wver \<Rightarrow>
          bindE (result_target ix q DecodeError) (\<lambda>(e, sec).
          bindE (case sec of None \<Rightarrow> decode_rows e ws | Some s \<Rightarrow> decode_section_rows e s ws) (\<lambda>rows.
          bindE (optional (\<lambda>m. decode_included ix m []) wincl) (\<lambda>incl.
          bindE (optional (decode_integer owner_version_path) wver) (\<lambda>ver.
            Inr (ResultRows rows incl (map_option (\<lambda>v. case v of JNum n \<Rightarrow> n | _ \<Rightarrow> NaN) ver)))))))"

lemma rows_back:
  "encode_rows e rs = Inr ws \<Longrightarrow> wire_ok e \<Longrightarrow> \<forall>r \<in> set rs. row_moments e r \<Longrightarrow>
   \<exists>rs'. decode_rows e ws = Inr rs' \<and> list_all2 (row_match e) rs rs'"
proof (induction rs arbitrary: ws)
  case (Cons r rs)
  then obtain w us where w: "encode_row e r = Inr w" "encode_rows e rs = Inr us" "ws = JObj w # us"
    by (auto simp: encode_rows_def bindE_eq_Inr)
  from row_back [OF w(1) Cons.prems(2)] Cons.IH [OF w(2) Cons.prems(2)] Cons.prems(3) w(3)
  show ?case by (fastforce simp: decode_rows_def)
qed (simp add: encode_rows_def decode_rows_def)

lemma AList_update_new: "k \<notin> fst ` set r \<Longrightarrow> AList.update k v r = r @ [(k, v)]"
  by (induction r) auto

definition included_match :: "catalog_index \<Rightarrow> jstr \<times> row list \<Rightarrow> jstr \<times> row list \<Rightarrow> bool" where
  "included_match ix p p' \<longleftrightarrow>
     fst p' = fst p \<and> (\<exists>t. by_ref ix (fst p) = Some t \<and> list_all2 (row_match t) (snd p) (snd p'))"

definition included_sent :: "catalog_index \<Rightarrow> jstr \<times> row list \<Rightarrow> jstr \<times> jval list \<Rightarrow> bool" where
  "included_sent ix p w \<longleftrightarrow>
     (\<exists>t. by_ref ix (fst p) = Some t \<and> fst w = oid t \<and> encode_rows t (snd p) = Inr (snd w))"

lemma same_id:
  assumes "distinct (map oid objects)" "by_ref (catalog_index_of objects) k = Some t"
    "by_ref (catalog_index_of objects) k' = Some t'" "oid t = oid t'"
  shows "k = k'"
proof -
  have "t = t'"
    using catalog_index_of_ref [OF assms(2)] catalog_index_of_ref [OF assms(3)] assms(1,4)
    by (auto simp: distinct_map dest: inj_onD)
  then show ?thesis using catalog_index_of_ref [OF assms(2)] catalog_index_of_ref [OF assms(3)] by simp
qed

lemma encode_included_list:
  fixes objects defines "ix \<equiv> catalog_index_of objects"
  assumes "distinct (map oid objects)"
  shows "encode_included ix incl out = Inr w \<Longrightarrow> distinct (map fst incl) \<Longrightarrow>
    \<forall>p \<in> set incl. \<forall>t. by_ref ix (fst p) = Some t \<longrightarrow> oid t \<notin> fst ` set out \<Longrightarrow>
    \<exists>q. w = out @ q \<and> list_all2 (included_sent ix) incl q"
proof (induction incl arbitrary: out)
  case (Cons p incl)
  obtain key rows where p: "p = (key, rows)" by (cases p)
  obtain t ws where t: "by_ref ix key = Some t" "encode_rows t rows = Inr ws"
    "encode_included ix incl (AList.update (oid t) ws out) = Inr w"
    using Cons.prems(1) by (auto simp: p bindE_eq_Inr split: option.splits)
  have new: "AList.update (oid t) ws out = out @ [(oid t, ws)]"
    using Cons.prems(3) t(1) p by (intro AList_update_new) auto
  have fresh: "oid u \<notin> fst ` set (out @ [(oid t, ws)])"
    if "x \<in> set incl" "by_ref ix (fst x) = Some u" for x u
  proof -
    have "key \<notin> fst ` set incl" using Cons.prems(2) p by simp
    then have "key \<noteq> fst x" using that(1) by blast
    then have "oid u \<noteq> oid t" using same_id [OF assms(2), of "fst x" u key t] that(2) t(1) by (auto simp: ix_def)
    then show ?thesis using Cons.prems(3) that by auto
  qed
  then obtain q where "w = (out @ [(oid t, ws)]) @ q" "list_all2 (included_sent ix) incl q"
    using Cons.IH [OF t(3) [unfolded new]] Cons.prems(2) by auto
  then show ?case
    using t(1,2) p by (intro exI [of _ "(oid t, ws) # q"]) (simp add: included_sent_def [of _ "(key, rows)"])
qed simp

lemma decode_included_list:
  fixes objects defines "ix \<equiv> catalog_index_of objects"
  assumes "distinct (map oid objects)" "\<forall>e \<in> set objects. wire_ok e"
  shows "list_all2 (included_sent ix) incl q \<Longrightarrow> distinct (map fst incl) \<Longrightarrow>
    fst ` set incl \<inter> fst ` set out = {} \<Longrightarrow>
    \<forall>p \<in> set incl. \<forall>t. by_ref ix (fst p) = Some t \<longrightarrow> (\<forall>r \<in> set (snd p). row_moments t r) \<Longrightarrow>
    \<exists>r. decode_included ix q out = Inr (out @ r) \<and> list_all2 (included_match ix) incl r"
proof (induction incl q arbitrary: out rule: list_all2_induct)
  case (Cons p incl x q)
  obtain t where t: "by_ref ix (fst p) = Some t" "fst x = oid t" "encode_rows t (snd p) = Inr (snd x)"
    using Cons.hyps(1) by (auto simp: included_sent_def)
  note obj = catalog_index_of_ref [OF t(1) [unfolded ix_def]]
  then have id: "by_id ix (oid t) = Some t" using catalog_index_of_lookup(1) [OF assms(2)] by (simp add: ix_def)
  obtain rs where rs: "decode_rows t (snd x) = Inr rs" "list_all2 (row_match t) (snd p) rs"
    using rows_back [OF t(3)] assms(3) obj Cons.prems(3) t(1) by auto
  have new: "AList.update (fst p) rs out = out @ [(fst p, rs)]"
    using Cons.prems(2) by (intro AList_update_new) auto
  have "fst p \<notin> fst ` set incl" using Cons.prems(1) by simp
  then obtain r where "decode_included ix q (out @ [(fst p, rs)]) = Inr ((out @ [(fst p, rs)]) @ r)"
    "list_all2 (included_match ix) incl r"
    using Cons.IH [of "out @ [(fst p, rs)]"] Cons.prems by auto
  then show ?case
    using t rs obj id new
    by (cases x) (auto simp: included_match_def [of _ _ "(_, _)"] intro!: exI [of _ "(fst p, rs) # r"])
qed simp

definition result_match ::
  "catalog_index \<Rightarrow> entry \<Rightarrow> tabular_section option \<Rightarrow> read_result \<Rightarrow> read_result \<Rightarrow> bool"
where
  "result_match ix e sec res res' \<longleftrightarrow>
     (case (res, res') of
        (ResultRows rows incl ver, ResultRows rows' incl' ver') \<Rightarrow>
          (case sec of
             None \<Rightarrow> list_all2 (row_match e) rows rows'
           | Some s \<Rightarrow> (\<exists>ls. rows' = map row_of ls \<and> lines_match s (map JObj rows) ls))
          \<and> rel_option (list_all2 (included_match ix)) incl incl'
          \<and> ver' = map_option (\<lambda>n. Dec (the (num_int n)) 0) ver
      | (ResultCount n capped, ResultCount n' capped') \<Rightarrow> n' = n \<and> capped' = capped
      | _ \<Rightarrow> False)"

definition result_moments :: "catalog_index \<Rightarrow> entry \<Rightarrow> tabular_section option \<Rightarrow> read_result \<Rightarrow> bool" where
  "result_moments ix e sec res \<longleftrightarrow>
     (case res of
        ResultRows rows incl ver \<Rightarrow>
          (case sec of
             None \<Rightarrow> (\<forall>r \<in> set rows. row_moments e r)
           | Some s \<Rightarrow> (\<forall>r \<in> set rows. level_fits moments_ok (sattributes s) r))
          \<and> (case incl of
               None \<Rightarrow> True
             | Some m \<Rightarrow> distinct (map fst m) \<and>
                 (\<forall>p \<in> set m. \<forall>t. by_ref ix (fst p) = Some t \<longrightarrow> (\<forall>r \<in> set (snd p). row_moments t r)))
      | ResultCount _ _ \<Rightarrow> True)"

lemma encode_one_section:
  "distinct (map sname ss) \<Longrightarrow> encode_sections ss [(sname s, JArr ls)] out =
   (if s \<in> set ss then bindE (encode_lines s 0 ls) (\<lambda>ws. Inr (set_key (sid s) (JArr ws) out))
    else if sname s \<in> sname ` set ss then encode_sections ss [(sname s, JArr ls)] out else Inr out)"
proof (induction ss arbitrary: out)
  case (Cons t ss)
  have other: "encode_sections ss [(sname s, JArr ls)] out = Inr out" if "sname s \<notin> sname ` set ss" for out
    using Cons that by (metis (no_types, lifting) distinct.simps(2) imageI list.simps(9))
  show ?case
  proof (cases "t = s")
    case True
    then show ?thesis
      using Cons.prems other by (cases "encode_lines s 0 ls") (auto simp: own_def get_def)
  next
    case False
    then show ?thesis using Cons by (auto simp: own_def)
  qed
qed simp

lemma encode_no_values:
  "\<forall>a \<in> set attrs. aname a \<noteq> sections_key \<Longrightarrow> encode_values attrs (one_section k ls) prefix [] = Inr []"
  unfolding encode_values_def by (induction attrs) (simp_all add: own_def one_section_def)

lemma section_rows_back:
  assumes "encode_section_rows e s rows = Inr ws" "wire_ok e" "s \<in> set (osections e)"
    "\<forall>r \<in> set rows. level_fits moments_ok (sattributes s) r"
  shows "\<exists>ls. decode_section_rows e s ws = Inr (map row_of ls) \<and> lines_match s (map JObj rows) ls"
proof -
  let ?card = "one_section (sname s) (map JObj rows)"
  have e: "okey_name e \<noteq> sections_key" "oversion_name e \<noteq> sections_key" "sections_key \<notin> aname ` set (oattributes e)"
    "distinct (map sname (osections e))"
    using assms(2) by (simp_all add: wire_ok_def level_ok_def)
  have "\<forall>a \<in> set (oattributes e). aname a \<noteq> sections_key" using e(3) by (metis imageI)
  note none = encode_no_values [OF this]
  obtain card where card: "encode_row e ?card = Inr card" "ws = card_lines card (sid s)"
    using assms(1) by (auto simp: encode_section_rows_def bindE_eq_Inr)
  have own: "own ?card k \<longleftrightarrow> k = sections_key" for k by (simp add: own_def one_section_def)
  have secs: "get ?card sections_key = JObj [(sname s, JArr (map JObj rows))]"
    by (simp add: one_section_def get_def)
  obtain ls where "encode_lines s 0 (map JObj rows) = Inr ls" "card = set_key sections_key (JObj (set_key (sid s) (JArr ls) [])) []"
    using card(1) e none encode_one_section [OF e(4), of s "map JObj rows" "[]"] assms(3)
    by (auto simp: encode_row_def own secs bindE_eq_Inr)
  then have "card = one_section (sid s) ls" by (simp add: set_key_def one_section_def)
  then have same: "card = one_section (sid s) ws"
    using card(2) by (simp add: card_lines_def one_section_def object_field_def get_def)
  have "row_moments e ?card"
  proof -
    have "level_fits moments_ok (oattributes e) ?card"
      using e(3) own by (auto simp: level_fits_def image_iff)
    moreover have "t = s" if "t \<in> set (osections e)" "sname t = sname s" for t
      using that assms(3) e(4) by (auto simp: distinct_map dest: inj_onD)
    ultimately show ?thesis
      using assms(4) by (auto simp: row_moments_def one_section_def split: if_splits)
  qed
  from row_back [OF card(1) assms(2) this] obtain r' secs' where
    "decode_row e (JObj card) = Inr r'" "map_of r' sections_key = Some (JObj secs')"
    "sections_match e [(sname s, JArr (map JObj rows))] secs'"
    by (auto simp: row_match_def one_section_def)
  moreover from this assms(3) obtain ls' where
    "map_of secs' (sname s) = Some (JArr ls')" "lines_match s (map JObj rows) ls'"
    by (fastforce simp: sections_match_def)
  ultimately show ?thesis
    by (auto simp: decode_section_rows_def same card_lines_def object_field_def get_def)
qed



end
