(* ===== verification/Requests.thy ===== *)
theory Requests
  imports Queries
begin

section \<open>Checks of requests before they run\<close>

text \<open>
  The checks of \<open>model/runtime/read.ts\<close> and \<open>model/runtime/operation.ts\<close> that the code writes
  itself around its schemas: the limits of a filter tree, the form of a read query, repeated
  names, the value of a condition, the place of a refusal, the ids to delete. The schema library
  that calls them is not modelled; what it hands over (an issue with its path) is data here.
\<close>

subsection \<open>Limits of a filter tree\<close>

definition filter_depth_max :: nat where "filter_depth_max = 8"
definition filter_nodes_max :: nat where "filter_nodes_max = 64"
definition filter_in_max :: nat where "filter_in_max = 200"

definition object_at :: "jval \<Rightarrow> row option" where
  "object_at v = (case v of JObj r \<Rightarrow> Some r | JForeign \<Rightarrow> Some [] | _ \<Rightarrow> None)"

definition and_key :: jstr where "and_key = js ''and''"
definition or_key :: jstr where "or_key = js ''or''"
definition not_key :: jstr where "not_key = js ''not''"

text \<open>The children of a node under a key; a hole of an array is not visited.\<close>

definition children :: "row \<Rightarrow> jstr \<Rightarrow> jval list" where
  "children r k = (case get r k of JArr vs \<Rightarrow> filter (\<lambda>v. v \<noteq> JHole) vs | _ \<Rightarrow> [])"

text \<open>
  \<open>withinLimits\<close> counts while it walks and stops at the first excess; the counter \<open>nodes\<close> is
  passed along. The walk ends because it does not go below the greatest depth.
\<close>

function (sequential) walk :: "nat \<Rightarrow> nat \<Rightarrow> jval \<Rightarrow> bool \<times> nat"
  and walk_all :: "nat \<Rightarrow> nat \<Rightarrow> jval list \<Rightarrow> bool \<times> nat"
where
  "walk depth nodes v =
     (let nodes = nodes + 1
      in if filter_nodes_max < nodes \<or> filter_depth_max < depth then (False, nodes)
         else case object_at v of
           None \<Rightarrow> (True, nodes)
         | Some r \<Rightarrow>
             (case walk_all (depth + 1) nodes (children r and_key) of
                (False, nodes) \<Rightarrow> (False, nodes)
              | (True, nodes) \<Rightarrow>
                  (case walk_all (depth + 1) nodes (children r or_key) of
                     (False, nodes) \<Rightarrow> (False, nodes)
                   | (True, nodes) \<Rightarrow>
                       if own r not_key then walk (depth + 1) nodes (get r not_key) else (True, nodes))))"
| "walk_all depth nodes [] = (True, nodes)"
| "walk_all depth nodes (v # vs) =
     (case walk depth nodes v of
        (False, nodes) \<Rightarrow> (False, nodes)
      | (True, nodes) \<Rightarrow> walk_all depth nodes vs)"
  by pat_completeness auto
termination
  by (relation "measures [\<lambda>x. case x of Inl (d, n, v) \<Rightarrow> 9 - d | Inr (d, n, vs) \<Rightarrow> 9 - d,
      \<lambda>x. case x of Inl (d, n, v) \<Rightarrow> 0 | Inr (d, n, vs) \<Rightarrow> length vs + 1]")
    (auto simp: filter_depth_max_def)

definition within_limits :: "jval \<Rightarrow> bool" where
  "within_limits v = fst (walk 1 0 v)"

text \<open>The reference: the size and the depth of the whole tree.\<close>

lemma size_row_less: "map_of r k = Some v \<Longrightarrow> size v < size (JObj r)"
  by (induction r) (auto split: if_splits)

lemma size_children: "v \<in> set (children r k) \<Longrightarrow> size v < size (JObj r)"
proof -
  assume "v \<in> set (children r k)"
  then obtain vs where vs: "get r k = JArr vs" "v \<in> set vs" by (cases "get r k") (auto simp: children_def)
  then have "map_of r k = Some (JArr vs)" by (auto simp: get_def split: option.splits)
  from size_row_less [OF this] have "size (JArr vs) < size (JObj r)" .
  moreover have "size v < size (JArr vs)" using vs(2) by (induction vs) auto
  ultimately show ?thesis by simp
qed

definition node_children :: "jval \<Rightarrow> jval list" where
  "node_children v =
     (case object_at v of
        None \<Rightarrow> []
      | Some r \<Rightarrow> children r and_key @ children r or_key @ (if own r not_key then [get r not_key] else []))"

lemma size_node_children: "w \<in> set (node_children v) \<Longrightarrow> size w < size v"
proof -
  assume w: "w \<in> set (node_children v)"
  then obtain r where r: "object_at v = Some r" by (cases "object_at v") (auto simp: node_children_def)
  then have "v = JObj r \<or> r = []" by (auto simp: object_at_def split: jval.splits)
  moreover have "r = [] \<Longrightarrow> False"
    using w r by (auto simp: node_children_def children_def get_def own_def split: if_splits)
  ultimately have "v = JObj r" by blast
  then show ?thesis
    using w r size_children size_row_less [of r not_key]
    by (auto simp: node_children_def own_def get_def split: if_splits)
qed

function node_count :: "jval \<Rightarrow> nat" where
  "node_count v = 1 + sum_list (map node_count (node_children v))"
  by pat_completeness auto
termination by (relation "measure size") (auto dest: size_node_children)

function node_depth :: "jval \<Rightarrow> nat" where
  "node_depth v = 1 + foldr max (map node_depth (node_children v)) 0"
  by pat_completeness auto
termination by (relation "measure size") (auto dest: size_node_children)

declare node_count.simps [simp del] node_depth.simps [simp del]

definition deepest :: "jval list \<Rightarrow> nat" where
  "deepest vs = foldr max (map node_depth vs) 0"

definition count_all :: "jval list \<Rightarrow> nat" where
  "count_all vs = sum_list (map node_count vs)"

lemma deepest_simps [simp]:
  "deepest [] = 0" "deepest (v # vs) = max (node_depth v) (deepest vs)"
  "deepest (us @ vs) = max (deepest us) (deepest vs)"
  by (induction us) (simp_all add: deepest_def)

lemma count_all_simps [simp]:
  "count_all [] = 0" "count_all (v # vs) = node_count v + count_all vs"
  "count_all (us @ vs) = count_all us + count_all vs"
  by (simp_all add: count_all_def)

lemma node_count_pos: "1 \<le> node_count v" "1 \<le> node_depth v"
  by (simp_all add: node_count.simps [of v] node_depth.simps [of v])

text \<open>
  A walk succeeds exactly when the whole subtree fits into what is left, and then the counter
  has grown by its size.
\<close>

definition fits_left :: "nat \<Rightarrow> nat \<Rightarrow> jval list \<Rightarrow> bool" where
  "fits_left depth nodes vs \<longleftrightarrow>
     vs = [] \<or> nodes + count_all vs \<le> filter_nodes_max \<and> depth + deepest vs \<le> filter_depth_max + 1"

lemma fits_left_append:
  "fits_left d n (us @ vs) \<longleftrightarrow> fits_left d n us \<and> fits_left d (n + count_all us) vs"
  by (cases us; cases vs) (auto simp: fits_left_def)

lemma fits_left_Nil [simp]: "fits_left d n []"
  by (simp add: fits_left_def)

lemma fits_left_node:
  "fits_left d n [v] \<longleftrightarrow>
     n + 1 \<le> filter_nodes_max \<and> d \<le> filter_depth_max \<and> fits_left (d + 1) (n + 1) (node_children v)"
proof -
  have "node_count v = 1 + count_all (node_children v)" "node_depth v = 1 + deepest (node_children v)"
    by (simp_all add: node_count.simps [of v] node_depth.simps [of v] count_all_def deepest_def)
  then show ?thesis by (cases "node_children v") (auto simp: fits_left_def)
qed

lemma walk_spec:
  "fst (walk depth nodes v) = fits_left depth nodes [v]
   \<and> (fst (walk depth nodes v) \<longrightarrow> snd (walk depth nodes v) = nodes + node_count v)"
  "fst (walk_all depth nodes vs) = fits_left depth nodes vs
   \<and> (fst (walk_all depth nodes vs) \<longrightarrow> snd (walk_all depth nodes vs) = nodes + count_all vs)"
proof (induction depth nodes v and depth nodes vs rule: walk_walk_all.induct)
  case (1 depth nodes v)
  let ?n = "nodes + 1"
  have count: "node_count v = 1 + count_all (node_children v)"
    by (simp add: node_count.simps [of v] count_all_def)
  show ?case
  proof (cases "filter_nodes_max < ?n \<or> filter_depth_max < depth")
    case True
    then show ?thesis by (auto simp: fits_left_node)
  next
    case False
    show ?thesis
    proof (cases "object_at v")
      case None
      then show ?thesis using False count by (simp add: fits_left_node node_children_def)
    next
      case (Some r)
      obtain a n1 where a: "walk_all (depth + 1) ?n (children r and_key) = (a, n1)" by fastforce
      obtain b n2 where b: "walk_all (depth + 1) n1 (children r or_key) = (b, n2)" by fastforce
      obtain c n3 where c: "walk (depth + 1) n2 (get r not_key) = (c, n3)" by fastforce
      have A: "a = fits_left (depth + 1) ?n (children r and_key)"
        "a \<Longrightarrow> n1 = ?n + count_all (children r and_key)"
        using "1.IH"(1) [OF refl False Some] a by simp_all
      have B: "b = fits_left (depth + 1) n1 (children r or_key)"
        "b \<Longrightarrow> n2 = n1 + count_all (children r or_key)" if "a"
        using "1.IH"(2) [OF refl False Some a [symmetric]] b that by simp_all
      have C: "c = fits_left (depth + 1) n2 [get r not_key]" "c \<Longrightarrow> n3 = n2 + node_count (get r not_key)"
        if "a" "b" "own r not_key"
        using "1.IH"(3) [OF refl False Some a [symmetric] _ b [symmetric]] c that by simp_all
      have "walk depth nodes v =
          (if \<not> a then (False, n1) else if \<not> b then (False, n2) else if own r not_key then (c, n3) else (True, n2))"
        using False Some a b c by (simp add: Let_def del: walk_all.simps)
      then show ?thesis
        using A B C False Some count
        by (auto simp: fits_left_node node_children_def fits_left_append)
    qed
  qed
next
  case (3 depth nodes v vs)
  then show ?case
    using fits_left_append [of depth nodes "[v]" vs] by (auto split: prod.splits bool.splits)
qed simp

text \<open>
  The walk that stops at the first excess decides the limits exactly: a filter passes when
  it has at most 64 nodes in at most 8 levels, whatever keys its nodes mix, and is refused
  otherwise.
\<close>

theorem within_limits_exact:
  "within_limits v \<longleftrightarrow> node_count v \<le> 64 \<and> node_depth v \<le> 8"
  using walk_spec(1) [of 1 0 v] by (simp add: within_limits_def fits_left_def filter_nodes_max_def filter_depth_max_def)

subsection \<open>The place of a refusal\<close>

text \<open>
  An issue as the schema library reports it: of some other code with its message, or of a union
  with the issues of every branch. Paths mix keys and indices.
\<close>

datatype path_key = Key jstr | Index nat

datatype zod_issue =
    PlainIssue "path_key list" jstr
  | InvalidUnion "path_key list" "zod_issue list list"

fun issue_path :: "zod_issue \<Rightarrow> path_key list" where
  "issue_path (PlainIssue p _) = p"
| "issue_path (InvalidUnion p _) = p"

definition key_value :: "jval \<Rightarrow> path_key \<Rightarrow> jval" where
  "key_value v k =
     (case (v, k) of
        (JObj r, Key s) \<Rightarrow> get r s
      | (JObj r, Index i) \<Rightarrow> get r (show_nat i)
      | (JArr vs, Index i) \<Rightarrow> if i < length vs then vs ! i else JUndef
      | _ \<Rightarrow> JUndef)"

definition value_at :: "jval \<Rightarrow> path_key list \<Rightarrow> jval" where
  "value_at whole path = foldl key_value whole path"

definition node_keys :: "jstr list" where
  "node_keys = [and_key, or_key, not_key, js ''attribute'']"

text \<open>\<open>NODE_KEYS.findIndex((key) => key in node)\<close>, the branch of the union that a node means.\<close>

definition node_branch :: "jval \<Rightarrow> nat option" where
  "node_branch v =
     (case object_at v of
        None \<Rightarrow> None
      | Some r \<Rightarrow>
          (let i = length (takeWhile (\<lambda>k. \<not> own r k) node_keys)
           in if i < length node_keys then Some i else None))"

definition unknown_node :: jstr where "unknown_node = js ''unknown filter node''"

lemma size_branch_issue:
  assumes "i < length errors" "errors ! i \<noteq> []"
  shows "size (hd (errors ! i)) < size (InvalidUnion p errors)"
proof -
  have "size (hd (errors ! i)) < size_list size (errors ! i)"
    using assms(2) by (cases "errors ! i") auto
  then have "size (hd (errors ! i)) < size_list (size_list size) errors"
    using assms(1) by (intro size_list_estimation [of "errors ! i"]) simp_all
  then show ?thesis by simp
qed

function located :: "zod_issue \<Rightarrow> jval \<Rightarrow> path_key list \<Rightarrow> path_key list \<times> jstr" where
  "located (PlainIssue p m) whole base = (base @ p, m)"
| "located (InvalidUnion p errors) whole base =
     (case node_branch (value_at whole (base @ p)) of
        None \<Rightarrow> (base @ p, unknown_node)
      | Some i \<Rightarrow>
          (if i < length errors \<and> errors ! i \<noteq> [] then located (hd (errors ! i)) whole (base @ p)
           else (base @ p, unknown_node)))"
  by pat_completeness auto

termination
  by (relation "measure (\<lambda>(issue, _). size issue)") (use size_branch_issue in auto)

text \<open>
  The place of a refusal is the place of an issue that the library reported, found by
  following the branch of each node, never above the node of the union itself: the path begins
  with the path of the issue it started from.
\<close>

theorem located_within: "\<exists>rest. fst (located issue whole base) = base @ issue_path issue @ rest"
proof (induction issue whole base rule: located.induct)
  case (2 p errors whole base)
  show ?case
  proof (cases "node_branch (value_at whole (base @ p))")
    case (Some i)
    show ?thesis
    proof (cases "i < length errors \<and> errors ! i \<noteq> []")
      case True
      from "2.IH" [OF Some True] show ?thesis using Some True by auto
    qed (use Some in auto)
  qed simp
qed simp

subsection \<open>Conditions, names and forms\<close>

definition operator_text :: "filter_operator \<Rightarrow> jstr" where
  "operator_text operator =
     (case operator of
        OpEq \<Rightarrow> js ''eq'' | OpNe \<Rightarrow> js ''ne'' | OpLt \<Rightarrow> js ''lt'' | OpLte \<Rightarrow> js ''lte''
      | OpGt \<Rightarrow> js ''gt'' | OpGte \<Rightarrow> js ''gte'' | OpIn \<Rightarrow> js ''in'' | OpIsNull \<Rightarrow> js ''isNull''
      | OpContains \<Rightarrow> js ''contains'' | OpStartsWith \<Rightarrow> js ''startsWith'')"

text \<open>The refinement of \<open>conditionSchema\<close>: the message of the refusal, if it refuses.\<close>

definition condition_refusal :: "filter_operator \<Rightarrow> jval \<Rightarrow> jstr option" where
  "condition_refusal operator v =
     (if operator = OpIsNull then
        (if v \<noteq> JUndef then Some (js ''isNull takes no value'') else None)
      else if operator = OpIn then
        (case v of
           JArr vs \<Rightarrow>
             if vs = [] \<or> filter_in_max < length vs
             then Some (js ''in takes an array of 1 to '' @ show_nat filter_in_max @ js '' values'') else None
         | _ \<Rightarrow> Some (js ''in takes an array of 1 to '' @ show_nat filter_in_max @ js '' values''))
      else if v = JUndef then Some (operator_text operator @ js '' takes a value'') else None)"

text \<open>\<open>list.indexOf(name) !== i\<close>: the indices where \<open>uniqueNames\<close> reports a repeated name.\<close>

definition index_of :: "'a list \<Rightarrow> 'a \<Rightarrow> nat" where
  "index_of xs x = length (takeWhile (\<lambda>y. y \<noteq> x) xs)"

definition repeated_names :: "jstr list \<Rightarrow> nat list" where
  "repeated_names names = filter (\<lambda>i. index_of names (names ! i) \<noteq> i) [0..<length names]"

definition names_ok :: "nat option \<Rightarrow> jstr list \<Rightarrow> bool" where
  "names_ok bound names \<longleftrightarrow>
     1 \<le> length names \<and> (case bound of None \<Rightarrow> True | Some m \<Rightarrow> length names \<le> m) \<and> repeated_names names = []"

text \<open>The form of a read: card, list, count, lines of an owner, section list, section count.\<close>

definition form_index :: "jval \<Rightarrow> nat" where
  "form_index v =
     (let q = (case object_at v of None \<Rightarrow> [] | Some r \<Rightarrow> r)
      in if own q (js ''tabularSection'') then
           if own q (js ''owner'') then 3 else if own q (js ''count'') then 5 else 4
         else if own q (js ''id'') then 0
         else if own q (js ''count'') then 2 else 1)"

subsection \<open>Ids to delete\<close>

definition tabular_lines_max :: nat where "tabular_lines_max = 5000"

text \<open>
  The refinement of \<open>deleteIdsSchema\<close>: one pass with the set of the ids seen, in lower case; it
  reports every index whose id was seen before.
\<close>

fun duplicate_ids :: "nat \<Rightarrow> jstr list \<Rightarrow> jstr list \<Rightarrow> nat list" where
  "duplicate_ids i seen [] = []"
| "duplicate_ids i seen (x # ids) =
     (let key = to_lower x
      in (if key \<in> set seen then [i] else []) @ duplicate_ids (i + 1) (List.insert key seen) ids)"

definition delete_ids_ok :: "jstr list \<Rightarrow> bool" where
  "delete_ids_ok ids \<longleftrightarrow> length ids \<le> tabular_lines_max \<and> duplicate_ids 0 [] ids = []"

text \<open>The sections that \<open>deleteIds\<close> names and the update does not carry.\<close>

definition sections_missing :: "(jstr \<times> jstr list) list option \<Rightarrow> row option \<Rightarrow> jstr list" where
  "sections_missing delete_ids sections =
     filter (\<lambda>name. case sections of None \<Rightarrow> True | Some r \<Rightarrow> get r name = JUndef)
       (map fst (case delete_ids of None \<Rightarrow> [] | Some d \<Rightarrow> d))"

lemma index_of_same: "distinct xs \<Longrightarrow> i < length xs \<Longrightarrow> index_of xs (xs ! i) = i"
proof -
  assume a: "distinct xs" "i < length xs"
  then have xs: "xs = take i xs @ xs ! i # drop (Suc i) xs" by (simp add: id_take_nth_drop)
  have "xs ! i \<notin> set (take i xs)"
    using a by (auto simp: in_set_conv_nth nth_eq_iff_index_eq)
  then have "takeWhile (\<lambda>y. y \<noteq> xs ! i) (take i xs @ xs ! i # drop (Suc i) xs) = take i xs"
    by (intro takeWhile_prefix) auto
  then have "takeWhile (\<lambda>y. y \<noteq> xs ! i) xs = take i xs" using xs by simp
  then show ?thesis using a by (simp add: index_of_def)
qed

lemma repeated_names_distinct: "repeated_names names = [] \<longleftrightarrow> distinct names"
proof
  assume "repeated_names names = []"
  then have same: "index_of names (names ! i) = i" if "i < length names" for i
    using that by (auto simp: repeated_names_def filter_empty_conv)
  show "distinct names"
    unfolding distinct_conv_nth using same by metis
qed (auto simp: repeated_names_def filter_empty_conv index_of_same)

lemma duplicate_ids_distinct:
  "duplicate_ids i seen ids = [] \<longleftrightarrow> distinct (map to_lower ids) \<and> to_lower ` set ids \<inter> set seen = {}"
  by (induction i seen ids rule: duplicate_ids.induct) (auto simp: Let_def)

text \<open>
  The two scans for repetition are exact: a list of names passes when it is not empty,
  within its bound and without a repeated name; a list of ids passes when it has at most 5000
  ids of which no two differ at most in case.
\<close>

theorem repetition_exact:
  "(names_ok bound names \<longleftrightarrow>
     names \<noteq> [] \<and> (bound = None \<or> length names \<le> the bound) \<and> distinct names)
   \<and> (delete_ids_ok ids \<longleftrightarrow> length ids \<le> 5000 \<and> distinct (map to_lower ids))"
proof -
  have "1 \<le> length names \<longleftrightarrow> names \<noteq> []" by (cases names) simp_all
  then show ?thesis
    by (cases bound) (simp_all add: names_ok_def repeated_names_distinct delete_ids_ok_def tabular_lines_max_def
        duplicate_ids_distinct)
qed

end
