(* ===== verification/Signals.thy ===== *)
theory Signals
  imports Catalog
begin

section \<open>Signal channels\<close>

text \<open>
  \<open>model/runtime/signal.ts\<close>: the name of a channel on the wire and its strict parser.
\<close>

datatype channel =
    Changes (scope_kind_id: jstr) (scope: jstr) (object_id: jstr)
  | Rights jstr jstr
  | UserChannel jstr

definition changes_prefix :: jstr where "changes_prefix = js ''simetra''"
definition rights_prefix :: jstr where "rights_prefix = js ''simetra-rights''"
definition user_prefix :: jstr where "user_prefix = js ''simetra-user''"

fun channel_topic :: "channel \<Rightarrow> jstr" where
  "channel_topic (Changes k s x) = changes_prefix @ [58] @ k @ [58] @ s @ [58] @ x"
| "channel_topic (Rights k s) = rights_prefix @ [58] @ k @ [58] @ s"
| "channel_topic (UserChannel u) = user_prefix @ [58] @ u"

text \<open>\<open>UUID_LOWER\<close>: groups of 8, 4, 4, 4 and 12 lower-case hexadecimal digits.\<close>

definition lower_hex :: "nat \<Rightarrow> bool" where
  "lower_hex c \<longleftrightarrow> is_digit c \<or> 97 \<le> c \<and> c \<le> 102"

definition uuid_lower :: "jstr \<Rightarrow> bool" where
  "uuid_lower s \<longleftrightarrow>
     length s = 36 \<and> (\<forall>i < 36. if i \<in> {8, 13, 18, 23} then s ! i = 45 else lower_hex (s ! i))"

definition parse_topic :: "jstr \<Rightarrow> channel option" where
  "parse_topic topic =
     (let prefix = hd (split_on 58 topic); segments = tl (split_on 58 topic)
      in if \<not> (\<forall>s \<in> set segments. uuid_lower s) then None
         else case segments of
           [k, s, x] \<Rightarrow> if prefix = changes_prefix then Some (Changes k s x) else None
         | [k, s] \<Rightarrow> if prefix = rights_prefix then Some (Rights k s) else None
         | [u] \<Rightarrow> if prefix = user_prefix then Some (UserChannel u) else None
         | _ \<Rightarrow> None)"

definition channel_ids :: "channel \<Rightarrow> jstr list" where
  "channel_ids c = (case c of Changes k s x \<Rightarrow> [k, s, x] | Rights k s \<Rightarrow> [k, s] | UserChannel u \<Rightarrow> [u])"

lemma uuid_no_colon: "uuid_lower s \<Longrightarrow> 58 \<notin> set s"
proof
  assume u: "uuid_lower s" "58 \<in> set s"
  then obtain i where i: "i < length s" "s ! i = 58" by (auto simp: in_set_conv_nth)
  have "length s = 36" "if i \<in> {8, 13, 18, 23} then s ! i = 45 else lower_hex (s ! i)"
    using u(1) i(1) by (auto simp: uuid_lower_def)
  then show False using i(2) by (auto simp: lower_hex_def is_digit_def split: if_splits)
qed

lemma prefixes_no_colon: "58 \<notin> set changes_prefix" "58 \<notin> set rights_prefix" "58 \<notin> set user_prefix"
  by (simp_all add: changes_prefix_def rights_prefix_def user_prefix_def js_def)

lemma split_topic:
  "\<forall>s \<in> set (channel_ids c). uuid_lower s \<Longrightarrow> split_on 58 (channel_topic c) =
     (case c of Changes _ _ _ \<Rightarrow> changes_prefix | Rights _ _ \<Rightarrow> rights_prefix | UserChannel _ \<Rightarrow> user_prefix) # channel_ids c"
  using prefixes_no_colon
  by (cases c) (auto simp: channel_ids_def split_on_append split_on_absent uuid_no_colon)

text \<open>
  Channel names and channels correspond: a channel of lower-case ids is parsed back from
  its name, and a text that parses is the name of the channel it gives. Nothing else passes for
  a channel of the application.
\<close>

theorem parse_topic_exact:
  "parse_topic t = Some c \<longleftrightarrow> t = channel_topic c \<and> list_all uuid_lower (channel_ids c)"
  unfolding list_all_iff
proof
  assume t: "parse_topic t = Some c"
  obtain p segments where parts: "split_on 58 t = p # segments"
    by (cases "split_on 58 t") auto
  then have join: "t = join_with [58] (p # segments)"
    by (metis join_split)
  show "t = channel_topic c \<and> (\<forall>s \<in> set (channel_ids c). uuid_lower s)"
    using t unfolding join
    by (auto simp: parse_topic_def parts [unfolded join] channel_ids_def split: if_splits list.splits)
next
  assume c: "t = channel_topic c \<and> (\<forall>s \<in> set (channel_ids c). uuid_lower s)"
  then have "split_on 58 t = (case c of Changes _ _ _ \<Rightarrow> changes_prefix | Rights _ _ \<Rightarrow> rights_prefix
      | UserChannel _ \<Rightarrow> user_prefix) # channel_ids c"
    using split_topic by blast
  then show "parse_topic t = Some c"
    using c by (cases c) (auto simp: parse_topic_def channel_ids_def)
qed

end
