(* ===== verification/ServerErrors.thy ===== *)
theory ServerErrors
  imports Catalog
begin

section \<open>Errors of the database as the outside sees them\<close>

text \<open>
  \<open>normalizeError\<close> of \<open>server/port.ts\<close> and \<open>server/errors.ts\<close>: whatever the driver threw is
  reduced to a database error, and that to a command error. A command error is closed: its texts
  are the reasons of the kernel that the code lists, names of the catalog, or a safe integer.
\<close>

subsection \<open>What the driver threw\<close>

text \<open>
  Anything can be thrown. Reading a property gives a value, or throws itself (\<open>None\<close>); so does
  \<open>String(error)\<close>.
\<close>

record thrown =
  thrown_read :: "jstr \<Rightarrow> jval option"
  thrown_text :: "jstr option"

record database_error =
  dcode :: "jstr option"
  dmessage :: jstr
  ddetail :: "jstr option"
  dhint :: "jstr option"
  dconstraint :: "jstr option"
  dtable :: "jstr option"
  dcolumn :: "jstr option"
  dlost :: bool

text \<open>\<open>/^[0-9A-Z]{5}$/\<close>\<close>

definition sqlstate :: "jstr \<Rightarrow> bool" where
  "sqlstate s \<longleftrightarrow> length s = 5 \<and> list_all (\<lambda>c. is_digit c \<or> is_upper c) s"

definition admin_shutdown :: "jstr list" where
  "admin_shutdown = [js ''57P01'', js ''57P02'', js ''57P03'']"

definition text_field :: "thrown \<Rightarrow> jstr \<Rightarrow> jstr option" where
  "text_field e k = (case thrown_read e k of Some (JStr s) \<Rightarrow> Some s | _ \<Rightarrow> None)"

definition describe_thrown :: "thrown \<Rightarrow> jstr" where
  "describe_thrown e = (case thrown_text e of Some s \<Rightarrow> s | None \<Rightarrow> js ''unknown error'')"

definition normalize_error :: "thrown \<Rightarrow> database_error" where
  "normalize_error e =
     (let code = (case text_field e (js ''code'') of Some c \<Rightarrow> if sqlstate c then Some c else None | None \<Rightarrow> None)
      in \<lparr>dcode = code,
          dmessage = (case text_field e (js ''message'') of Some m \<Rightarrow> m | None \<Rightarrow> describe_thrown e),
          ddetail = text_field e (js ''detail''),
          dhint = text_field e (js ''hint''),
          dconstraint = text_field e (js ''constraint''),
          dtable = text_field e (js ''table''),
          dcolumn = text_field e (js ''column''),
          dlost = (case code of None \<Rightarrow> True
            | Some c \<Rightarrow> take 2 c = js ''08'' \<or> c \<in> set admin_shutdown)\<rparr>)"

subsection \<open>The reasons of the kernel\<close>

record core_error =
  errcode :: jstr
  emessage :: jstr
  ereasons :: "jstr list"

definition core_invalid :: core_error where
  "core_invalid =
     \<lparr>errcode = js ''22023'', emessage = js ''command.invalid'',
      ereasons = [js ''create'', js ''p_item'', js ''tabular'', js ''p_expected_version'', js ''p_mark'',
        js ''predefined'', js ''creatorMember'']\<rparr>"

definition core_context :: core_error where
  "core_context =
     \<lparr>errcode = js ''42501'', emessage = js ''command.context'',
      ereasons = [js ''phase'', js ''missing'', js ''malformed'', js ''unknown-action'']\<rparr>"

definition core_forbidden :: core_error where
  "core_forbidden =
     \<lparr>errcode = js ''42501'', emessage = js ''command.forbidden'',
      ereasons = [js ''no-right'', js ''new-carrier'', js ''effect'', js ''rights-context'', js ''escalation'',
        js ''delta-domain'', js ''role-in-use'', js ''last-full-access'']\<rparr>"

definition core_conflict :: core_error where
  "core_conflict =
     \<lparr>errcode = js ''P0001'', emessage = js ''command.conflict'', ereasons = [js ''version'', js ''exists'']\<rparr>"

definition tabular_word :: jstr where "tabular_word = js ''tabular''"
definition creator_word :: jstr where "creator_word = js ''creatorMember''"

subsection \<open>Tables of the catalog\<close>

record server_table =
  tb_object :: entry
  tb_name :: jstr
  tb_key :: jstr
  tb_key_name :: jstr
  tb_attributes :: "attribute list"
  tb_constraints :: "db_constraint list"
  tb_prefix :: jstr

definition main_table :: "entry \<Rightarrow> server_table" where
  "main_table e =
     \<lparr>tb_object = e, tb_name = snd (otable e), tb_key = okey e, tb_key_name = okey_name e,
      tb_attributes = oattributes e, tb_constraints = oconstraints e, tb_prefix = []\<rparr>"

definition line_tables :: "entry \<Rightarrow> server_table list" where
  "line_tables e =
     map (\<lambda>s. \<lparr>tb_object = e, tb_name = snd (stable s), tb_key = skey s, tb_key_name = skey_name s,
       tb_attributes = sattributes s, tb_constraints = sconstraints s, tb_prefix = sname s @ [46]\<rparr>) (osections e)"

definition tables_of :: "entry \<Rightarrow> server_table list" where
  "tables_of e = main_table e # line_tables e"

text \<open>The phase an error came from; the last component is the membership catalog of a root.\<close>

datatype error_phase =
    WritePhase (phase_object: entry) object_operation "entry option"
  | ReadPhase (phase_object: entry)

fun phase_membership :: "error_phase option \<Rightarrow> entry option" where
  "phase_membership (Some (WritePhase _ _ m)) = m"
| "phase_membership _ = None"

definition phase_tables :: "error_phase option \<Rightarrow> server_table list" where
  "phase_tables phase = (case phase of None \<Rightarrow> [] | Some p \<Rightarrow> tables_of (phase_object p))"

definition table_of :: "entry list \<Rightarrow> error_phase option \<Rightarrow> jstr option \<Rightarrow> server_table option" where
  "table_of catalog phase name =
     (case name of
        None \<Rightarrow> None
      | Some n \<Rightarrow>
          (case find (\<lambda>t. tb_name t = n) (phase_tables phase) of
             Some t \<Rightarrow> Some t
           | None \<Rightarrow>
               (case filter (\<lambda>t. tb_name t = n) (concat (map tables_of catalog)) of
                  [t] \<Rightarrow> Some t
                | _ \<Rightarrow> None)))"

definition has_column :: "jstr \<Rightarrow> attribute \<Rightarrow> bool" where
  "has_column c a \<longleftrightarrow> c \<in> set (columns_of a)"

definition path_of :: "server_table \<Rightarrow> jstr \<Rightarrow> jstr option" where
  "path_of t c =
     (if c = tb_key t then Some (tb_prefix t @ tb_key_name t)
      else map_option (\<lambda>a. tb_prefix t @ aname a) (find (has_column c) (tb_attributes t)))"

definition member_table :: "entry \<Rightarrow> server_table" where
  "member_table m = (main_table m)\<lparr>tb_prefix := creator_word @ [46]\<rparr>"

definition attributes_of :: "server_table \<Rightarrow> jstr list \<Rightarrow> jstr list" where
  "attributes_of t cs = unique_columns (List.map_filter (\<lambda>c. if c = tb_key t then None else path_of t c) cs)"

subsection \<open>The mapping\<close>

definition internal_error :: command_error where
  "internal_error = error_of ''command.internal''"

definition invalid_reason :: "jstr \<Rightarrow> command_error" where
  "invalid_reason r = (error_of ''command.invalid'')\<lparr>ereason := Some r\<rparr>"

definition starts_with :: "jstr \<Rightarrow> jstr \<Rightarrow> bool" where
  "starts_with p s \<longleftrightarrow> take (length p) s = p"

definition or_unknown_reason :: "jstr option \<Rightarrow> command_error" where
  "or_unknown_reason p = (case p of None \<Rightarrow> invalid_reason (js ''unknown'') | Some path \<Rightarrow> invalid path)"

text \<open>The first section whose head the detail has, and the column that follows the head.\<close>

fun section_invalid :: "server_table list \<Rightarrow> jstr \<Rightarrow> command_error option" where
  "section_invalid [] detail = None"
| "section_invalid (t # ts) detail =
     (let head = tabular_word @ 46 # tb_name t
      in if detail = head then Some (invalid (butlast (tb_prefix t)))
         else if starts_with (head @ [46]) detail then
           Some (or_unknown_reason (path_of t (drop (length head + 1) detail)))
         else section_invalid ts detail)"

definition invalid_of :: "entry \<Rightarrow> jstr \<Rightarrow> entry option \<Rightarrow> command_error" where
  "invalid_of e detail membership =
     (if detail = creator_word \<or> starts_with (creator_word @ [46]) detail then
        (let column = drop (length creator_word + 1) detail;
             path = (case membership of None \<Rightarrow> None
               | Some m \<Rightarrow> if column = [] then None else path_of (member_table m) column)
         in invalid (case path of None \<Rightarrow> creator_word | Some p \<Rightarrow> p))
      else case path_of (main_table e) detail of
        Some p \<Rightarrow> invalid p
      | None \<Rightarrow>
          (case section_invalid (line_tables e) detail of
             Some err \<Rightarrow> err
           | None \<Rightarrow> invalid_reason (if detail \<in> set (ereasons core_invalid) then detail else js ''unknown'')))"

text \<open>\<open>isVersion\<close>: an integer from 1 without a sign that is safe.\<close>

definition version_text :: "jstr \<Rightarrow> bool" where
  "version_text s \<longleftrightarrow> s \<noteq> [] \<and> list_all is_digit s \<and> hd s \<noteq> 48"

definition is_version :: "jstr \<Rightarrow> bool" where
  "is_version s \<longleftrightarrow> version_text s \<and> safe_integer (Dec (int (digits_val s)) 0)"

definition rls_of :: "entry list \<Rightarrow> error_phase option \<Rightarrow> jstr option \<Rightarrow> command_error" where
  "rls_of catalog phase name =
     (error_of ''command.forbidden'')
       \<lparr>ereason := Some (js ''rls''),
        eobject := (case phase of
            Some p \<Rightarrow> Some (entry_ref (phase_object p))
          | None \<Rightarrow> map_option (\<lambda>t. entry_ref (tb_object t)) (table_of catalog None name)),
        eoperation := (case phase of Some (WritePhase _ op _) \<Rightarrow> Some op | _ \<Rightarrow> None)\<rparr>"

definition constraint_error :: "string \<Rightarrow> jstr list \<Rightarrow> command_error" where
  "constraint_error kind attributes =
     (error_of ''command.constraint'')\<lparr>ekind := Some kind, eattributes := Some attributes\<rparr>"

definition find_constraint :: "server_table \<Rightarrow> constraint_kind \<Rightarrow> jstr option \<Rightarrow> db_constraint option" where
  "find_constraint t kind name =
     find (\<lambda>c. Some (cn_name c) = name \<and> cn_kind c = kind) (tb_constraints t)"

text \<open>The logical attributes of the constraint that the error names, none when it is unknown.\<close>

definition violated :: "entry list \<Rightarrow> error_phase option \<Rightarrow> database_error \<Rightarrow> constraint_kind \<Rightarrow> jstr list" where
  "violated catalog phase e kind =
     (case table_of catalog phase (dtable e) of
        None \<Rightarrow> []
      | Some t \<Rightarrow>
          (case find_constraint t kind (dconstraint e) of
             None \<Rightarrow> []
           | Some c \<Rightarrow> attributes_of t (cn_columns c)))"

definition forbidden_of :: "entry list \<Rightarrow> error_phase option \<Rightarrow> database_error \<Rightarrow> command_error" where
  "forbidden_of catalog phase e =
     (if dmessage e = emessage core_forbidden then
        (case ddetail e of
           Some d \<Rightarrow> if d \<in> set (ereasons core_forbidden)
             then (error_of ''command.forbidden'')\<lparr>ereason := Some d\<rparr> else internal_error
         | None \<Rightarrow> internal_error)
      else rls_of catalog phase (dtable e))"

definition conflict_of :: "database_error \<Rightarrow> command_error" where
  "conflict_of e =
     (if dmessage e \<noteq> emessage core_conflict then internal_error
      else case ddetail e of
        None \<Rightarrow> internal_error
      | Some d \<Rightarrow>
          if d \<notin> set (ereasons core_conflict) then internal_error
          else case dhint e of
            None \<Rightarrow> (error_of ''command.conflict'')\<lparr>ereason := Some d\<rparr>
          | Some h \<Rightarrow>
              if is_version h
              then (error_of ''command.conflict'')\<lparr>ereason := Some d, ecurrent_version := Some (int (digits_val h))\<rparr>
              else internal_error)"

definition foreign_key_of :: "entry list \<Rightarrow> error_phase option \<Rightarrow> database_error \<Rightarrow> command_error" where
  "foreign_key_of catalog phase e =
     (case violated catalog phase e ForeignKey of
        [] \<Rightarrow> internal_error
      | path # _ \<Rightarrow> invalid path)"

definition not_null_of :: "entry list \<Rightarrow> error_phase option \<Rightarrow> database_error \<Rightarrow> command_error" where
  "not_null_of catalog phase e =
     (case (phase_membership phase, dcolumn e) of
        (m, column) \<Rightarrow>
          (if m \<noteq> None \<and> dtable e = map_option (\<lambda>x. snd (otable x)) m \<and> column \<noteq> None then
             (case path_of (member_table (the m)) (the column) of
                None \<Rightarrow> internal_error
              | Some p \<Rightarrow> invalid p)
           else case (table_of catalog phase (dtable e), column) of
             (Some t, Some c) \<Rightarrow>
               (case path_of t c of None \<Rightarrow> internal_error | Some p \<Rightarrow> constraint_error ''notNull'' [p])
           | _ \<Rightarrow> internal_error))"

definition violation_of :: "string \<Rightarrow> jstr list \<Rightarrow> command_error" where
  "violation_of kind attributes = (if attributes = [] then internal_error else constraint_error kind attributes)"

definition map_database_error :: "entry list \<Rightarrow> error_phase option \<Rightarrow> database_error \<Rightarrow> command_error" where
  "map_database_error catalog phase e =
     (if dlost e then error_of ''command.unavailable''
      else if dcode e = Some (errcode core_context) \<and> dmessage e = emessage core_context then
        (case ddetail e of
           Some d \<Rightarrow> if d \<in> set (ereasons core_context)
             then (error_of ''command.context'')\<lparr>edetail := Some d\<rparr> else internal_error
         | None \<Rightarrow> internal_error)
      else case dcode e of
        None \<Rightarrow> internal_error
      | Some code \<Rightarrow>
          if code = errcode core_forbidden then forbidden_of catalog phase e
          else if code = errcode core_conflict then conflict_of e
          else if code = errcode core_invalid then
            (case (ddetail e, phase) of
               (Some d, Some p) \<Rightarrow>
                 if dmessage e = emessage core_invalid then invalid_of (phase_object p) d (phase_membership phase)
                 else internal_error
             | _ \<Rightarrow> internal_error)
          else if code = js ''22P02'' then
            (case phase of Some (ReadPhase _) \<Rightarrow> error_of ''command.invalid'' | _ \<Rightarrow> internal_error)
          else if code = js ''57014'' then error_of ''command.timeout''
          else if code = js ''55P03'' then error_of ''command.busy''
          else if code = js ''23503'' then foreign_key_of catalog phase e
          else if code = js ''23502'' then not_null_of catalog phase e
          else if code = js ''23505'' then violation_of ''unique'' (violated catalog phase e UniqueKey)
          else if code = js ''23514'' then violation_of ''check'' (violated catalog phase e CheckConstraint)
          else internal_error)"

definition logs_database_error :: "database_error \<Rightarrow> command_error \<Rightarrow> bool" where
  "logs_database_error e mapped \<longleftrightarrow> ecode mapped = ''command.internal'' \<or> dcode e = None"

subsection \<open>No text of the database leaves\<close>

text \<open>The paths that the catalog can give, with those under \<open>creatorMember\<close>.\<close>

definition table_paths :: "server_table \<Rightarrow> jstr list" where
  "table_paths t = (tb_prefix t @ tb_key_name t) # map (\<lambda>a. tb_prefix t @ aname a) (tb_attributes t)"

definition entry_paths :: "entry \<Rightarrow> jstr list" where
  "entry_paths e =
     concat (map table_paths (tables_of e)) @ table_paths (member_table e) @ map sname (osections e)"

definition catalog_paths :: "entry list \<Rightarrow> jstr list" where
  "catalog_paths catalog = creator_word # concat (map entry_paths catalog)"

definition listed_reasons :: "jstr list" where
  "listed_reasons = [js ''unknown'', js ''rls''] @ ereasons core_invalid @ ereasons core_forbidden @ ereasons core_conflict"

definition listed :: "'a option \<Rightarrow> 'a list \<Rightarrow> bool" where
  "listed x xs \<longleftrightarrow> (case x of None \<Rightarrow> True | Some y \<Rightarrow> y \<in> set xs)"

definition closed_error :: "entry list \<Rightarrow> command_error \<Rightarrow> bool" where
  "closed_error catalog x \<longleftrightarrow>
     listed (epath x) (catalog_paths catalog)
     \<and> listed (ereason x) listed_reasons
     \<and> listed (edetail x) (ereasons core_context)
     \<and> listed (eobject x) (map entry_ref catalog)
     \<and> (case eattributes x of None \<Rightarrow> True | Some xs \<Rightarrow> xs \<noteq> [] \<and> distinct xs \<and> set xs \<subseteq> set (catalog_paths catalog))
     \<and> (case ecurrent_version x of None \<Rightarrow> True | Some n \<Rightarrow> 1 \<le> n \<and> n < 2 ^ 53)
     \<and> ehashes x = None \<and> erole x = None"

definition phase_listed :: "entry list \<Rightarrow> error_phase option \<Rightarrow> bool" where
  "phase_listed catalog phase \<longleftrightarrow>
     (case phase of None \<Rightarrow> True | Some p \<Rightarrow> phase_object p \<in> set catalog) \<and> listed (phase_membership phase) catalog"

lemma listed_simps [simp]: "listed None xs" "listed (Some y) xs \<longleftrightarrow> y \<in> set xs"
  by (simp_all add: listed_def)

lemma closed_plain [simp]: "closed_error catalog (error_of c)" "closed_error catalog internal_error"
  by (simp_all add: closed_error_def error_of_def internal_error_def)

lemma closed_invalid: "p \<in> set (catalog_paths catalog) \<Longrightarrow> closed_error catalog (invalid p)"
  by (simp add: closed_error_def error_of_def invalid_def)

lemma closed_reason:
  "r \<in> set listed_reasons \<Longrightarrow> closed_error catalog ((error_of c)\<lparr>ereason := Some r\<rparr>)"
  "r \<in> set listed_reasons \<Longrightarrow> closed_error catalog (invalid_reason r)"
  by (simp_all add: closed_error_def error_of_def invalid_reason_def)

lemma closed_constraint:
  "xs \<noteq> [] \<Longrightarrow> distinct xs \<Longrightarrow> set xs \<subseteq> set (catalog_paths catalog) \<Longrightarrow> closed_error catalog (constraint_error k xs)"
  by (simp add: closed_error_def error_of_def constraint_error_def)

lemma path_of_table: "path_of t c = Some p \<Longrightarrow> p \<in> set (table_paths t)"
  by (auto simp: path_of_def table_paths_def dest: find_SomeD split: if_splits)

lemma entry_paths_catalog: "e \<in> set catalog \<Longrightarrow> set (entry_paths e) \<subseteq> set (catalog_paths catalog)"
  by (auto simp: catalog_paths_def)

lemma table_of_entry:
  assumes "table_of catalog phase name = Some t" "phase_listed catalog phase"
  shows "\<exists>e \<in> set catalog. t \<in> set (tables_of e)"
proof -
  obtain n where n: "name = Some n" using assms(1) by (cases name) (auto simp: table_of_def)
  have "t \<in> set (phase_tables phase) \<or> t \<in> set (concat (map tables_of catalog))"
  proof (cases "find (\<lambda>t. tb_name t = n) (phase_tables phase)")
    case None
    then have "filter (\<lambda>t. tb_name t = n) (concat (map tables_of catalog)) = [t]"
      using assms(1) n by (auto simp: table_of_def split: list.splits)
    then have "t \<in> set (filter (\<lambda>t. tb_name t = n) (concat (map tables_of catalog)))" by simp
    then show ?thesis by simp
  qed (use assms(1) n find_SomeD in \<open>fastforce simp: table_of_def\<close>)
  then show ?thesis
    using assms(2) by (auto simp: phase_tables_def phase_listed_def split: option.splits)
qed

lemma table_paths_catalog:
  "e \<in> set catalog \<Longrightarrow> t \<in> set (tables_of e) \<Longrightarrow> set (table_paths t) \<subseteq> set (catalog_paths catalog)"
  "e \<in> set catalog \<Longrightarrow> set (table_paths (member_table e)) \<subseteq> set (catalog_paths catalog)"
  by (force simp: catalog_paths_def entry_paths_def)+

lemma attributes_of_paths: "set (attributes_of t cs) \<subseteq> set (table_paths t)" "distinct (attributes_of t cs)"
  by (auto simp: attributes_of_def List.map_filter_def path_of_table split: if_splits)

lemma violated_paths:
  assumes "phase_listed catalog phase"
  shows "set (violated catalog phase e kind) \<subseteq> set (catalog_paths catalog)" "distinct (violated catalog phase e kind)"
proof -
  show "set (violated catalog phase e kind) \<subseteq> set (catalog_paths catalog)"
  proof (cases "table_of catalog phase (dtable e)")
    case (Some t)
    obtain x where x: "x \<in> set catalog" "t \<in> set (tables_of x)" using table_of_entry [OF Some assms] by blast
    have "set (attributes_of t cs) \<subseteq> set (catalog_paths catalog)" for cs
      using attributes_of_paths(1) table_paths_catalog(1) [OF x] by (rule subset_trans)
    then show ?thesis using Some
      by (cases "find_constraint t kind (dconstraint e)") (simp_all add: violated_def)
  qed (simp add: violated_def)
  show "distinct (violated catalog phase e kind)"
    by (auto simp: violated_def attributes_of_paths(2) split: option.splits)
qed

lemma section_invalid_closed:
  assumes "section_invalid ts d = Some err" "\<forall>t \<in> set ts. set (table_paths t) \<subseteq> P \<and> butlast (tb_prefix t) \<in> P"
    "P = set (catalog_paths catalog)"
  shows "closed_error catalog err"
  using assms(1,2)
proof (induction ts)
  case (Cons t ts)
  then show ?case
    using path_of_table assms(3)
    by (fastforce simp: Let_def or_unknown_reason_def listed_reasons_def intro: closed_invalid closed_reason
        split: if_splits option.splits)
qed simp

lemma invalid_of_closed:
  assumes "e \<in> set catalog" "listed m catalog"
  shows "closed_error catalog (invalid_of e d m)"
proof (cases "d = creator_word \<or> starts_with (creator_word @ [46]) d")
  case True
  have "p \<in> set (catalog_paths catalog)" if "m = Some x" "path_of (member_table x) c = Some p" for x c p
    using path_of_table [OF that(2)] table_paths_catalog(2) [of x catalog] assms(2) that(1) by auto
  moreover have "creator_word \<in> set (catalog_paths catalog)" by (simp add: catalog_paths_def)
  ultimately show ?thesis using True
    by (auto simp: invalid_of_def Let_def intro!: closed_invalid split: option.splits)
next
  case False
  have main: "p \<in> set (catalog_paths catalog)" if "path_of (main_table e) d = Some p" for p
    using path_of_table [OF that] table_paths_catalog(1) [OF assms(1), of "main_table e"] by (auto simp: tables_of_def)
  have sections: "closed_error catalog err" if "section_invalid (line_tables e) d = Some err" for err
  proof (rule section_invalid_closed [OF that _ refl], intro ballI conjI)
    fix t assume t: "t \<in> set (line_tables e)"
    then show "set (table_paths t) \<subseteq> set (catalog_paths catalog)"
      using table_paths_catalog(1) [OF assms(1)] by (simp add: tables_of_def)
    have "butlast (tb_prefix t) \<in> sname ` set (osections e)"
      using t by (auto simp: line_tables_def)
    then show "butlast (tb_prefix t) \<in> set (catalog_paths catalog)"
      using entry_paths_catalog [OF assms(1)] by (auto simp: entry_paths_def)
  qed
  show ?thesis using False main sections
    by (auto simp: invalid_of_def listed_reasons_def intro: closed_invalid closed_reason split: option.splits)
qed

lemma rls_of_closed: "phase_listed catalog phase \<Longrightarrow> closed_error catalog (rls_of catalog phase name)"
proof -
  assume phase: "phase_listed catalog phase"
  have "listed (map_option (\<lambda>t. entry_ref (tb_object t)) (table_of catalog None name)) (map entry_ref catalog)"
  proof (cases "table_of catalog None name")
    case (Some t)
    obtain e where "e \<in> set catalog" "t \<in> set (tables_of e)"
      using table_of_entry [OF Some] by (auto simp: phase_listed_def)
    then show ?thesis using Some by (auto simp: tables_of_def main_table_def line_tables_def)
  qed simp
  then show ?thesis
    using phase by (auto simp: rls_of_def closed_error_def error_of_def listed_reasons_def phase_listed_def
        split: option.splits)
qed

lemma conflict_of_closed: "closed_error catalog (conflict_of e)"
proof -
  have "1 \<le> int (digits_val h) \<and> int (digits_val h) < 2 ^ 53" if "is_version h" for h
  proof -
    have "safe_integer (Dec (int (digits_val h)) 0)" "version_text h" using that by (simp_all add: is_version_def)
    moreover from this(2) have "digits_val h \<noteq> 0"
      using digits_val_append [of "[hd h]" "tl h"]
      by (cases h) (auto simp: version_text_def is_digit_def digits_val_def [of "[c]" for c])
    ultimately show ?thesis by (simp add: safe_integer_def)
  qed
  then show ?thesis
    by (auto simp: conflict_of_def closed_error_def error_of_def internal_error_def listed_reasons_def
        split: option.splits)
qed

lemma not_null_of_closed:
  assumes "phase_listed catalog phase"
  shows "closed_error catalog (not_null_of catalog phase e)"
proof -
  have member: "p \<in> set (catalog_paths catalog)"
    if "phase_membership phase = Some m" "path_of (member_table m) c = Some p" for m c p
    using path_of_table [OF that(2)] table_paths_catalog(2) [of m catalog] assms that(1)
    by (auto simp: phase_listed_def)
  have table: "p \<in> set (catalog_paths catalog)"
    if "table_of catalog phase (dtable e) = Some t" "path_of t c = Some p" for t c p
    using table_of_entry [OF that(1) assms] path_of_table [OF that(2)] table_paths_catalog(1) by blast
  show ?thesis
    by (auto simp: not_null_of_def intro!: closed_invalid closed_constraint
        intro: member table split: option.splits)
qed

lemma find_owner:
  "distinct (flat_columns xs) \<Longrightarrow> find (has_column c) xs = Some a \<longleftrightarrow> a \<in> set xs \<and> c \<in> set (columns_of a)"
  by (induction xs) (auto simp: flat_columns_def has_column_def)

lemma set_map_filter: "set (List.map_filter g xs) = {y. \<exists>x \<in> set xs. g x = Some y}"
  by (force simp: List.map_filter_def)

text \<open>
  C25. Nothing of the database leaves in an error: whatever the database or the code inside it
  raises, with any message, detail, hint and names, every text of the command error is a reason
  that the code lists, a name or a path of the catalog, and a version is a safe integer.
\<close>

theorem map_database_error_closed:
  assumes "phase_listed catalog phase"
  shows "closed_error catalog (map_database_error catalog phase e)"
proof -
  have fk: "closed_error catalog (foreign_key_of catalog phase e)"
    using violated_paths(1) [OF assms, of e ForeignKey]
    by (auto simp: foreign_key_of_def intro: closed_invalid split: list.splits)
  have violation: "closed_error catalog (violation_of k (violated catalog phase e kind))" for k kind
    using violated_paths [OF assms, of e kind] by (auto simp: violation_of_def intro: closed_constraint)
  have forbidden: "closed_error catalog (forbidden_of catalog phase e)"
    using rls_of_closed [OF assms]
    by (auto simp: forbidden_of_def listed_reasons_def intro: closed_reason split: option.splits)
  have ctx: "closed_error catalog ((error_of ''command.context'')\<lparr>edetail := Some d\<rparr>)"
    if "d \<in> set (ereasons core_context)" for d
    using that by (simp add: closed_error_def error_of_def)
  have invalid: "closed_error catalog (invalid_of (phase_object p) d (phase_membership phase))" if "phase = Some p" for p d
    using assms that by (intro invalid_of_closed) (auto simp: phase_listed_def)
  have read: "closed_error catalog (case phase of Some (ReadPhase _) \<Rightarrow> error_of ''command.invalid'' | _ \<Rightarrow> internal_error)"
    by (simp split: option.split error_phase.split)
  have detail: "closed_error catalog (case (ddetail e, phase) of
      (Some d, Some p) \<Rightarrow>
        if dmessage e = emessage core_invalid then invalid_of (phase_object p) d (phase_membership phase)
        else internal_error
    | _ \<Rightarrow> internal_error)"
    using invalid by (auto split: option.split simp del: phase_membership.simps)
  have phases: "closed_error catalog (case ddetail e of
      Some d \<Rightarrow> if d \<in> set (ereasons core_context) then (error_of ''command.context'')\<lparr>edetail := Some d\<rparr> else internal_error
    | None \<Rightarrow> internal_error)"
    by (cases "ddetail e") (simp_all add: ctx)
  show ?thesis
    unfolding map_database_error_def
    by (cases "dcode e")
      (simp_all only: fk violation forbidden read detail phases conflict_of_closed not_null_of_closed [OF assms]
        closed_plain option.case simp_thms split: if_splits)
qed

lemma map_database_error_closed_witness:
  "closed_error [product_entry] (map_database_error [product_entry] (Some (WritePhase product_entry Create None))
     \<lparr>dcode = Some (js ''22023''), dmessage = js ''command.invalid'',
      ddetail = Some (js ''tabular.product_packing.box_count''), dhint = Some (js ''row data''), dconstraint = None,
      dtable = None, dcolumn = None, dlost = False\<rparr>)"
  by (rule map_database_error_closed) (simp add: phase_listed_def)

text \<open>
  C27. A violated unique constraint is reported with exactly the logical attributes of its
  columns: each attribute that owns a column of the constraint other than the key, once, even
  when it owns two of them, under the path of its table.
\<close>

theorem unique_violation_exact:
  assumes "dcode e = Some (js ''23505'')" "\<not> dlost e" "dtable e = Some n"
    "find (\<lambda>t. tb_name t = n) (tables_of (phase_object p)) = Some t"
    "find_constraint t UniqueKey (dconstraint e) = Some k"
    "distinct (flat_columns (tb_attributes t))"
    "\<exists>a \<in> set (tb_attributes t). \<exists>c \<in> set (columns_of a). c \<in> set (cn_columns k) \<and> c \<noteq> tb_key t"
  shows "\<exists>names. map_database_error catalog (Some p) e = constraint_error ''unique'' names
    \<and> distinct names
    \<and> set names = {tb_prefix t @ aname a | a. a \<in> set (tb_attributes t)
         \<and> (\<exists>c \<in> set (columns_of a). c \<in> set (cn_columns k) \<and> c \<noteq> tb_key t)}"
proof -
  have unique: "find (has_column c) (tb_attributes t) = Some a \<longleftrightarrow> a \<in> set (tb_attributes t) \<and> c \<in> set (columns_of a)" for c a
    using assms(6) find_owner [of "tb_attributes t" c a] by simp
  have set_names: "set (attributes_of t (cn_columns k)) = {tb_prefix t @ aname a | a. a \<in> set (tb_attributes t)
         \<and> (\<exists>c \<in> set (columns_of a). c \<in> set (cn_columns k) \<and> c \<noteq> tb_key t)}"
    unfolding attributes_of_def set_unique_columns set_map_filter
    by (auto simp: path_of_def unique split: if_splits)
  have violated: "violated catalog (Some p) e UniqueKey = attributes_of t (cn_columns k)"
    using assms(3-5) by (simp add: violated_def table_of_def phase_tables_def)
  have "attributes_of t (cn_columns k) \<noteq> []" using set_names assms(7) by auto
  then have "map_database_error catalog (Some p) e = constraint_error ''unique'' (attributes_of t (cn_columns k))"
    using assms(1,2) violated
    by (simp add: map_database_error_def core_context_def core_forbidden_def core_conflict_def core_invalid_def violation_of_def)
  then show ?thesis using set_names attributes_of_paths(2) by auto
qed

lemma unique_violation_exact_witness:
  "\<exists>names. map_database_error [product_entry] (Some (WritePhase product_entry Create None))
      \<lparr>dcode = Some (js ''23505''), dmessage = js ''duplicate key'', ddetail = Some (js ''Key (full_name)=(x)''),
       dhint = None, dconstraint = Some (js ''product_name_key''), dtable = Some (js ''product''),
       dcolumn = None, dlost = False\<rparr> = constraint_error ''unique'' names
    \<and> distinct names
    \<and> set names = {tb_prefix (main_table product_entry) @ aname a | a. a \<in> set (tb_attributes (main_table product_entry))
         \<and> (\<exists>c \<in> set (columns_of a). c \<in> set (cn_columns (hd (oconstraints product_entry))) \<and> c \<noteq> tb_key (main_table product_entry))}"
  by (rule unique_violation_exact) (code_simp, code_simp, code_simp, code_simp, code_simp, code_simp, code_simp)

end
