(* ===== verification/Json.thy ===== *)
theory Json
  imports Catalog
begin

section \<open>The text of JSON values\<close>

text \<open>
  \<open>JSON.stringify\<close> and \<open>JSON.parse\<close> as the server uses them: parameters of kernel calls and claims
  are written, core rows and columns of reads are parsed. Numbers are exact decimals.
\<close>

subsection \<open>Writing\<close>

definition hex_digit :: "nat \<Rightarrow> nat" where
  "hex_digit d = (if d < 10 then 48 + d else 87 + d)"

definition unicode_escape :: "nat \<Rightarrow> jstr" where
  "unicode_escape c =
     [92, 117, hex_digit (c div 4096), hex_digit (c div 256 mod 16), hex_digit (c div 16 mod 16), hex_digit (c mod 16)]"

definition plain_escapes :: "(nat \<times> nat) list" where
  "plain_escapes = [(8, 98), (9, 116), (10, 110), (12, 102), (13, 114), (34, 34), (92, 92)]"

text \<open>Control units and surrogates without their pair are written as escapes.\<close>

fun json_units :: "jstr \<Rightarrow> jstr" where
  "json_units [] = []"
| "json_units (c # s) =
     (case map_of plain_escapes c of
        Some d \<Rightarrow> [92, d] @ json_units s
      | None \<Rightarrow>
          if c < 32 \<or> low_surrogate c then unicode_escape c @ json_units s
          else if high_surrogate c then
            (case s of
               d # t \<Rightarrow> if low_surrogate d then [c, d] @ json_units t else unicode_escape c @ json_units s
             | [] \<Rightarrow> unicode_escape c)
          else c # json_units s)"

definition json_string :: "jstr \<Rightarrow> jstr" where
  "json_string s = 34 # json_units s @ [34]"

text \<open>
  \<open>None\<close> is an exception (a \<open>bigint\<close>, or what this model does not look into); \<open>undefined\<close> and
  holes are \<open>null\<close> in an array and left out of an object.
\<close>

fun json_text :: "jval \<Rightarrow> jstr option" where
  "json_text JNull = Some (js ''null'')"
| "json_text (JBool b) = Some (if b then js ''true'' else js ''false'')"
| "json_text (JNum n) = Some (if num_finite n then num_text n else js ''null'')"
| "json_text (JStr s) = Some (json_string s)"
| "json_text (JArr vs) =
     (let parts = map (\<lambda>v. if v = JUndef \<or> v = JHole then Some (js ''null'') else json_text v) vs
      in if None \<in> set parts then None else Some (91 # join_with [44] (map the parts) @ [93]))"
| "json_text (JObj kvs) =
     (let parts = map (\<lambda>(k, v). map_option (\<lambda>t. json_string k @ 58 # t) (json_text v))
            (filter (\<lambda>(k, v). v \<noteq> JUndef) kvs)
      in if None \<in> set parts then None else Some (123 # join_with [44] (map the parts) @ [125]))"
| "json_text _ = None"

subsection \<open>Reading\<close>

definition json_space :: "nat \<Rightarrow> bool" where
  "json_space c \<longleftrightarrow> c = 32 \<or> c = 9 \<or> c = 10 \<or> c = 13"

definition skip_space :: "jstr \<Rightarrow> jstr" where
  "skip_space s = dropWhile json_space s"

definition hex_unit :: "nat \<Rightarrow> nat option" where
  "hex_unit c =
     (if is_digit c then Some (c - 48) else if 97 \<le> c \<and> c \<le> 102 then Some (c - 87)
      else if 65 \<le> c \<and> c \<le> 70 then Some (c - 55) else None)"

definition hex_value :: "jstr \<Rightarrow> nat option" where
  "hex_value s =
     (if length s = 4 \<and> None \<notin> set (map hex_unit s)
      then Some (foldl (\<lambda>a d. 16 * a + d) 0 (map (\<lambda>c. the (hex_unit c)) s)) else None)"

text \<open>The rest of a string literal after the opening quote.\<close>

function parse_units :: "jstr \<Rightarrow> (jstr \<times> jstr) option" where
  "parse_units s =
     (case s of
        [] \<Rightarrow> None
      | c # t \<Rightarrow>
          if c = 34 then Some ([], t)
          else if c < 32 then None
          else if c \<noteq> 92 then map_option (\<lambda>(u, r). (c # u, r)) (parse_units t)
          else (case t of
            [] \<Rightarrow> None
          | e # t' \<Rightarrow>
              if e = 117 then
                (case hex_value (take 4 t') of
                   None \<Rightarrow> None
                 | Some d \<Rightarrow> map_option (\<lambda>(u, r). (d # u, r)) (parse_units (drop 4 t')))
              else if e = 47 then map_option (\<lambda>(u, r). (47 # u, r)) (parse_units t')
              else (case find (\<lambda>p. snd p = e) plain_escapes of
                None \<Rightarrow> None
              | Some p \<Rightarrow> map_option (\<lambda>(u, r). (fst p # u, r)) (parse_units t'))))"
  by pat_completeness auto
termination by (relation "measure length") auto

declare parse_units.simps [simp del]

text \<open>\<open>-?(0|[1-9]\d*)(\.\d+)?([eE][+-]?\d+)?\<close>\<close>

definition json_number :: "jstr \<Rightarrow> bool" where
  "json_number s \<longleftrightarrow>
     (let r = (if negative s then tl s else s);
          whole = takeWhile is_digit r;
          q = drop (length whole) r;
          q' = (if q \<noteq> [] \<and> hd q = 46 then tl q else q);
          fraction = (if q' = q then [] else takeWhile is_digit q');
          tail = drop (length fraction) q'
      in whole \<noteq> [] \<and> (hd whole = 48 \<longrightarrow> length whole = 1) \<and> (q' \<noteq> q \<longrightarrow> fraction \<noteq> []) \<and> exponent_value tail \<noteq> None)"

definition number_unit :: "nat \<Rightarrow> bool" where
  "number_unit c \<longleftrightarrow> is_digit c \<or> c \<in> {43, 45, 46, 69, 101}"

function normal_dec :: "int \<Rightarrow> int \<Rightarrow> jsnum" where
  "normal_dec m e = (if e < 0 \<and> 10 dvd m then normal_dec (m div 10) (e + 1) else Dec m e)"
  by pat_completeness auto
termination by (relation "measure (\<lambda>(m, e). nat (- e))") auto

definition parse_number :: "jstr \<Rightarrow> (jval \<times> jstr) option" where
  "parse_number s =
     (let t = takeWhile number_unit s
      in if json_number t then map_option (\<lambda>(m, e). (JNum (normal_dec m e), drop (length t) s)) (decimal_parts t)
         else None)"

definition json_word :: "jstr \<Rightarrow> jval \<Rightarrow> jstr \<Rightarrow> (jval \<times> jstr) option" where
  "json_word w v s = (if take (length w) s = w then Some (v, drop (length w) s) else None)"

text \<open>
  The parser takes as fuel one more than the length of the text, which bounds the depth of its
  calls: every call has read at least one unit since the call two levels above.
\<close>

fun parse_value :: "nat \<Rightarrow> jstr \<Rightarrow> (jval \<times> jstr) option"
  and parse_elements :: "nat \<Rightarrow> jstr \<Rightarrow> (jval list \<times> jstr) option"
  and parse_members :: "nat \<Rightarrow> row \<Rightarrow> jstr \<Rightarrow> (row \<times> jstr) option"
where
  "parse_value 0 s = None"
| "parse_value (Suc n) s =
     (case skip_space s of
        [] \<Rightarrow> None
      | c # t \<Rightarrow>
          if c = 34 then map_option (\<lambda>(u, r). (JStr u, r)) (parse_units t)
          else if c = 91 then
            (case skip_space t of
               d # r \<Rightarrow> if d = 93 then Some (JArr [], r)
                 else map_option (\<lambda>(vs, r). (JArr vs, r)) (parse_elements n t)
             | [] \<Rightarrow> None)
          else if c = 123 then
            (case skip_space t of
               d # r \<Rightarrow> if d = 125 then Some (JObj [], r)
                 else map_option (\<lambda>(kvs, r). (JObj kvs, r)) (parse_members n [] t)
             | [] \<Rightarrow> None)
          else if c = 110 then json_word (js ''null'') JNull (c # t)
          else if c = 116 then json_word (js ''true'') (JBool True) (c # t)
          else if c = 102 then json_word (js ''false'') (JBool False) (c # t)
          else parse_number (c # t))"
| "parse_elements 0 s = None"
| "parse_elements (Suc n) s =
     (case parse_value n s of
        None \<Rightarrow> None
      | Some (v, r) \<Rightarrow>
          (case skip_space r of
             [] \<Rightarrow> None
           | c # t \<Rightarrow>
               if c = 93 then Some ([v], t)
               else if c = 44 then map_option (\<lambda>(vs, r). (v # vs, r)) (parse_elements n t)
               else None))"
| "parse_members 0 kvs s = None"
| "parse_members (Suc n) kvs s =
     (case skip_space s of
        [] \<Rightarrow> None
      | c # t \<Rightarrow>
          if c \<noteq> 34 then None
          else (case parse_units t of
            None \<Rightarrow> None
          | Some (k, r) \<Rightarrow>
              (case skip_space r of
                 [] \<Rightarrow> None
               | d # r \<Rightarrow>
                   if d \<noteq> 58 then None
                   else (case parse_value n r of
                     None \<Rightarrow> None
                   | Some (v, r) \<Rightarrow>
                       (case skip_space r of
                          [] \<Rightarrow> None
                        | d # r \<Rightarrow>
                            if d = 125 then Some (set_key k v kvs, r)
                            else if d = 44 then parse_members n (set_key k v kvs) r
                            else None)))))"

definition json_value :: "jstr \<Rightarrow> jval option" where
  "json_value s =
     (case parse_value (2 * length s + 2) s of
        Some (v, r) \<Rightarrow> if skip_space r = [] then Some v else None
      | None \<Rightarrow> None)"

lemma json_value_example:
  "json_value (js ''{ \"id\": \"41\", \"n\": [1.50, -2e1, null], \"id\": true}'')
     = Some (JObj [(js ''id'', JBool True), (js ''n'', JArr [JNum (Dec 15 (- 1)), JNum (Dec (- 2) 1), JNull])])"
  by code_simp

end
