(* ===== verification/ServerValues.thy ===== *)
theory ServerValues
  imports Values ServerErrors Json
begin

section \<open>The item of a save and the rows of the core\<close>

text \<open>
  \<open>server/values.ts\<close> and \<open>server/decode.ts\<close>: the item that a save hands to the kernel, and the
  rows that the kernel and the reads give back, under logical names. A refusal of an input is
  the error \<open>command.invalid\<close> with its path; a row that does not match the catalog is
  \<open>command.internal\<close>, here \<open>None\<close>.
\<close>

subsection \<open>Parameters of conditions\<close>

text \<open>\<open>encodeParam\<close>; pairs do not reach it. The text is what \<open>String\<close> gives for the scalar.\<close>

fun scalar_string :: "jval \<Rightarrow> jstr" where
  "scalar_string (JStr s) = s"
| "scalar_string (JNum n) = num_text n"
| "scalar_string (JBool b) = (if b then js ''true'' else js ''false'')"
| "scalar_string (JBig i) = show_int i"
| "scalar_string _ = []"

definition encode_param :: "attribute \<Rightarrow> jval \<Rightarrow> jstr \<Rightarrow> command_error + jstr option" where
  "encode_param a v path =
     (if aarray a \<or> atype a = Logical TJson then Inl (invalid path)
      else bindE (encode_item_value a v path) (\<lambda>w. Inr (if w = JNull then None else Some (scalar_string w))))"

subsection \<open>Items\<close>

definition values_key :: jstr where "values_key = js ''values''"
definition sections_word :: jstr where "sections_word = js ''tabularSections''"
definition tabular_key :: jstr where "tabular_key = js ''tabular''"

text \<open>\<open>columnsOf\<close>: the refusal of the walk, on its path.\<close>

definition columns_or_invalid :: "command_error + row \<Rightarrow> command_error + row" where
  "columns_or_invalid r =
     (case r of Inl e \<Rightarrow> Inl (invalid (case epath e of None \<Rightarrow> [] | Some p \<Rightarrow> p)) | Inr cols \<Rightarrow> Inr cols)"

definition encode_section_row :: "tabular_section \<Rightarrow> jstr \<Rightarrow> jval \<Rightarrow> command_error + jval" where
  "encode_section_row s path v =
     (case v of
        JObj r \<Rightarrow>
          (let key_path = path @ 46 # skey_name s
           in case get r (skey_name s) of
                JStr k \<Rightarrow>
                  if \<not> uuid_text k then Inl (invalid key_path)
                  else bindE (columns_or_invalid (encode_attributes (sattributes s) v
                      \<lparr>allowed = ainsert, forced = [], opath = path, oprefix = path @ [46], row_key = Some (skey_name s)\<rparr>))
                    (\<lambda>cols. Inr (JObj (set_keys cols [(skey s, JStr k)])))
              | _ \<Rightarrow> Inl (invalid key_path))
      | _ \<Rightarrow> Inl (invalid path))"

fun encode_item_rows :: "tabular_section \<Rightarrow> nat \<Rightarrow> jval list \<Rightarrow> command_error + jval list" where
  "encode_item_rows s i [] = Inr []"
| "encode_item_rows s i (v # vs) =
     bindE (encode_section_row s (sname s @ 46 # show_nat i) v) (\<lambda>w.
     bindE (encode_item_rows s (i + 1) vs) (\<lambda>ws. Inr (w # ws)))"

definition encode_section :: "tabular_section \<Rightarrow> jval \<Rightarrow> command_error + jval" where
  "encode_section s v =
     (case v of
        JArr vs \<Rightarrow> bindE (encode_item_rows s 0 vs) (\<lambda>ws. Inr (JArr ws))
      | _ \<Rightarrow> Inl (invalid (sname s)))"

fun encode_tabular :: "row \<Rightarrow> tabular_section list \<Rightarrow> row \<Rightarrow> command_error + row" where
  "encode_tabular sections [] out = Inr out"
| "encode_tabular sections (s # ss) out =
     (if sname s \<notin> fst ` set sections then encode_tabular sections ss out
      else bindE (encode_section s (get sections (sname s))) (\<lambda>w.
        encode_tabular sections ss (set_key (snd (stable s)) w out)))"

definition with_tabular :: "entry \<Rightarrow> jval \<Rightarrow> row \<Rightarrow> command_error + row" where
  "with_tabular e v item =
     (case v of
        JUndef \<Rightarrow> Inr item
      | JObj r \<Rightarrow>
          (case find (\<lambda>n. n \<notin> sname ` set (osections e)) (map fst r) of
             Some n \<Rightarrow> Inl (invalid n)
           | None \<Rightarrow> bindE (encode_tabular r (osections e) []) (\<lambda>t. Inr (set_key tabular_key (JObj t) item)))
      | _ \<Rightarrow> Inl (invalid sections_word))"

text \<open>
  \<open>encodeItem\<close>; the draft is a plain object, which the caller has checked, so reading its two
  fields does not throw.
\<close>

definition encode_item :: "entry \<Rightarrow> bool \<Rightarrow> jstr \<Rightarrow> row \<Rightarrow> command_error + row" where
  "encode_item e create i draft =
     bindE
       (case get draft values_key of
          JUndef \<Rightarrow> Inr [(okey e, JStr i)]
        | v \<Rightarrow>
            bindE (columns_or_invalid (encode_attributes (oattributes e) v
                \<lparr>allowed = (if create then ainsert else aupdate), forced = [], opath = values_key, oprefix = [],
                 row_key = None\<rparr>))
              (\<lambda>cols. Inr (set_keys cols [(okey e, JStr i)])))
       (\<lambda>item. with_tabular e (get draft sections_word) item)"

subsection \<open>Only granted columns reach the kernel\<close>

definition granted_columns :: "(attribute \<Rightarrow> bool) \<Rightarrow> attribute list \<Rightarrow> jstr set" where
  "granted_columns grant attrs = \<Union> (set ` columns_of ` {a \<in> set attrs. grant a})"

definition section_granted :: "tabular_section list \<Rightarrow> jstr \<Rightarrow> jval \<Rightarrow> bool" where
  "section_granted ss t v \<longleftrightarrow>
     (\<exists>s \<in> set ss. snd (stable s) = t \<and>
       (\<exists>vs. v = JArr vs \<and> list_all (\<lambda>w. \<exists>r. w = JObj r
         \<and> fst ` set r \<subseteq> insert (skey s) (granted_columns ainsert (sattributes s))) vs))"

lemma columns_or_invalid_Inr [simp]: "columns_or_invalid r = Inr cols \<longleftrightarrow> r = Inr cols"
  by (cases r) (simp_all add: columns_or_invalid_def)

lemma encode_attributes_columns:
  assumes "encode_attributes attrs v opts = Inr cols" "\<And>r. v = JObj r \<Longrightarrow> distinct (map fst r)"
  shows "fst ` set cols \<subseteq> granted_columns (allowed opts) attrs"
proof -
  obtain source where v: "v = JObj source" using assms(1) by (cases v) (auto simp: encode_attributes_def)
  define keys where "keys = (case row_key opts of None \<Rightarrow> map fst source | Some k \<Rightarrow> remove1 k (map fst source))"
  have "bindE (encode_known opts source attrs keys []) (\<lambda>(rest, columns).
      case rest of [] \<Rightarrow> Inr columns | k # _ \<Rightarrow> Inl (invalid (oprefix opts @ k))) = Inr cols"
    using assms(1) v by (simp add: encode_attributes_def keys_def Let_def)
  then obtain rest out where known: "encode_known opts source attrs keys [] = Inr (rest, out)"
    and "(case rest of [] \<Rightarrow> Inr out | k # _ \<Rightarrow> Inl (invalid (oprefix opts @ k))) = Inr cols"
    by (auto simp: bindE_eq_Inr)
  from this(2) have "out = cols" by (cases rest) simp_all
  note known = known [unfolded this]
  have "distinct keys" using assms(2) [OF v] by (simp add: keys_def split: option.split)
  from encode_known_keys [OF known this] show ?thesis by (auto simp: granted_columns_def)
qed

text \<open>The objects of a value have distinct keys, as JavaScript objects do.\<close>

fun object_keys_distinct :: "jval \<Rightarrow> bool" where
  "object_keys_distinct (JArr vs) = list_all object_keys_distinct vs"
| "object_keys_distinct (JObj kvs) = (distinct (map fst kvs) \<and> list_all (\<lambda>kv. object_keys_distinct (snd kv)) kvs)"
| "object_keys_distinct _ = True"

lemma encode_section_row_granted:
  assumes "encode_section_row s path v = Inr w" "object_keys_distinct v"
  shows "\<exists>r. w = JObj r \<and> fst ` set r \<subseteq> insert (skey s) (granted_columns ainsert (sattributes s))"
proof -
  obtain k cols where "w = JObj (set_keys cols [(skey s, JStr k)])"
    "encode_attributes (sattributes s) v
       \<lparr>allowed = ainsert, forced = [], opath = path, oprefix = path @ [46], row_key = Some (skey_name s)\<rparr> = Inr cols"
    using assms(1) by (auto simp: encode_section_row_def Let_def bindE_eq_Inr split: jval.splits if_splits)
  then show ?thesis
    using encode_attributes_columns [of "sattributes s" v] assms(2) by (fastforce simp: set_keys_dom)
qed

lemma encode_item_rows_granted:
  "encode_item_rows s i vs = Inr ws \<Longrightarrow> list_all object_keys_distinct vs \<Longrightarrow>
   list_all (\<lambda>w. \<exists>r. w = JObj r \<and> fst ` set r \<subseteq> insert (skey s) (granted_columns ainsert (sattributes s))) ws"
  by (induction s i vs arbitrary: ws rule: encode_item_rows.induct)
    (auto simp: bindE_eq_Inr dest: encode_section_row_granted)

lemma set_set_key: "set (set_key k v r) \<subseteq> insert (k, v) (set r)"
  by (induction r) (auto simp: set_key_def)

lemma list_all_keys: "fst ` set kvs \<subseteq> A \<Longrightarrow> (\<And>c. c \<in> A \<Longrightarrow> P c) \<Longrightarrow> list_all (\<lambda>(c, v). P c) kvs"
  by (force simp: list_all_iff)

lemma encode_tabular_granted:
  assumes "encode_tabular r ss out = Inr t" "object_keys_distinct (JObj r)" "set ss \<subseteq> set all"
    "\<forall>(n, v) \<in> set out. section_granted all n v"
  shows "\<forall>(n, v) \<in> set t. section_granted all n v"
  using assms
proof (induction r ss out rule: encode_tabular.induct)
  case (2 r s ss out)
  show ?case
  proof (cases "sname s \<in> fst ` set r")
    case True
    then obtain w where w: "encode_section s (get r (sname s)) = Inr w"
      "encode_tabular r ss (set_key (snd (stable s)) w out) = Inr t"
      using 2(3) by (auto simp: bindE_eq_Inr)
    have "object_keys_distinct (get r (sname s))"
      using 2(4) by (auto simp: get_def list_all_iff dest: map_of_SomeD split: option.splits)
    moreover obtain vs ws where "get r (sname s) = JArr vs" "w = JArr ws" "encode_item_rows s 0 vs = Inr ws"
      using w(1) by (cases "get r (sname s)") (auto simp: encode_section_def bindE_eq_Inr)
    moreover have "s \<in> set all" using 2(5) by simp
    ultimately have "section_granted all (snd (stable s)) w"
      using encode_item_rows_granted [of s 0 vs ws] by (auto simp: section_granted_def)
    then have "\<forall>(n, v) \<in> set (set_key (snd (stable s)) w out). section_granted all n v"
      using 2(6) set_set_key [of "snd (stable s)" w out] by blast
    moreover have "set ss \<subseteq> set all" using 2(5) by simp
    ultimately show ?thesis using 2(2) [OF _ w(2) 2(4)] True by blast
  next
    case False
    have "set ss \<subseteq> set all" using 2(5) by simp
    moreover have "encode_tabular r ss out = Inr t" using 2(3) False by simp
    ultimately show ?thesis using 2(1) [OF False _ 2(4) _ 2(6)] by blast
  qed
qed simp

definition item_granted :: "entry \<Rightarrow> bool \<Rightarrow> row \<Rightarrow> bool" where
  "item_granted e create item \<longleftrightarrow>
     list_all (\<lambda>(c, v).
       c = okey e \<or> c \<in> granted_columns (if create then ainsert else aupdate) (oattributes e)
       \<or> c = tabular_key \<and> (\<exists>t. v = JObj t \<and> list_all (\<lambda>(n, w). section_granted (osections e) n w) t)) item"

text \<open>
  C28. The item that a save hands to the kernel writes only what the catalog grants: the key,
  columns that the operation may insert or update, and under \<open>tabular\<close> rows of tables of the
  object's sections, each with its key and insertable columns of that section.
\<close>

theorem encode_item_granted:
  assumes "encode_item e create i draft = Inr item" "object_keys_distinct (JObj draft)"
  shows "item_granted e create item"
proof -
  define ok where "ok = (\<lambda>(c, v :: jval). c = okey e
      \<or> c \<in> granted_columns (if create then ainsert else aupdate) (oattributes e))"
  have inside: "object_keys_distinct (get draft k)" for k
    using assms(2) by (auto simp: get_def list_all_iff dest: map_of_SomeD split: option.splits)
  obtain head where head: "with_tabular e (get draft sections_word) head = Inr item"
    and plain: "list_all ok head"
  proof (cases "get draft values_key = JUndef")
    case True
    with assms(1) show ?thesis by (intro that [of "[(okey e, JStr i)]"]) (auto simp: encode_item_def ok_def)
  next
    case False
    then obtain cols where cols: "with_tabular e (get draft sections_word) (set_keys cols [(okey e, JStr i)]) = Inr item"
      "encode_attributes (oattributes e) (get draft values_key)
        \<lparr>allowed = (if create then ainsert else aupdate), forced = [], opath = values_key, oprefix = [],
         row_key = None\<rparr> = Inr cols"
      using assms(1) by (auto simp: encode_item_def bindE_eq_Inr split: jval.splits)
    have keys: "distinct (map fst r)" if "get draft values_key = JObj r" for r
      using inside [of values_key] that by simp
    have "fst ` set cols \<subseteq> granted_columns (if create then ainsert else aupdate) (oattributes e)"
      using encode_attributes_columns [OF cols(2)] keys by simp
    then have "list_all ok (set_keys cols [(okey e, JStr i)])"
      unfolding ok_def using set_keys_dom [of cols "[(okey e, JStr i)]"]
      by (intro list_all_keys [of _ "insert (okey e) (granted_columns (if create then ainsert else aupdate) (oattributes e))"])
        auto
    with cols(1) show ?thesis by (rule that)
  qed
  show ?thesis
  proof (cases "get draft sections_word")
    case (JObj r)
    then obtain t where t: "encode_tabular r (osections e) [] = Inr t" "item = set_key tabular_key (JObj t) head"
      using head by (auto simp: with_tabular_def bindE_eq_Inr split: option.splits)
    have "\<forall>(n, v) \<in> set t. section_granted (osections e) n v"
      using encode_tabular_granted [OF t(1)] inside [of sections_word] JObj by simp
    then show ?thesis
      using t(2) plain set_set_key [of tabular_key "JObj t" head]
      by (force simp: item_granted_def ok_def list_all_iff)
  qed (use head plain in \<open>auto simp: with_tabular_def item_granted_def ok_def list_all_iff\<close>)
qed

definition product_draft :: row where
  "product_draft =
     [(js ''values'', JObj [(js ''fullName'', JStr (js ''box'')), (js ''price'', JStr (js ''1.50''))]),
      (js ''tabularSections'', JObj [(js ''packing'', JArr [JObj
        [(js ''id'', JStr (js ''00000000-0000-0000-0000-000000000001'')), (js ''boxCount'', JNum (Dec 3 0))]])])]"

lemma encode_item_granted_witness:
  "item_granted product_entry True
     [(js ''id'', JStr (js ''41'')), (js ''full_name'', JStr (js ''box'')), (js ''unit_price'', JStr (js ''1.50'')),
      (js ''tabular'', JObj [(js ''product_packing'', JArr [JObj
        [(js ''id'', JStr (js ''00000000-0000-0000-0000-000000000001'')), (js ''box_count'', JNum (Dec 3 0))]])])]"
  by (rule encode_item_granted [where draft = product_draft and i = "js ''41''"]) (code_simp, code_simp)

subsection \<open>Rows of the core\<close>

definition decode_safe_integer :: "jval \<Rightarrow> jval option" where
  "decode_safe_integer v =
     (case v of
        JStr s \<Rightarrow>
          if integer_text s \<and> safe_integer (Dec (int_of_text s) 0) then Some (JNum (Dec (int_of_text s) 0)) else None
      | JNum n \<Rightarrow> if safe_integer n then Some v else None
      | _ \<Rightarrow> None)"

definition core_scalar :: "attribute \<Rightarrow> jval \<Rightarrow> jval option" where
  "core_scalar a v =
     (if atype a = Logical TBigInt then
        (case v of JStr s \<Rightarrow> if integer_text s then Some (JBig (int_of_text s)) else None | _ \<Rightarrow> None)
      else case (atype a, aenum a) of
        (Logical TRef, Some vs) \<Rightarrow>
          (case v of
             JStr s \<Rightarrow> map_option (\<lambda>nl. JStr (fst nl)) (find (\<lambda>nl. snd nl = s) vs)
           | _ \<Rightarrow> None)
      | _ \<Rightarrow> Some v)"

fun all_some :: "'a option list \<Rightarrow> 'a list option" where
  "all_some [] = Some []"
| "all_some (None # xs) = None"
| "all_some (Some x # xs) = map_option (\<lambda>ys. x # ys) (all_some xs)"

definition core_value :: "attribute \<Rightarrow> row \<Rightarrow> jval option" where
  "core_value a r =
     (let v = get r (acolumn a)
      in case apair a of
           Some p \<Rightarrow>
             (let label = get r (type_column p)
              in if v = JNull \<and> label = JNull then Some JNull
                 else (case label of
                   JStr l \<Rightarrow>
                     map_option (\<lambda>t. JObj [(js ''type'', JStr (ref_key (fst t))), (js ''id'', v)])
                       (find (\<lambda>t. snd t = l) (targets p))
                 | _ \<Rightarrow> None))
         | None \<Rightarrow>
             if v = JNull then Some JNull
             else if aarray a then
               (case v of
                  JArr vs \<Rightarrow>
                    map_option JArr (all_some (map (\<lambda>x. if x = JNull \<or> x = JHole then Some x else core_scalar a x) vs))
                | _ \<Rightarrow> None)
             else core_scalar a v)"

fun decode_core_attributes :: "attribute list \<Rightarrow> row \<Rightarrow> row \<Rightarrow> row option" where
  "decode_core_attributes [] r out = Some out"
| "decode_core_attributes (a # as) r out =
     (if \<not> own r (acolumn a) then decode_core_attributes as r out
      else case core_value a r of
        None \<Rightarrow> None
      | Some v \<Rightarrow> decode_core_attributes as r (set_key (aname a) v out))"

definition decode_level :: "attribute list \<Rightarrow> jstr \<Rightarrow> jstr \<Rightarrow> row \<Rightarrow> row option" where
  "decode_level attrs key name r =
     decode_core_attributes attrs r (if own r key then [(name, get r key)] else [])"

definition decode_optional_integer :: "row \<Rightarrow> jstr \<Rightarrow> jstr \<Rightarrow> row \<Rightarrow> row option" where
  "decode_optional_integer r column name out =
     (if \<not> own r column then Some out
      else map_option (\<lambda>v. set_key name v out) (decode_safe_integer (get r column)))"

definition decode_head :: "entry \<Rightarrow> jval \<Rightarrow> row option" where
  "decode_head e v =
     (case v of
        JObj r \<Rightarrow>
          Option.bind (decode_level (oattributes e) (okey e) (okey_name e) r)
            (decode_optional_integer r (oversion e) (oversion_name e))
      | _ \<Rightarrow> None)"

definition decode_core_line :: "tabular_section \<Rightarrow> jval \<Rightarrow> row option" where
  "decode_core_line s v =
     (case v of
        JObj r \<Rightarrow>
          Option.bind (decode_level (sattributes s) (skey s) (skey_name s) r) (\<lambda>line.
            decode_optional_integer r (sline s) (sline_name s)
              (if own r (sparent s) then set_key (sparent_name s) (get r (sparent s)) line else line))
      | _ \<Rightarrow> None)"

fun decode_core_sections :: "row \<Rightarrow> tabular_section list \<Rightarrow> row \<Rightarrow> row option" where
  "decode_core_sections t [] out = Some out"
| "decode_core_sections t (s # ss) out =
     (case get t (snd (stable s)) of
        JUndef \<Rightarrow> decode_core_sections t ss out
      | JArr vs \<Rightarrow>
          (case all_some (map (\<lambda>v. if v = JHole then Some JHole else map_option JObj (decode_core_line s v)) vs) of
             None \<Rightarrow> None
           | Some lines \<Rightarrow> decode_core_sections t ss (set_key (sname s) (JArr lines) out))
      | _ \<Rightarrow> None)"

definition decode_record :: "entry \<Rightarrow> jval \<Rightarrow> row option" where
  "decode_record e v =
     Option.bind (decode_head e v) (\<lambda>out.
       case v of
         JObj r \<Rightarrow> (case get r tabular_key of JObj t \<Rightarrow> decode_core_sections t (osections e) out | _ \<Rightarrow> Some out)
       | _ \<Rightarrow> None)"

text \<open>\<open>decodeRow\<close> and \<open>decodeCardRow\<close>: a core row and the head of a card, from their text.\<close>

definition decode_core_row :: "entry \<Rightarrow> jstr \<Rightarrow> row option" where
  "decode_core_row e t = Option.bind (json_value t) (decode_record e)"

definition decode_card_row :: "entry \<Rightarrow> jstr \<Rightarrow> row option" where
  "decode_card_row e t = Option.bind (json_value t) (decode_head e)"

end
