(* ===== verification/ReadFilter.thy ===== *)
theory ReadFilter
  imports Queries ServerValues
begin

section \<open>Filters of the server as SQL\<close>

text \<open>
  \<open>server/read-filter.ts\<close>: a filter tree is checked against the columns of the catalog and
  rendered as a condition. A condition is a list of parts, fixed text of the catalog and values
  still to be bound; the values are bound only after the whole tree was checked. The SQL of a
  statement is a list of pieces that tells its text from the placeholders \<open>$n\<close>; \<open>sql_text\<close> is the
  string of the code.
\<close>

subsection \<open>SQL with placeholders\<close>

definition ident :: "jstr \<Rightarrow> jstr" where
  "ident n = 34 # double_unit 34 n @ [34]"

text \<open>A fixed text, or the placeholder of a parameter with the cast that follows it.\<close>

datatype piece = Lit jstr | Slot nat "jstr option"

type_synonym sql = "piece list"

fun piece_text :: "piece \<Rightarrow> jstr" where
  "piece_text (Lit s) = s"
| "piece_text (Slot n cast) = 36 # show_nat n @ (case cast of None \<Rightarrow> [] | Some c \<Rightarrow> js ''::'' @ c)"

definition sql_text :: "sql \<Rightarrow> jstr" where
  "sql_text ps = concat (map piece_text ps)"

definition lit :: "string \<Rightarrow> sql" where
  "lit s = [Lit (js s)]"

definition slots :: "sql \<Rightarrow> nat set" where
  "slots ps = {n. \<exists>cast. Slot n cast \<in> set ps}"

lemma slots_simps [simp]:
  "slots [] = {}" "slots (Lit s # ps) = slots ps" "slots (Slot n cast # ps) = insert n (slots ps)"
  "slots (ps @ qs) = slots ps \<union> slots qs" "slots (lit t) = {}"
  by (auto simp: slots_def lit_def)

text \<open>\<open>binder\<close>: a value becomes the next parameter.\<close>

type_synonym params = "jstr option list"

definition bind_param :: "jstr option \<Rightarrow> jstr option \<Rightarrow> params \<Rightarrow> piece \<times> params" where
  "bind_param v cast ps = (Slot (length ps + 1) cast, ps @ [v])"

subsection \<open>Columns that a filter may name\<close>

datatype filter_kind = KeyColumn | ParentColumn | VersionColumn | LineColumn | AttributeColumn attribute

record filter_column =
  fc_name :: jstr
  fc_column :: jstr
  fc_cast :: jstr
  fc_kind :: filter_kind
  fc_lazy :: bool

type_synonym filter_columns = "(jstr \<times> filter_column) list"

definition fc_type :: "filter_column \<Rightarrow> attribute_type option" where
  "fc_type c = (case fc_kind c of AttributeColumn a \<Rightarrow> Some (atype a) | _ \<Rightarrow> None)"

definition fc_array :: "filter_column \<Rightarrow> bool" where
  "fc_array c = (case fc_kind c of AttributeColumn a \<Rightarrow> aarray a | _ \<Rightarrow> False)"

definition fc_pair :: "filter_column \<Rightarrow> pair_columns option" where
  "fc_pair c = (case fc_kind c of AttributeColumn a \<Rightarrow> apair a | _ \<Rightarrow> None)"

text \<open>\<open>allows\<close>\<close>

definition allows :: "filter_column \<Rightarrow> filter_operator \<Rightarrow> bool" where
  "allows c operator =
     (case operator of
        OpIsNull \<Rightarrow> True
      | OpContains \<Rightarrow> fc_type c \<in> {Some (Logical TString), Some (Logical TText)} \<and> \<not> fc_array c
      | OpStartsWith \<Rightarrow> fc_type c \<in> {Some (Logical TString), Some (Logical TText)} \<and> \<not> fc_array c
      | OpEq \<Rightarrow> \<not> fc_array c \<and> fc_type c \<notin> {Some (Logical TJson), Some Raw}
      | OpNe \<Rightarrow> \<not> fc_array c \<and> fc_type c \<notin> {Some (Logical TJson), Some Raw}
      | OpIn \<Rightarrow> \<not> fc_array c \<and> fc_type c \<notin> {Some (Logical TJson), Some Raw}
      | _ \<Rightarrow> \<not> fc_array c \<and> fc_pair c = None
          \<and> fc_type c \<notin> {Some (Logical TJson), Some (Logical TBytes), Some Raw})"

subsection \<open>Values\<close>

datatype part = Fixed jstr | Value "jstr option" jstr

definition refusal_at :: "jstr \<Rightarrow> jstr option \<Rightarrow> command_error" where
  "refusal_at path reason = (invalid path)\<lparr>ereason := reason\<rparr>"

definition use_is_null :: jstr where "use_is_null = js ''use-isNull''"
definition lazy_word :: jstr where "lazy_word = js ''lazy''"

text \<open>\<open>scalar\<close>: a value as the text of a parameter. Attributes of a pair do not reach it.\<close>

definition filter_scalar :: "filter_column \<Rightarrow> jval \<Rightarrow> jstr \<Rightarrow> command_error + jstr" where
  "filter_scalar c v path =
     (case fc_kind c of
        AttributeColumn a \<Rightarrow>
          (case encode_param a v path of
             Inr (Some s) \<Rightarrow> Inr s
           | _ \<Rightarrow> Inl (refusal_at path None))
      | VersionColumn \<Rightarrow>
          (case v of
             JNum n \<Rightarrow> if safe_integer n then Inr (num_text n) else Inl (refusal_at path None)
           | _ \<Rightarrow> Inl (refusal_at path None))
      | LineColumn \<Rightarrow>
          (case v of
             JNum n \<Rightarrow>
               if is_within_type (plain_type TInteger) (DNum n) then Inr (num_text n)
               else Inl (refusal_at path None)
           | _ \<Rightarrow> Inl (refusal_at path None))
      | _ \<Rightarrow>
          (case v of
             JStr s \<Rightarrow> if uuid_text s then Inr s else Inl (refusal_at path None)
           | _ \<Rightarrow> Inl (refusal_at path None)))"

definition label_cast :: jstr where "label_cast = js ''text''"

definition string_of :: "jval \<Rightarrow> jstr option" where
  "string_of v = (case v of JStr s \<Rightarrow> Some s | _ \<Rightarrow> None)"

definition pair_equals :: "filter_column \<Rightarrow> attribute \<Rightarrow> pair_columns \<Rightarrow> jval \<Rightarrow> jstr \<Rightarrow> command_error + part list" where
  "pair_equals c a p v path =
     (case encode_pair a v path of
        Inl _ \<Rightarrow> Inl (refusal_at path None)
      | Inr (label, i) \<Rightarrow>
          Inr [Fixed (40 # ident (type_column p) @ js '' = ''), Value (string_of label) label_cast,
            Fixed (js '' AND '' @ ident (fc_column c) @ js '' = ''), Value (string_of i) (fc_cast c), Fixed (js '')'')])"

text \<open>\<open>escapePattern\<close>\<close>

definition escape_pattern :: "jstr \<Rightarrow> jstr" where
  "escape_pattern s = concat (map (\<lambda>c. if c \<in> {92, 37, 95} then [92, c] else [c]) s)"

subsection \<open>Conditions\<close>

definition not_null :: "jval \<Rightarrow> jstr \<Rightarrow> jstr option \<Rightarrow> command_error + jval" where
  "not_null v path reason = (if v = JNull then Inl (refusal_at path reason) else Inr v)"

lemma not_null_Inr [simp]: "not_null v path reason = Inr w \<longleftrightarrow> v \<noteq> JNull \<and> w = v"
  by (auto simp: not_null_def)

text \<open>The items of an array with their indices; \<open>map\<close> and \<open>flatMap\<close> skip its holes.\<close>

definition items_of :: "jval list \<Rightarrow> (nat \<times> jval) list" where
  "items_of vs = filter (\<lambda>(i, v). v \<noteq> JHole) (enumerate 0 vs)"

definition glue_parts :: "jstr \<Rightarrow> (nat \<times> part list) list \<Rightarrow> part list" where
  "glue_parts sep pss = concat (map (\<lambda>(i, ps). if i = 0 then ps else Fixed sep # ps) pss)"

definition in_item :: "filter_column \<Rightarrow> jstr \<Rightarrow> nat \<times> jval \<Rightarrow> command_error + nat \<times> part list" where
  "in_item c path item =
     (case item of (i, v) \<Rightarrow>
        bindE
          (case (fc_kind c, fc_pair c) of
             (AttributeColumn a, Some p) \<Rightarrow> pair_equals c a p v (at_index path i)
           | _ \<Rightarrow> bindE (filter_scalar c v (at_index path i)) (\<lambda>s. Inr [Value (Some s) (fc_cast c)]))
          (\<lambda>ps. Inr (i, ps)))"

definition present_item :: "jstr \<Rightarrow> nat \<times> jval \<Rightarrow> command_error + nat \<times> jval" where
  "present_item path item =
     (case item of (i, v) \<Rightarrow> bindE (not_null v (at_index path i) (Some use_is_null)) (\<lambda>v. Inr (i, v)))"

definition in_parts :: "filter_column \<Rightarrow> jval list \<Rightarrow> jstr \<Rightarrow> command_error + part list" where
  "in_parts c vs path =
     bindE (mapE (present_item path) (items_of vs)) (\<lambda>items.
     bindE (mapE (in_item c path) items) (\<lambda>pss.
       Inr (if fc_pair c \<noteq> None then Fixed (js ''('') # glue_parts (js '' OR '') pss @ [Fixed (js '')'')]
         else Fixed (ident (fc_column c) @ js '' = ANY(ARRAY['') # glue_parts (js '', '') pss @ [Fixed (js ''])'')])))"

definition pattern_parts :: "filter_column \<Rightarrow> bool \<Rightarrow> jval \<Rightarrow> jstr \<Rightarrow> command_error + part list" where
  "pattern_parts c anywhere v path =
     bindE (not_null v path None) (\<lambda>v.
     bindE (filter_scalar c v path) (\<lambda>s.
       Inr [Fixed (ident (fc_column c) @ js '' ILIKE ''),
         Value (Some ((if anywhere then [37] else []) @ escape_pattern s @ [37])) (js ''text'')]))"

definition comparison :: "filter_operator \<Rightarrow> jstr" where
  "comparison operator =
     (case operator of
        OpEq \<Rightarrow> js ''='' | OpNe \<Rightarrow> js ''<>'' | OpLt \<Rightarrow> js ''<'' | OpLte \<Rightarrow> js ''<='' | OpGt \<Rightarrow> js ''>''
      | OpGte \<Rightarrow> js ''>='' | _ \<Rightarrow> js ''undefined'')"

definition compare_parts :: "filter_column \<Rightarrow> filter_operator \<Rightarrow> jval \<Rightarrow> jstr \<Rightarrow> command_error + part list" where
  "compare_parts c operator v path =
     bindE (not_null v path (if operator = OpEq \<or> operator = OpNe then Some use_is_null else None)) (\<lambda>v.
       case (fc_kind c, fc_pair c) of
         (AttributeColumn a, Some p) \<Rightarrow>
           bindE (pair_equals c a p v path) (\<lambda>ps. Inr (if operator = OpEq then ps else Fixed (js ''NOT '') # ps))
       | _ \<Rightarrow>
           bindE (filter_scalar c v path) (\<lambda>s.
             Inr [Fixed (ident (fc_column c) @ 32 # comparison operator @ [32]), Value (Some s) (fc_cast c)]))"

definition null_parts :: "filter_column \<Rightarrow> part list" where
  "null_parts c =
     (let name = ident (fc_column c)
      in [Fixed (case fc_pair c of
            None \<Rightarrow> name @ js '' IS NULL''
          | Some p \<Rightarrow> 40 # ident (type_column p) @ js '' IS NULL AND '' @ name @ js '' IS NULL)'')])"

text \<open>\<open>condition\<close>; the schema has checked that the value of \<open>in\<close> is an array.\<close>

definition condition_parts :: "filter_columns \<Rightarrow> jstr \<Rightarrow> jstr \<Rightarrow> filter_operator \<Rightarrow> jval \<Rightarrow> command_error + part list" where
  "condition_parts cols path n operator v =
     (case map_of cols n of
        None \<Rightarrow> Inl (refusal_at (path @ js ''.attribute'') None)
      | Some c \<Rightarrow>
          if fc_lazy c then Inl (refusal_at (path @ js ''.attribute'') (Some lazy_word))
          else if \<not> allows c operator then Inl (refusal_at (path @ js ''.op'') None)
          else (let value_path = path @ js ''.value''
                in case operator of
                     OpIsNull \<Rightarrow> Inr (null_parts c)
                   | OpIn \<Rightarrow> in_parts c (case v of JArr vs \<Rightarrow> vs | _ \<Rightarrow> []) value_path
                   | OpContains \<Rightarrow> pattern_parts c True v value_path
                   | OpStartsWith \<Rightarrow> pattern_parts c False v value_path
                   | _ \<Rightarrow> compare_parts c operator v value_path))"

fun filter_parts :: "filter_columns \<Rightarrow> jstr \<Rightarrow> read_filter \<Rightarrow> command_error + part list"
and filter_children :: "filter_columns \<Rightarrow> jstr \<Rightarrow> nat \<Rightarrow> read_filter list \<Rightarrow> command_error + (nat \<times> part list) list"
where
  "filter_parts cols path (FNot f) =
     bindE (filter_parts cols (path @ js ''.not'') f) (\<lambda>ps. Inr (Fixed (js ''NOT ('') # ps @ [Fixed (js '')'')]))"
| "filter_parts cols path (FAnd fs) =
     bindE (filter_children cols (path @ js ''.and'') 0 fs) (\<lambda>pss.
       Inr (Fixed (js ''('') # glue_parts (js '' AND '') pss @ [Fixed (js '')'')]))"
| "filter_parts cols path (FOr fs) =
     bindE (filter_children cols (path @ js ''.or'') 0 fs) (\<lambda>pss.
       Inr (Fixed (js ''('') # glue_parts (js '' OR '') pss @ [Fixed (js '')'')]))"
| "filter_parts cols path (FCond n operator v) = condition_parts cols path n operator v"
| "filter_children cols path i [] = Inr []"
| "filter_children cols path i (f # fs) =
     bindE (filter_parts cols (at_index path i) f) (\<lambda>ps.
     bindE (filter_children cols path (i + 1) fs) (\<lambda>pss. Inr ((i, ps) # pss)))"

text \<open>\<open>renderFilter\<close>: the parts are bound from left to right.\<close>

fun bind_parts :: "part list \<Rightarrow> params \<Rightarrow> sql \<times> params" where
  "bind_parts [] ps = ([], ps)"
| "bind_parts (Fixed s # parts) ps = (case bind_parts parts ps of (sql, ps) \<Rightarrow> (Lit s # sql, ps))"
| "bind_parts (Value v cast # parts) ps =
     (case bind_param v (Some cast) ps of
        (p, ps) \<Rightarrow> (case bind_parts parts ps of (sql, ps) \<Rightarrow> (p # sql, ps)))"

definition render_filter :: "filter_columns \<Rightarrow> jstr \<Rightarrow> read_filter \<Rightarrow> params \<Rightarrow> command_error + sql \<times> params" where
  "render_filter cols path f ps = bindE (filter_parts cols path f) (\<lambda>parts. Inr (bind_parts parts ps))"

text \<open>\<open>topLevelParentEq\<close>: \<open>None\<close> is \<open>undefined\<close>, also for a condition whose value is that.\<close>

fun parent_eq_of :: "jstr \<Rightarrow> read_filter list \<Rightarrow> jval" where
  "parent_eq_of name [] = JUndef"
| "parent_eq_of name (FCond n operator v # fs) =
     (if n = name \<and> operator = OpEq then v else parent_eq_of name fs)"
| "parent_eq_of name (f # fs) = parent_eq_of name fs"

definition top_level_parent_eq :: "read_filter option \<Rightarrow> jstr \<Rightarrow> jval" where
  "top_level_parent_eq f name =
     (case f of
        None \<Rightarrow> JUndef
      | Some (FAnd fs) \<Rightarrow> parent_eq_of name fs
      | Some f \<Rightarrow> parent_eq_of name [f])"

end
