(* ===== verification/CommandQueue.thy ===== *)
theory CommandQueue
  imports ServerErrors "HOL-Library.Sublist"
begin

section \<open>The statement queue of a command attempt\<close>

text \<open>
  The class \<open>Transaction\<close> of \<open>server/transaction.ts\<close>. Units of statements are chained on the
  promise \<open>tail\<close>; the code between two suspension points of \<open>enqueue\<close> is one step here. Hooks
  run between the steps: they enqueue further units, log, and may close the queue at any of them, so
  the step relation interleaves both with the work of the queue. The clock and the answers of
  the port are arbitrary.
\<close>

subsection \<open>Failures of the port\<close>

record terminal =
  tfailure :: command_error
  tretry :: bool
  tdestroy :: bool
  tcode :: "jstr option"

definition retry_codes :: "jstr list" where "retry_codes = [js ''40001'', js ''40P01'']"
definition session_timeout_codes :: "jstr list" where "session_timeout_codes = [js ''25P03'', js ''25P04'']"
definition deadlock_code :: jstr where "deadlock_code = js ''40P01''"
definition timeout_error :: command_error where "timeout_error = error_of ''command.timeout''"

definition plain_terminal :: "command_error \<Rightarrow> terminal" where
  "plain_terminal x = \<lparr>tfailure = x, tretry = False, tdestroy = False, tcode = None\<rparr>"

text \<open>
  \<open>pauseOf\<close>: milliseconds before the next attempt; \<open>random\<close> is what \<open>Math.random()\<close> gave.
\<close>

definition pause_of :: "jstr option \<Rightarrow> nat \<Rightarrow> rat \<Rightarrow> rat" where
  "pause_of code n random =
     (if code \<noteq> Some deadlock_code then 0
      else (let pause = 20 * 2 ^ (n - 1) in pause + random * pause))"

text \<open>\<open>terminalOf\<close>: the outcome of the attempt, and whether the error goes to the log.\<close>

definition terminal_of :: "entry list \<Rightarrow> error_phase option \<Rightarrow> bool \<Rightarrow> thrown \<Rightarrow> terminal \<times> bool" where
  "terminal_of catalog phase commit_sent raw =
     (let e = normalize_error raw; code = dcode e;
          session_timeout = (case code of None \<Rightarrow> False | Some c \<Rightarrow> c \<in> set session_timeout_codes);
          closed = dlost e \<or> session_timeout
      in if commit_sent \<and> closed then
           (let mapped = error_of ''command.unavailable''
            in (\<lparr>tfailure = mapped, tretry = False, tdestroy = True, tcode = code\<rparr>, logs_database_error e mapped))
         else if \<not> dlost e \<and> (case code of None \<Rightarrow> False | Some c \<Rightarrow> c \<in> set retry_codes) then
           (\<lparr>tfailure = error_of ''command.retry-exhausted'', tretry = True, tdestroy = False, tcode = code\<rparr>, False)
         else if session_timeout then
           (\<lparr>tfailure = timeout_error, tretry = False, tdestroy = True, tcode = code\<rparr>, False)
         else
           (let mapped = map_database_error catalog phase e
            in (\<lparr>tfailure = mapped, tretry = False, tdestroy = dlost e, tcode = code\<rparr>, logs_database_error e mapped)))"

subsection \<open>Statements\<close>

record statement =
  stext :: jstr
  sparams :: "jstr option list"

definition plain_statement :: "jstr \<Rightarrow> statement" where
  "plain_statement t = \<lparr>stext = t, sparams = []\<rparr>"

record query_result =
  qrows :: "row list"
  qcommand :: jstr

definition begin_statement :: statement where
  "begin_statement = plain_statement (js ''BEGIN ISOLATION LEVEL READ COMMITTED'')"

definition commit_statement :: statement where
  "commit_statement = plain_statement (js ''COMMIT'')"

definition rollback_statement :: statement where
  "rollback_statement = plain_statement (js ''ROLLBACK'')"

definition statement_timeout_text :: jstr where
  "statement_timeout_text = js ''SELECT set_config('' @ sql_literal (js ''statement_timeout'') @ js '', $1, true)''"

definition bound_statement :: "int \<Rightarrow> statement" where
  "bound_statement ms = \<lparr>stext = statement_timeout_text, sparams = [Some (show_int ms)]\<rparr>"

definition timeout_ms :: "rat \<Rightarrow> int" where
  "timeout_ms remaining = max 1 \<lceil>remaining\<rceil>"

definition statement_ceiling :: int where "statement_ceiling = 30000"

subsection \<open>The state of the queue\<close>

text \<open>
  A job is a unit with the phase of its errors; a job of \<open>claims()\<close> carries the limit that is
  in force once it succeeded.
\<close>

record job =
  jstatements :: "statement list"
  jphase :: "error_phase option"
  jclaims :: "int option"

text \<open>
  Where the loop of the running unit stands, with the statements that are left and the last
  result: before the test of \<open>terminal\<close>, waiting for the answer of the lower limit, between the
  limit and the statement, waiting for the answer of the statement.
\<close>

datatype stage =
    Idle
  | Check job "statement list" query_result
  | Limit job "statement list" int
  | Ready job "statement list"
  | Sent job "statement list"

datatype sent_statement = Bound int | Work statement

type_synonym job_result = "command_error + query_result"

record queue =
  terminal :: "terminal option"
  limit_ms :: "int option"
  commit_sent :: bool
  sent :: "sent_statement list"
  logged :: nat
  results :: "job_result list"
  running :: stage
  pending :: "job list"
  accepted :: "job list"

definition empty_queue :: queue where
  "empty_queue =
     \<lparr>terminal = None, limit_ms = None, commit_sent = False, sent = [], logged = 0, results = [],
      running = Idle, pending = [], accepted = []\<rparr>"

text \<open>\<open>close\<close>: the first failure decides the attempt.\<close>

definition close_queue :: "terminal \<Rightarrow> queue \<Rightarrow> queue" where
  "close_queue t s = s\<lparr>terminal := (case terminal s of None \<Rightarrow> Some t | Some t' \<Rightarrow> Some t')\<rparr>"

definition enqueue_job :: "job \<Rightarrow> queue \<Rightarrow> queue" where
  "enqueue_job j s = s\<lparr>pending := pending s @ [j], accepted := accepted s @ [j]\<rparr>"

definition settle :: "job_result \<Rightarrow> queue \<Rightarrow> queue" where
  "settle r s = s\<lparr>results := results s @ [r], running := Idle\<rparr>"

definition log_error :: "bool \<Rightarrow> queue \<Rightarrow> queue" where
  "log_error b s = (if b then s\<lparr>logged := logged s + 1\<rparr> else s)"

text \<open>The \<open>catch\<close> of \<open>send\<close>.\<close>

definition fail_statement :: "entry list \<Rightarrow> job \<Rightarrow> thrown \<Rightarrow> queue \<Rightarrow> queue" where
  "fail_statement catalog j raw s =
     (let (t, b) = terminal_of catalog (jphase j) (commit_sent s) raw
      in settle (Inl (tfailure t)) (close_queue t (log_error b s)))"

subsection \<open>Steps\<close>

definition take_job :: "queue \<Rightarrow> queue" where
  "take_job s =
     (case pending s of
        [] \<Rightarrow> s
      | j # jobs \<Rightarrow> s\<lparr>running := Check j (jstatements j) \<lparr>qrows = [], qcommand = []\<rparr>, pending := jobs\<rparr>)"

text \<open>
  The head of the loop and \<open>budget\<close>, up to its first suspension: with no statement left the unit
  resolves to its last result; a closed queue or a spent budget rejects it; a limit above the
  remaining time is lowered first.
\<close>

definition check_step :: "rat \<Rightarrow> rat \<Rightarrow> job \<Rightarrow> statement list \<Rightarrow> query_result \<Rightarrow> queue \<Rightarrow> queue" where
  "check_step deadline now j rest res s =
     (if rest = [] then
        settle (Inr res) (case jclaims j of None \<Rightarrow> s | Some ms \<Rightarrow> s\<lparr>limit_ms := Some ms\<rparr>)
      else case terminal s of
        Some t \<Rightarrow> settle (Inl (tfailure t)) s
      | None \<Rightarrow>
          (let remaining = deadline - now; ms = timeout_ms remaining
           in if remaining \<le> 1 then settle (Inl timeout_error) (close_queue (plain_terminal timeout_error) s)
              else case limit_ms s of
                Some limit \<Rightarrow>
                  if ms < limit then s\<lparr>running := Limit j rest ms, sent := sent s @ [Bound ms]\<rparr>
                  else s\<lparr>running := Ready j rest\<rparr>
              | None \<Rightarrow> s\<lparr>running := Ready j rest\<rparr>))"

definition limit_step :: "entry list \<Rightarrow> job \<Rightarrow> statement list \<Rightarrow> int \<Rightarrow> thrown + query_result \<Rightarrow> queue \<Rightarrow> queue" where
  "limit_step catalog j rest ms answer s =
     (case answer of
        Inl raw \<Rightarrow> fail_statement catalog j raw s
      | Inr _ \<Rightarrow> s\<lparr>limit_ms := Some ms, running := Ready j rest\<rparr>)"

definition send_step :: "job \<Rightarrow> statement list \<Rightarrow> queue \<Rightarrow> queue" where
  "send_step j rest s =
     s\<lparr>commit_sent := (commit_sent s \<or> stext (hd rest) = stext commit_statement),
       sent := sent s @ [Work (hd rest)], running := Sent j (tl rest)\<rparr>"

definition answer_step :: "entry list \<Rightarrow> job \<Rightarrow> statement list \<Rightarrow> thrown + query_result \<Rightarrow> queue \<Rightarrow> queue" where
  "answer_step catalog j rest answer s =
     (case answer of
        Inl raw \<Rightarrow> fail_statement catalog j raw s
      | Inr r \<Rightarrow> s\<lparr>running := Check j rest r\<rparr>)"

text \<open>One step of the queue itself, with the time and the answer it meets.\<close>

definition advance_queue :: "entry list \<Rightarrow> rat \<Rightarrow> rat \<Rightarrow> thrown + query_result \<Rightarrow> queue \<Rightarrow> queue" where
  "advance_queue catalog deadline now answer s =
     (case running s of
        Idle \<Rightarrow> take_job s
      | Check j rest res \<Rightarrow> check_step deadline now j rest res s
      | Limit j rest ms \<Rightarrow> limit_step catalog j rest ms answer s
      | Ready j rest \<Rightarrow> send_step j rest s
      | Sent j rest \<Rightarrow> answer_step catalog j rest answer s)"

definition settled :: "queue \<Rightarrow> bool" where
  "settled s \<longleftrightarrow> running s = Idle \<and> pending s = []"

inductive queue_step :: "entry list \<Rightarrow> rat \<Rightarrow> queue \<Rightarrow> queue \<Rightarrow> bool" for catalog deadline where
  Advance: "\<not> settled s \<Longrightarrow> queue_step catalog deadline s (advance_queue catalog deadline now answer s)"
| Enqueue: "queue_step catalog deadline s (enqueue_job j s)"
| Close: "queue_step catalog deadline s (close_queue t s)"
| Log: "queue_step catalog deadline s (log_error b s)"

inductive_cases queue_stepE: "queue_step catalog deadline s s'"

abbreviation queue_run :: "entry list \<Rightarrow> rat \<Rightarrow> queue \<Rightarrow> queue \<Rightarrow> bool" where
  "queue_run catalog deadline \<equiv> (queue_step catalog deadline)\<^sup>*\<^sup>*"

lemmas queue_defs = advance_queue_def take_job_def check_step_def limit_step_def send_step_def answer_step_def
  fail_statement_def settle_def log_error_def close_queue_def enqueue_job_def

lemma queue_run_invariant:
  assumes "queue_run catalog deadline s s'" "P s"
    "\<And>x now answer. P x \<Longrightarrow> \<not> settled x \<Longrightarrow> P (advance_queue catalog deadline now answer x)"
    "\<And>x j. P x \<Longrightarrow> P (enqueue_job j x)"
    "\<And>x t. P x \<Longrightarrow> P (close_queue t x)"
    "\<And>x b. P x \<Longrightarrow> P (log_error b x)"
  shows "P s'"
  using assms(1,2) by (induction rule: rtranclp_induct) (auto elim!: queue_stepE intro: assms(3-6))

subsection \<open>The first failure closes the queue\<close>

lemma terminal_advance:
  "terminal s = Some t \<Longrightarrow> terminal (advance_queue catalog deadline now answer s) = Some t"
  by (simp add: queue_defs Let_def split: stage.split list.split sum.split prod.split option.split)

text \<open>Whether a statement has passed the test and is still to be sent.\<close>

definition past_test :: "queue \<Rightarrow> bool" where
  "past_test s \<longleftrightarrow> (case running s of Limit _ _ _ \<Rightarrow> True | Ready _ _ \<Rightarrow> True | _ \<Rightarrow> False)"

lemma closed_advance:
  assumes "terminal s = Some t"
  shows "sent (advance_queue catalog deadline now answer s) = sent s
    \<or> past_test s \<and> \<not> past_test (advance_queue catalog deadline now answer s)
      \<and> (\<exists>st. sent (advance_queue catalog deadline now answer s) = sent s @ [Work st])"
    "past_test (advance_queue catalog deadline now answer s) \<Longrightarrow> past_test s"
  using assms
  by (auto simp: queue_defs Let_def past_test_def
      split: stage.splits list.splits sum.splits prod.splits option.splits if_splits)

text \<open>
  C22. The first failure decides the attempt and closes the queue: whatever is enqueued, fails
  or is closed later, the recorded failure stays, and at most one more statement reaches the
  port, one that had already passed its test of the queue.
\<close>

theorem closed_queue:
  assumes "queue_run catalog deadline s s'" "terminal s = Some t"
  shows "terminal s' = Some t
    \<and> (sent s' = sent s \<or> past_test s \<and> (\<exists>st. sent s' = sent s @ [Work st]))"
proof -
  let ?P = "\<lambda>x. terminal x = Some t \<and> (sent x = sent s \<and> (past_test x \<longrightarrow> past_test s)
    \<or> past_test s \<and> \<not> past_test x \<and> (\<exists>st. sent x = sent s @ [Work st]))"
  have "?P s'"
  proof (rule queue_run_invariant [OF assms(1)])
    fix x now answer
    assume x: "?P x"
    then have t: "terminal x = Some t" by blast
    show "?P (advance_queue catalog deadline now answer x)"
      using x terminal_advance [OF t] closed_advance [OF t, of catalog deadline now answer] by force
  qed (use assms(2) in \<open>auto simp: enqueue_job_def close_queue_def log_error_def past_test_def\<close>)
  then show ?thesis by blast
qed

lemma closed_queue_witness:
  "\<exists>t. terminal (close_queue (plain_terminal timeout_error) empty_queue) = Some t
    \<and> terminal (enqueue_job \<lparr>jstatements = [commit_statement], jphase = None, jclaims = None\<rparr>
        (close_queue (plain_terminal timeout_error) empty_queue)) = Some t"
proof -
  let ?s = "close_queue (plain_terminal timeout_error) empty_queue"
  have "queue_run [] 0 ?s (enqueue_job \<lparr>jstatements = [commit_statement], jphase = None, jclaims = None\<rparr> ?s)"
    by (intro r_into_rtranclp queue_step.Enqueue)
  moreover have "terminal ?s = Some (plain_terminal timeout_error)"
    by (simp add: close_queue_def empty_queue_def)
  ultimately show ?thesis using closed_queue by blast
qed

subsection \<open>One unit after the other\<close>

text \<open>
  What the queue promises its callers, without the clock, the limits and the port: units run in
  the order in which they came, one at a time; a unit that resolves ran all its statements, one
  that is rejected ran some of them from the first on.
\<close>

record serial =
  todo :: "job list"
  current :: "(job \<times> statement list) option"
  ran :: "statement list"
  outcomes :: "job_result list"
  taken :: "job list"

inductive serial_step :: "serial \<Rightarrow> serial \<Rightarrow> bool" where
  Accept: "serial_step a (a\<lparr>todo := todo a @ [j], taken := taken a @ [j]\<rparr>)"
| Start: "current a = None \<Longrightarrow> todo a = j # jobs \<Longrightarrow>
    serial_step a (a\<lparr>todo := jobs, current := Some (j, jstatements j)\<rparr>)"
| Run: "current a = Some (j, st # rest) \<Longrightarrow> serial_step a (a\<lparr>current := Some (j, rest), ran := ran a @ [st]\<rparr>)"
| Finish: "current a = Some (j, []) \<Longrightarrow> serial_step a (a\<lparr>current := None, outcomes := outcomes a @ [Inr r]\<rparr>)"
| Abandon: "current a = Some (j, rest) \<Longrightarrow> serial_step a (a\<lparr>current := None, outcomes := outcomes a @ [Inl x]\<rparr>)"

inductive_cases serial_stepE: "serial_step a b"

fun works :: "sent_statement list \<Rightarrow> statement list" where
  "works [] = []"
| "works (Bound _ # xs) = works xs"
| "works (Work st # xs) = st # works xs"

lemma works_append [simp]: "works (xs @ ys) = works xs @ works ys"
  by (induction xs rule: works.induct) simp_all

definition running_part :: "queue \<Rightarrow> (job \<times> statement list) option" where
  "running_part s =
     (case running s of
        Idle \<Rightarrow> None
      | Check j rest _ \<Rightarrow> Some (j, rest)
      | Limit j rest _ \<Rightarrow> Some (j, rest)
      | Ready j rest \<Rightarrow> Some (j, rest)
      | Sent j rest \<Rightarrow> Some (j, rest))"

definition serial_of :: "queue \<Rightarrow> serial" where
  "serial_of s =
     \<lparr>todo = pending s, current = running_part s, ran = works (sent s), outcomes = results s, taken = accepted s\<rparr>"

definition stage_ok :: "queue \<Rightarrow> bool" where
  "stage_ok s \<longleftrightarrow> (case running s of Limit _ rest _ \<Rightarrow> rest \<noteq> [] | Ready _ rest \<Rightarrow> rest \<noteq> [] | _ \<Rightarrow> True)"

lemma stage_ok_advance: "stage_ok s \<Longrightarrow> stage_ok (advance_queue catalog deadline now answer s)"
  by (auto simp: queue_defs Let_def stage_ok_def
      split: stage.splits list.splits sum.splits prod.splits option.splits if_splits)

lemma serial_of_fail:
  "running_part s = Some (j, rest) \<Longrightarrow> serial_step (serial_of s) (serial_of (fail_statement catalog j' raw s))"
  using Abandon [of "serial_of s" j rest]
  by (simp add: serial_of_def fail_statement_def settle_def close_queue_def log_error_def running_part_def split: prod.split)

lemma serial_of_advance:
  assumes "stage_ok s" "\<not> settled s"
  shows "serial_step\<^sup>=\<^sup>= (serial_of s) (serial_of (advance_queue catalog deadline now answer s))"
proof (cases "running s")
  case Idle
  then obtain j jobs where "pending s = j # jobs" using assms(2) by (cases "pending s") (auto simp: settled_def)
  then show ?thesis
    using Idle Start [of "serial_of s" j jobs] by (simp add: serial_of_def running_part_def advance_queue_def take_job_def)
next
  case (Check j rest res)
  have part: "current (serial_of s) = Some (j, rest)" using Check by (simp add: serial_of_def running_part_def)
  show ?thesis
    using Check part Abandon [OF part] Finish [of "serial_of s" j res]
    by (auto simp: advance_queue_def check_step_def settle_def close_queue_def serial_of_def running_part_def Let_def
        split: option.splits)
next
  case (Limit j rest ms)
  then have "running_part s = Some (j, rest)" by (simp add: running_part_def)
  from serial_of_fail [OF this] show ?thesis
    using Limit by (cases answer) (auto simp: advance_queue_def limit_step_def serial_of_def running_part_def)
next
  case (Ready j rest)
  then show ?thesis
    using assms(1) Run [of "serial_of s" j "hd rest" "tl rest"]
    by (auto simp: advance_queue_def send_step_def stage_ok_def serial_of_def running_part_def)
next
  case (Sent j rest)
  then have "running_part s = Some (j, rest)" by (simp add: running_part_def)
  from serial_of_fail [OF this] show ?thesis
    using Sent by (cases answer) (auto simp: advance_queue_def answer_step_def serial_of_def running_part_def)
qed

lemma serial_of_step:
  assumes "queue_step catalog deadline s s'" "stage_ok s"
  shows "serial_step\<^sup>=\<^sup>= (serial_of s) (serial_of s') \<and> stage_ok s'"
  using assms
proof (cases rule: queue_step.cases)
  case (Enqueue j)
  then show ?thesis using Accept [of "serial_of s" j] assms(2)
    by (simp add: serial_of_def running_part_def enqueue_job_def stage_ok_def)
next
  case (Close t)
  then show ?thesis using assms(2) by (simp add: serial_of_def running_part_def close_queue_def stage_ok_def)
next
  case (Log b)
  then show ?thesis using assms(2) by (simp add: serial_of_def running_part_def log_error_def stage_ok_def)
qed (use assms(2) serial_of_advance stage_ok_advance in auto)

lemma serial_of_run:
  "queue_run catalog deadline s s' \<Longrightarrow> stage_ok s \<Longrightarrow> serial_step\<^sup>*\<^sup>* (serial_of s) (serial_of s') \<and> stage_ok s'"
proof (induction rule: rtranclp_induct)
  case (step x y)
  then show ?case using serial_of_step [OF step.hyps(2)] by (auto intro: rtranclp.rtrancl_into_rtrancl)
qed simp

text \<open>
  C21. The queue refines a serial executor: every run of the queue, with its suspensions, lowered
  limits, failures and calls from hooks in between, is a run of the executor on the units that
  were enqueued.
\<close>

theorem queue_refines_serial:
  assumes "queue_run catalog deadline empty_queue s"
  shows "serial_step\<^sup>*\<^sup>* (serial_of empty_queue) (serial_of s)"
  using serial_of_run [OF assms] by (simp add: stage_ok_def empty_queue_def)

text \<open>The history of the units: those done with their results and the statements they ran.\<close>

definition unit_ran :: "job \<times> job_result \<times> statement list \<Rightarrow> bool" where
  "unit_ran d \<longleftrightarrow>
     (case d of (j, r, p) \<Rightarrow> prefix p (jstatements j) \<and> ((\<exists>x. r = Inr x) \<longrightarrow> p = jstatements j))"

definition in_order :: "serial \<Rightarrow> (job \<times> job_result \<times> statement list) list \<Rightarrow> statement list \<Rightarrow> bool" where
  "in_order a ds cur \<longleftrightarrow>
     list_all unit_ran ds \<and> outcomes a = map (\<lambda>d. fst (snd d)) ds
     \<and> ran a = concat (map (\<lambda>d. snd (snd d)) ds) @ cur
     \<and> (case current a of
          None \<Rightarrow> cur = [] \<and> taken a = map fst ds @ todo a
        | Some (j, rest) \<Rightarrow> cur @ rest = jstatements j \<and> taken a = map fst ds @ j # todo a)"

lemma in_order_step:
  assumes "serial_step a b" "in_order a ds cur"
  shows "\<exists>ds cur. in_order b ds cur"
  using assms
proof (cases rule: serial_step.cases)
  case (Accept j)
  then have "in_order b ds cur" using assms(2) by (auto simp: in_order_def split: option.splits prod.splits)
  then show ?thesis by blast
next
  case (Start j jobs)
  then have "in_order b ds []" using assms(2) by (auto simp: in_order_def)
  then show ?thesis by blast
next
  case (Run j st rest)
  then have "in_order b ds (cur @ [st])" using assms(2) by (auto simp: in_order_def)
  then show ?thesis by blast
next
  case (Finish j r)
  then have "in_order b (ds @ [(j, Inr r, cur)]) []" using assms(2) by (auto simp: in_order_def unit_ran_def)
  then show ?thesis by blast
next
  case (Abandon j rest x)
  then have "cur @ rest = jstatements j" using assms(2) by (simp add: in_order_def)
  then have "prefix cur (jstatements j)" by (metis prefixI)
  then have "in_order b (ds @ [(j, Inl x, cur)]) []" using assms(2) Abandon by (auto simp: in_order_def unit_ran_def)
  then show ?thesis by blast
qed

lemma in_order_reachable:
  assumes "queue_run catalog deadline empty_queue s"
  shows "\<exists>ds cur. in_order (serial_of s) ds cur"
proof -
  have "serial_step\<^sup>*\<^sup>* (serial_of empty_queue) (serial_of s)"
    using serial_of_run [OF assms] by (simp add: stage_ok_def empty_queue_def)
  then show ?thesis
  proof (induction rule: rtranclp_induct)
    case base
    have "in_order (serial_of empty_queue) [] []"
      by (simp add: in_order_def serial_of_def empty_queue_def running_part_def)
    then show ?case by blast
  qed (use in_order_step in blast)
qed

text \<open>
  C23. At every moment the statements that reached the port, the lowered limits aside, are those
  of the finished units in the order in which they were enqueued, then those of the running one:
  a finished unit ran all its statements if it resolved, a first part of them if it was rejected,
  and no statement of one unit stands between those of another.
\<close>

theorem statements_in_order:
  assumes "queue_run catalog deadline empty_queue s"
  shows "\<exists>ds cur. accepted s = map fst ds @ (case running_part s of None \<Rightarrow> [] | Some (j, _) \<Rightarrow> [j]) @ pending s
    \<and> results s = map (\<lambda>d. fst (snd d)) ds \<and> list_all unit_ran ds
    \<and> works (sent s) = concat (map (\<lambda>d. snd (snd d)) ds) @ cur
    \<and> (case running_part s of None \<Rightarrow> cur = [] | Some (j, rest) \<Rightarrow> cur @ rest = jstatements j)"
proof -
  obtain ds cur where "in_order (serial_of s) ds cur" using in_order_reachable [OF assms] by blast
  then show ?thesis
    by (intro exI [of _ ds] exI [of _ cur]) (auto simp: in_order_def serial_of_def split: option.splits)
qed

subsection \<open>Every unit is answered\<close>

text \<open>
  The queue left to itself: \<open>clock\<close> and \<open>port\<close> say what its next steps meet. The weight of a
  state is the number of steps that are left at most.
\<close>

fun stage_weight :: "stage \<Rightarrow> nat" where
  "stage_weight Idle = 0"
| "stage_weight (Check _ rest _) = 4 * length rest + 1"
| "stage_weight (Limit _ rest _) = 4 * (length rest - 1) + 4"
| "stage_weight (Ready _ rest) = 4 * (length rest - 1) + 3"
| "stage_weight (Sent _ rest) = 4 * length rest + 2"

definition queue_weight :: "queue \<Rightarrow> nat" where
  "queue_weight s = stage_weight (running s) + sum_list (map (\<lambda>j. 4 * length (jstatements j) + 2) (pending s))"

lemma fail_statement_weight:
  "running (fail_statement catalog j raw s) = Idle" "pending (fail_statement catalog j raw s) = pending s"
  by (simp_all add: fail_statement_def settle_def close_queue_def log_error_def split: prod.split)

lemma queue_weight_advance:
  assumes "\<not> settled s"
  shows "queue_weight (advance_queue catalog deadline now answer s) < queue_weight s"
proof (cases "running s")
  case Idle
  then obtain j jobs where "pending s = j # jobs" using assms by (cases "pending s") (auto simp: settled_def)
  then show ?thesis using Idle by (simp add: advance_queue_def take_job_def queue_weight_def)
next
  case (Check j rest res)
  then show ?thesis
    by (cases rest) (auto simp: advance_queue_def check_step_def settle_def close_queue_def queue_weight_def Let_def
        split: option.split)
next
  case (Limit j rest ms)
  then show ?thesis
    by (cases answer) (simp_all add: advance_queue_def limit_step_def queue_weight_def fail_statement_weight)
next
  case (Ready j rest)
  then show ?thesis by (simp add: advance_queue_def send_step_def queue_weight_def)
next
  case (Sent j rest)
  then show ?thesis
    by (cases answer) (simp_all add: advance_queue_def answer_step_def queue_weight_def fail_statement_weight)
qed

function drain ::
  "entry list \<Rightarrow> rat \<Rightarrow> (nat \<Rightarrow> rat) \<Rightarrow> (nat \<Rightarrow> thrown + query_result) \<Rightarrow> nat \<Rightarrow> queue \<Rightarrow> queue"
where
  "drain catalog deadline clock port n s =
     (if settled s then s
      else drain catalog deadline clock port (n + 1) (advance_queue catalog deadline (clock n) (port n) s))"
  by pat_completeness auto
termination
  by (relation "measure (\<lambda>(_, _, _, _, _, s). queue_weight s)") (simp_all add: queue_weight_advance)

declare drain.simps [simp del]

lemma drain_settled: "settled (drain catalog deadline clock port n s)"
  by (induction catalog deadline clock port n s rule: drain.induct) (subst drain.simps, simp)

lemma drain_run: "queue_run catalog deadline s (drain catalog deadline clock port n s)"
proof (induction catalog deadline clock port n s rule: drain.induct)
  case (1 catalog deadline clock port n s)
  show ?case
  proof (cases "settled s")
    case False
    from queue_step.Advance [OF False, of catalog deadline "clock n" "port n"] 1 [OF False] show ?thesis
      using False by (subst drain.simps) (simp add: converse_rtranclp_into_rtranclp)
  qed (subst drain.simps, simp)
qed

text \<open>
  C24. Every unit is answered: from any state that calls can bring about, the queue comes to rest
  after finitely many steps whatever the port answers and the clock shows, and then every unit
  that was enqueued has its result, in the order of the calls.
\<close>

theorem every_unit_answered:
  assumes "queue_run catalog deadline empty_queue s"
  shows "settled (drain catalog deadline clock port n s)
    \<and> length (results (drain catalog deadline clock port n s)) = length (accepted s)
    \<and> prefix (results s) (results (drain catalog deadline clock port n s))"
proof -
  let ?d = "drain catalog deadline clock port n s"
  have "queue_run catalog deadline empty_queue ?d"
    using assms drain_run by (rule rtranclp_trans)
  then obtain ds cur where "in_order (serial_of ?d) ds cur" using in_order_reachable by blast
  moreover have rest: "settled ?d" by (rule drain_settled)
  ultimately have "length (results ?d) = length (accepted ?d)"
    by (auto simp: in_order_def serial_of_def settled_def running_part_def)
  moreover have "accepted ?d = accepted s \<and> prefix (results s) (results ?d)"
  proof (induction catalog deadline clock port n s rule: drain.induct)
    case (1 catalog deadline clock port n s)
    have "accepted (advance_queue catalog deadline now answer s) = accepted s
        \<and> prefix (results s) (results (advance_queue catalog deadline now answer s))" for now answer
      by (auto simp: queue_defs Let_def
          split: stage.splits list.splits sum.splits prod.splits option.splits if_splits)
    with 1 show ?case by (subst (1 2) drain.simps) (auto intro: prefix_order.trans)
  qed
  ultimately show ?thesis using rest by simp
qed

text \<open>A unit of the context and the call, run by an idle port, on which the properties are tried.\<close>

definition sample_job :: job where
  "sample_job =
     \<lparr>jstatements = [plain_statement (js ''SELECT 1''), commit_statement], jphase = None, jclaims = None\<rparr>"

definition idle_port :: "nat \<Rightarrow> thrown + query_result" where
  "idle_port n = Inr \<lparr>qrows = [], qcommand = js ''COMMIT''\<rparr>"

lemma sample_run:
  "queue_run [] 100 empty_queue (drain [] 100 (\<lambda>_. 0) idle_port 0 (enqueue_job sample_job empty_queue))"
  by (rule converse_rtranclp_into_rtranclp [OF queue_step.Enqueue drain_run])

lemma queue_refines_serial_witness:
  "serial_step\<^sup>*\<^sup>* (serial_of empty_queue)
     (serial_of (drain [] 100 (\<lambda>_. 0) idle_port 0 (enqueue_job sample_job empty_queue)))"
  by (rule queue_refines_serial [OF sample_run])

lemma statements_in_order_witness:
  "\<exists>ds cur. works (sent (drain [] 100 (\<lambda>_. 0) idle_port 0 (enqueue_job sample_job empty_queue)))
     = concat (map (\<lambda>d. snd (snd d)) ds) @ cur \<and> list_all unit_ran ds"
  using statements_in_order [OF sample_run] by blast

lemma every_unit_answered_witness:
  "length (results (drain [] 100 (\<lambda>_. 0) idle_port 0 (enqueue_job sample_job empty_queue))) = 1"
  using every_unit_answered
    [OF r_into_rtranclp [of "queue_step [] 100" empty_queue, OF queue_step.Enqueue [of _ _ _ sample_job]],
      of "\<lambda>_. 0" idle_port 0]
  by (simp add: enqueue_job_def empty_queue_def)

subsection \<open>What ends an attempt\<close>


text \<open>An idle session that the server has closed.\<close>

definition closed_session :: thrown where
  "closed_session =
     \<lparr>thrown_read = (\<lambda>k. Some (if k = js ''code'' then JStr (js ''25P03'') else JUndef)),
      thrown_text = Some (js ''FATAL'')\<rparr>"


end
