(* ===== verification/ReadPlan.thy ===== *)
theory ReadPlan
  imports ReadFilter CommandQueue
begin

section \<open>Plans of reads\<close>

text \<open>
  \<open>server/read.ts\<close>: a read query becomes one statement of identifiers of the catalog and bound
  parameters, with how its rows become the result. The \<open>Error\<close> thrown on an answer of the wrong
  shape is \<open>None\<close>.
\<close>

subsection \<open>Projections\<close>

text \<open>\<open>/^(bigint|numeric)(\(.*\))?(\[\])?$/\<close>\<close>

definition type_modifier :: "jstr \<Rightarrow> bool" where
  "type_modifier s \<longleftrightarrow>
     s = [] \<or> 2 \<le> length s \<and> hd s = 40 \<and> List.last s = 41 \<and> list_all (\<lambda>c. c \<notin> {10, 13, 8232, 8233}) s"

definition text_encoded_type :: "jstr \<Rightarrow> bool" where
  "text_encoded_type t \<longleftrightarrow>
     list_ex (\<lambda>w. take (length w) t = w
        \<and> (let rest = drop (length w) t; n = length rest
           in type_modifier rest \<or> 2 \<le> n \<and> drop (n - 2) rest = js ''[]'' \<and> type_modifier (take (n - 2) rest)))
       [js ''bigint'', js ''numeric'']"

definition text_cast :: "attribute \<Rightarrow> jstr option" where
  "text_cast a =
     (if \<not> text_encoded_type (apg_type a) then None
      else Some (if aarray a then js ''text[]'' else js ''text''))"

definition table_sql :: "jstr \<times> jstr \<Rightarrow> jstr" where
  "table_sql n = ident (fst n) @ 46 # ident (snd n)"

text \<open>\<open>pairOf\<close>\<close>

definition pair_sql :: "jstr \<Rightarrow> jstr option \<Rightarrow> jstr \<Rightarrow> jstr" where
  "pair_sql column cast alias =
     sql_literal column @ js '', '' @ alias @ 46 # ident column
     @ (case cast of None \<Rightarrow> [] | Some c \<Rightarrow> js ''::'' @ c)"

definition attribute_pairs :: "attribute list \<Rightarrow> jstr \<Rightarrow> jstr list" where
  "attribute_pairs attrs alias =
     concat (map (\<lambda>a.
       if alazy a then []
       else (case apair a of None \<Rightarrow> [] | Some p \<Rightarrow> [pair_sql (type_column p) None alias])
         @ [pair_sql (acolumn a) (text_cast a) alias]) attrs)"

text \<open>\<open>jsonbBuildObject\<close> over pieces; no caller passes an empty list.\<close>

fun join_sql :: "jstr \<Rightarrow> sql list \<Rightarrow> sql" where
  "join_sql d [] = []"
| "join_sql d [p] = p"
| "join_sql d (p # q # ps) = p @ Lit d # join_sql d (q # ps)"

definition jsonb_call_sql :: "sql list \<Rightarrow> sql" where
  "jsonb_call_sql ps = lit ''jsonb_build_object('' @ join_sql (js '', '') ps @ lit '')''"

definition jsonb_sql :: "sql list \<Rightarrow> sql" where
  "jsonb_sql ps =
     (case map jsonb_call_sql (chunks jsonb_pairs_per_call ps) of
        [c] \<Rightarrow> c
      | cs \<Rightarrow> lit ''('' @ join_sql (js '' || '') cs @ lit '')'')"

lemma sql_text_simps [simp]:
  "sql_text [] = []" "sql_text (p # ps) = piece_text p @ sql_text ps" "sql_text (ps @ qs) = sql_text ps @ sql_text qs"
  "sql_text (lit s) = js s"
  by (simp_all add: sql_text_def lit_def)

lemma sql_text_join [simp]: "sql_text (join_sql d ps) = join_with d (map sql_text ps)"
  by (induction d ps rule: join_sql.induct) simp_all

lemma chunks_map: "chunks n (map f xs) = map (map f) (chunks n xs)"
proof (induction n xs rule: chunks.induct)
  case (1 n xs)
  then show ?case by (subst (1 2) chunks.simps) (simp add: take_map drop_map)
qed

lemma jsonb_sql_text: "ps \<noteq> [] \<Longrightarrow> jsonb_build_object (map sql_text ps) = Some (sql_text (jsonb_sql ps))"
  by (auto simp: jsonb_build_object_def jsonb_sql_def chunks_map comp_def jsonb_call_def jsonb_call_sql_def
      split: list.split)

text \<open>The rows of a card, of a list and of a section.\<close>

definition card_projection :: "entry \<Rightarrow> sql" where
  "card_projection e =
     (let texts = List.map_filter (\<lambda>a. map_option (\<lambda>c. pair_sql (acolumn a) (Some c) (js ''t'')) (text_cast a)) (oattributes e)
      in if texts = [] then lit ''to_jsonb(t)::text''
         else lit ''(to_jsonb(t) || '' @ jsonb_sql (map (\<lambda>t. [Lit t]) texts) @ lit '')::text'')"

definition list_projection :: "entry \<Rightarrow> sql" where
  "list_projection e =
     jsonb_sql (map (\<lambda>t. [Lit t])
       ([pair_sql (okey e) None (js ''t''), pair_sql (oversion e) None (js ''t'')]
        @ attribute_pairs (oattributes e) (js ''t''))) @ lit ''::text''"

definition line_projection :: "tabular_section \<Rightarrow> jstr \<Rightarrow> sql" where
  "line_projection s alias =
     jsonb_sql (map (\<lambda>t. [Lit t])
       ([pair_sql (skey s) None alias, pair_sql (sparent s) None alias, pair_sql (sline s) None alias]
        @ attribute_pairs (sattributes s) alias))"

text \<open>\<open>parentKeyOf\<close>: the columns of the foreign key of a section and what they refer to.\<close>

definition parent_key_of :: "tabular_section \<Rightarrow> (jstr \<times> jstr) list" where
  "parent_key_of s =
     (case find (\<lambda>c. cn_name c = sparent_constraint s) (sconstraints s) of
        None \<Rightarrow> []
      | Some c \<Rightarrow> zip (cn_columns c) (case cn_references c of None \<Rightarrow> [] | Some rs \<Rightarrow> rs))"

definition correlation :: "jstr \<Rightarrow> jstr \<Rightarrow> tabular_section \<Rightarrow> jstr" where
  "correlation line owner s =
     join_with (js '' AND '')
       (map (\<lambda>(c, r). line @ 46 # ident c @ js '' = '' @ owner @ 46 # ident r) (parent_key_of s))"

text \<open>\<open>linesOf\<close> and \<open>tabularColumn\<close>: the lines of the owner \<open>t\<close>, one more than a read may return.\<close>

definition lines_of :: "tabular_section \<Rightarrow> piece \<Rightarrow> sql" where
  "lines_of s limit =
     (let line = ident (sline s); key = ident (skey s)
      in lit ''(SELECT coalesce(jsonb_agg('' @ line_projection s (js ''l'')
         @ [Lit (js '' ORDER BY l.'' @ line @ js '', l.'' @ key @ js ''), '' @ sql_literal (js ''[]'') @ js '')''
             @ js '' FROM (SELECT * FROM '' @ table_sql (stable s) @ js '' s WHERE ''
             @ correlation (js ''s'') (js ''t'') s
             @ js '' ORDER BY s.'' @ line @ js '', s.'' @ key @ js '' LIMIT ''), limit, Lit (js '') l)'')])"

definition tabular_column :: "tabular_section list \<Rightarrow> piece \<Rightarrow> sql" where
  "tabular_column ss limit =
     jsonb_sql (map (\<lambda>s. Lit (sql_literal (snd (stable s)) @ js '', '') # lines_of s limit) ss) @ lit ''::text AS tabular''"

subsection \<open>Columns and order\<close>

definition platform_cast :: "filter_kind \<Rightarrow> jstr" where
  "platform_cast k =
     (case k of VersionColumn \<Rightarrow> js ''bigint'' | LineColumn \<Rightarrow> js ''integer'' | _ \<Rightarrow> js ''uuid'')"

definition platform_column :: "jstr \<Rightarrow> jstr \<Rightarrow> filter_kind \<Rightarrow> filter_column" where
  "platform_column n column k =
     \<lparr>fc_name = n, fc_column = column, fc_cast = platform_cast k, fc_kind = k, fc_lazy = False\<rparr>"

definition attribute_column :: "attribute \<Rightarrow> filter_column" where
  "attribute_column a =
     \<lparr>fc_name = aname a, fc_column = acolumn a, fc_cast = acast_type a, fc_kind = AttributeColumn a,
      fc_lazy = alazy a\<rparr>"

text \<open>A \<open>Map\<close> keeps the last column of a name; so do the list and its look-up from the front.\<close>

definition object_filter_columns :: "entry \<Rightarrow> filter_columns" where
  "object_filter_columns e =
     rev (map (\<lambda>c. (fc_name c, c))
       (map attribute_column (oattributes e)
        @ [platform_column (okey_name e) (okey e) KeyColumn, platform_column (oversion_name e) (oversion e) VersionColumn]))"

definition section_filter_columns :: "tabular_section \<Rightarrow> filter_columns" where
  "section_filter_columns s =
     rev (map (\<lambda>c. (fc_name c, c))
       (map attribute_column (sattributes s)
        @ [platform_column (skey_name s) (skey s) KeyColumn, platform_column (sparent_name s) (sparent s) ParentColumn,
           platform_column (sline_name s) (sline s) LineColumn]))"

definition sortable :: "filter_column \<Rightarrow> bool" where
  "sortable c \<longleftrightarrow>
     \<not> fc_array c \<and> fc_pair c = None \<and> fc_type c \<notin> {Some (Logical TJson), Some (Logical TBytes), Some Raw}"

definition order_by_max :: nat where "order_by_max = 4"

definition order_path :: "nat \<Rightarrow> jstr" where
  "order_path i = js ''orderBy.'' @ show_nat i"

fun order_terms :: "filter_columns \<Rightarrow> nat \<Rightarrow> order_item list \<Rightarrow> command_error + jstr list" where
  "order_terms cols i [] = Inr []"
| "order_terms cols i (x # xs) =
     (let path = order_path i @ js ''.attribute''
      in case map_of cols (oiattribute x) of
           None \<Rightarrow> Inl (refusal_at path None)
         | Some c \<Rightarrow>
             if fc_lazy c then Inl (refusal_at path (Some lazy_word))
             else if \<not> sortable c then Inl (refusal_at path None)
             else bindE (order_terms cols (i + 1) xs) (\<lambda>ts.
               Inr ((js ''t.'' @ ident (fc_column c) @ (if oidescending x then js '' DESC'' else [])
                 @ (case oinulls_first x of
                      None \<Rightarrow> []
                    | Some True \<Rightarrow> js '' NULLS FIRST''
                    | Some False \<Rightarrow> js '' NULLS LAST'')) # ts)))"

text \<open>\<open>orderClause\<close>: the key comes last, whether the query names it or not.\<close>

definition order_clause ::
  "jstr \<Rightarrow> jstr \<Rightarrow> filter_columns \<Rightarrow> order_item list option \<Rightarrow> jstr list \<Rightarrow> command_error + jstr"
where
  "order_clause key_name key cols order defaults =
     (let entries = (case order of None \<Rightarrow> [] | Some xs \<Rightarrow> xs);
          at_key = length (takeWhile (\<lambda>x. oiattribute x \<noteq> key_name) entries);
          named = at_key < length entries
      in if named \<and> at_key \<noteq> length entries - 1 then Inl (refusal_at (order_path at_key) None)
         else if order_by_max < length entries - (if named then 1 else 0) then Inl (refusal_at (js ''orderBy'') None)
         else bindE (order_terms cols 0 entries) (\<lambda>ts.
           Inr (join_with (js '', '')
             ((if order = None then map (\<lambda>c. js ''t.'' @ ident c) defaults else []) @ ts
              @ (if named then [] else [js ''t.'' @ ident key])))))"

subsection \<open>Plans\<close>

datatype plan_result = RowsPlan | LinesPlan | CountPlan

record read_plan =
  pl_sql :: sql
  pl_params :: params
  pl_result :: plan_result
  pl_sections :: "tabular_section list"
  pl_uncapped :: bool
  pl_include :: "(entry \<times> jstr list) list option"

definition read_statement :: "read_plan \<Rightarrow> statement" where
  "read_statement p = \<lparr>stext = sql_text (pl_sql p), sparams = pl_params p\<rparr>"

definition plan_of :: "sql \<Rightarrow> params \<Rightarrow> plan_result \<Rightarrow> tabular_section list \<Rightarrow> bool \<Rightarrow> read_plan" where
  "plan_of text ps result ss uncapped =
     \<lparr>pl_sql = text, pl_params = ps, pl_result = result, pl_sections = ss, pl_uncapped = uncapped, pl_include = None\<rparr>"

definition read_count_cap :: int where "read_count_cap = 10000"
definition lines_max :: nat where "lines_max = 5000"
definition lines_limit :: jstr where "lines_limit = show_nat (lines_max + 1)"
definition uuid_cast :: jstr where "uuid_cast = js ''uuid''"

fun named_sections :: "entry \<Rightarrow> nat \<Rightarrow> jstr list \<Rightarrow> command_error + tabular_section list" where
  "named_sections e i [] = Inr []"
| "named_sections e i (n # ns) =
     (case find (\<lambda>s. sname s = n) (osections e) of
        None \<Rightarrow> Inl (refusal_at (js ''tabularSections.'' @ show_nat i) None)
      | Some s \<Rightarrow> bindE (named_sections e (i + 1) ns) (\<lambda>ss. Inr (s # ss)))"

definition card_sections :: "entry \<Rightarrow> wanted_sections option \<Rightarrow> command_error + tabular_section list" where
  "card_sections e selected =
     (case selected of
        None \<Rightarrow> Inr []
      | Some AllSections \<Rightarrow> Inr (osections e)
      | Some (SectionList ns) \<Rightarrow> named_sections e 0 ns)"

definition card_plan :: "entry \<Rightarrow> jstr \<Rightarrow> wanted_sections option \<Rightarrow> command_error + read_plan" where
  "card_plan e i selected =
     bindE (card_sections e selected) (\<lambda>ss.
       let (i, ps) = bind_param (Some i) (Some uuid_cast) [];
           (tabular, ps) =
             (if ss = [] then ([], ps)
              else (case bind_param (Some lines_limit) None ps of
                (limit, ps) \<Rightarrow> (lit '', '' @ tabular_column ss limit, ps)))
       in Inr (plan_of
            (lit ''SELECT '' @ card_projection e @ lit '' AS row'' @ tabular
             @ [Lit (js '' FROM '' @ table_sql (otable e) @ js '' t WHERE '' @ ident (okey e) @ js '' = ''), i]
             @ lit '' LIMIT 1'')
            ps RowsPlan ss False))"

definition where_clause :: "filter_columns \<Rightarrow> read_filter option \<Rightarrow> params \<Rightarrow> command_error + sql \<times> params" where
  "where_clause cols f ps =
     (case f of
        None \<Rightarrow> Inr ([], ps)
      | Some f \<Rightarrow>
          bindE (render_filter cols where_path f ps) (\<lambda>(text, ps). Inr (lit '' WHERE '' @ text, ps)))"

text \<open>\<open>String(query.limit)\<close> and the offset, which only a page has.\<close>

definition page_limit :: "'o read_query \<Rightarrow> params \<Rightarrow> sql \<times> params" where
  "page_limit q ps =
     (let (l, ps) = bind_param (Some (case qlimit q of None \<Rightarrow> js ''undefined'' | Some n \<Rightarrow> show_int n)) None ps
      in case qoffset q of
           None \<Rightarrow> (lit '' LIMIT '' @ [l], ps)
         | Some n \<Rightarrow>
             (let (x, ps) = bind_param (Some (show_int n)) None ps in (lit '' LIMIT '' @ [l] @ lit '' OFFSET '' @ [x], ps)))"

definition capped_count :: "jstr \<Rightarrow> sql \<Rightarrow> params \<Rightarrow> read_plan" where
  "capped_count table condition ps =
     (let (l, ps) = bind_param (Some (show_int (read_count_cap + 1))) None ps
      in plan_of (Lit (js ''SELECT count(*) AS n FROM (SELECT 1 FROM '' @ table @ js '' t'') # condition @ lit '' LIMIT ''
          @ [l] @ lit '') c'') ps CountPlan [] False)"

definition build_object_plan :: "entry \<Rightarrow> 'o read_query \<Rightarrow> command_error + read_plan" where
  "build_object_plan e q =
     (case qid q of
        Some i \<Rightarrow> card_plan e i (qsections q)
      | None \<Rightarrow>
          bindE (where_clause (object_filter_columns e) (qwhere q) []) (\<lambda>(condition, ps).
            if qcount q then Inr (capped_count (table_sql (otable e)) condition ps)
            else bindE (order_clause (okey_name e) (okey e) (object_filter_columns e) (qorder q) []) (\<lambda>order.
              let (page, ps) = page_limit q ps
              in Inr (plan_of
                   (lit ''SELECT '' @ list_projection e @ Lit (js '' AS row FROM '' @ table_sql (otable e) @ js '' t'') # condition
                    @ Lit (js '' ORDER BY '' @ order) # page)
                   ps RowsPlan [] False))))"

text \<open>
  \<open>ownerId()\<close>: the id of the owner is bound when the statement first mentions it, and once.
\<close>

definition owner_id :: "jstr \<Rightarrow> piece option \<Rightarrow> params \<Rightarrow> piece \<times> params" where
  "owner_id i bound ps = (case bound of Some p \<Rightarrow> (p, ps) | None \<Rightarrow> bind_param (Some i) (Some uuid_cast) ps)"

definition owner_field :: "entry \<Rightarrow> jstr \<Rightarrow> piece \<Rightarrow> sql" where
  "owner_field e field i =
     [Lit (js ''(SELECT o.'' @ field @ js '' FROM '' @ table_sql (otable e) @ js '' o WHERE o.'' @ ident (okey e) @ js '' = ''),
      i, Lit (js '')'')]"

text \<open>The other columns of a composite key, from the same row of the owner.\<close>

fun owner_conditions ::
  "entry \<Rightarrow> tabular_section \<Rightarrow> jstr \<Rightarrow> (jstr \<times> jstr) list \<Rightarrow> piece option \<Rightarrow> params \<Rightarrow> sql \<times> piece option \<times> params"
where
  "owner_conditions e s i [] bound ps = ([], bound, ps)"
| "owner_conditions e s i ((column, target) # cs) bound ps =
     (if column = sparent s then owner_conditions e s i cs bound ps
      else (case owner_id i bound ps of (p, ps) \<Rightarrow>
        (case owner_conditions e s i cs (Some p) ps of (sql, bound, ps) \<Rightarrow>
          (Lit (js '' AND '' @ ident column @ js '' = '') # owner_field e (ident target) p @ sql, bound, ps))))"

definition owner_lines_plan :: "entry \<Rightarrow> tabular_section \<Rightarrow> jstr \<Rightarrow> read_plan" where
  "owner_lines_plan e s owner =
     (let (i, ps) = bind_param (Some owner) (Some uuid_cast) [];
          (limit, ps) = bind_param (Some lines_limit) None ps
      in plan_of
           (Lit (js ''SELECT t.'' @ ident (oversion e) @ js ''::text AS owner_version, '') # tabular_column [s] limit
            @ [Lit (js '' FROM '' @ table_sql (otable e) @ js '' t WHERE '' @ ident (okey e) @ js '' = ''), i]
            @ lit '' LIMIT 1'')
           ps LinesPlan [s] False)"

definition section_where ::
  "entry \<Rightarrow> tabular_section \<Rightarrow> read_filter option \<Rightarrow> command_error + sql \<times> piece option \<times> params"
where
  "section_where e s f =
     bindE (where_clause (section_filter_columns s) f []) (\<lambda>(condition, ps).
       case top_level_parent_eq f (sparent_name s) of
         JStr i \<Rightarrow>
           (case owner_conditions e s i (parent_key_of s) None ps of
              (rest, bound, ps) \<Rightarrow> Inr (condition @ rest, bound, ps))
       | _ \<Rightarrow> Inr (condition, None, ps))"

definition section_page_plan ::
  "entry \<Rightarrow> tabular_section \<Rightarrow> 'o read_query \<Rightarrow> jval \<Rightarrow> jstr \<Rightarrow> sql \<Rightarrow> piece option \<Rightarrow> params \<Rightarrow> read_plan"
where
  "section_page_plan e s q parent order condition bound ps =
     (let (owner_version, ps) =
            (case parent of
               JStr i \<Rightarrow>
                 (case owner_id i bound ps of
                    (p, ps) \<Rightarrow> (owner_field e (ident (oversion e) @ js ''::text'') p @ lit '' AS owner_version, '', ps))
             | _ \<Rightarrow> ([], ps));
          (page, ps) = page_limit q ps
      in plan_of
           (lit ''SELECT '' @ owner_version
            @ [Lit (js ''jsonb_build_object('' @ sql_literal (snd (stable s)) @ js '', coalesce(jsonb_agg(x.r ORDER BY x.n), ''
                @ sql_literal (js ''[]'') @ js ''))::text AS tabular FROM (SELECT '')]
            @ line_projection s (js ''t'')
            @ Lit (js '' AS r, row_number() OVER (ORDER BY '' @ order @ js '') AS n FROM '' @ table_sql (stable s) @ js '' t'')
            # condition @ Lit (js '' ORDER BY '' @ order) # page @ lit '') x'')
           ps LinesPlan [s] False)"

definition build_section_plan :: "entry \<Rightarrow> jstr \<Rightarrow> 'o read_query \<Rightarrow> command_error + read_plan" where
  "build_section_plan e name q =
     (case find (\<lambda>s. sname s = name) (osections e) of
        None \<Rightarrow> Inl (refusal_at (js ''tabularSection'') None)
      | Some s \<Rightarrow>
          (case qowner q of
             Some owner \<Rightarrow> Inr (owner_lines_plan e s owner)
           | None \<Rightarrow>
               bindE (section_where e s (qwhere q)) (\<lambda>(condition, bound, ps).
                 let parent = top_level_parent_eq (qwhere q) (sparent_name s)
                 in if qcount q then
                      Inr (if string_of parent \<noteq> None
                        then plan_of (Lit (js ''SELECT count(*) AS n FROM '' @ table_sql (stable s) @ js '' t'') # condition)
                          ps CountPlan [] True
                        else capped_count (table_sql (stable s)) condition ps)
                    else bindE (order_clause (skey_name s) (skey s) (section_filter_columns s) (qorder q) [sline s]) (\<lambda>order.
                      Inr (section_page_plan e s q parent order condition bound ps)))))"

text \<open>\<open>includeSteps\<close>: attributes with the same target share a step.\<close>

fun add_step :: "entry \<Rightarrow> jstr \<Rightarrow> (entry \<times> jstr list) list \<Rightarrow> (entry \<times> jstr list) list" where
  "add_step t n [] = [(t, [n])]"
| "add_step t n ((t', ns) # steps) = (if t' = t then (t', ns @ [n]) # steps else (t', ns) # add_step t n steps)"

fun include_steps ::
  "entry list \<Rightarrow> entry \<Rightarrow> bool \<Rightarrow> nat \<Rightarrow> jstr list \<Rightarrow> (entry \<times> jstr list) list \<Rightarrow> command_error + (entry \<times> jstr list) list"
where
  "include_steps catalog e listing i [] steps = Inr steps"
| "include_steps catalog e listing i (n # ns) steps =
     (let path = js ''include.'' @ show_nat i
      in case find (\<lambda>a. aname a = n) (oattributes e) of
           None \<Rightarrow> Inl (refusal_at path None)
         | Some a \<Rightarrow>
             (case Option.bind (aref a) (\<lambda>r. find (\<lambda>x. oid x = fst r) catalog) of
                None \<Rightarrow> Inl (refusal_at path None)
              | Some t \<Rightarrow>
                  if listing \<and> alazy a then Inl (refusal_at path (Some lazy_word))
                  else include_steps catalog e listing (i + 1) ns (add_step t n steps)))"

definition build_read_plan :: "entry list \<Rightarrow> entry \<Rightarrow> 'o read_query \<Rightarrow> command_error + read_plan" where
  "build_read_plan catalog e q =
     bindE (case qsection q of None \<Rightarrow> build_object_plan e q | Some n \<Rightarrow> build_section_plan e n q) (\<lambda>plan.
       case qinclude q of
         None \<Rightarrow> Inr plan
       | Some ns \<Rightarrow>
           bindE (include_steps catalog e (qid q = None) 0 ns []) (\<lambda>steps. Inr (plan\<lparr>pl_include := Some steps\<rparr>)))"

text \<open>\<open>prepareRead\<close> on what the schema made of the query: the query, or the path of its first issue.\<close>

definition prepare_read ::
  "entry list \<Rightarrow> jstr option + metadata_ref read_query \<Rightarrow> command_error + entry \<times> read_plan"
where
  "prepare_read catalog parsed =
     (case parsed of
        Inl p \<Rightarrow> Inl ((error_of ''command.invalid'')\<lparr>epath := p\<rparr>)
      | Inr q \<Rightarrow>
          (case find (\<lambda>e. entry_ref e = qobject q) catalog of
             None \<Rightarrow> Inl (invalid (js ''object''))
           | Some e \<Rightarrow> bindE (build_read_plan catalog e q) (\<lambda>plan. Inr (e, plan))))"

subsection \<open>Results\<close>

text \<open>\<open>includeStatement\<close>: the ids that the rows refer to, each once.\<close>

fun include_ids :: "jval list \<Rightarrow> jstr list \<Rightarrow> jstr list option" where
  "include_ids [] ids = Some ids"
| "include_ids (v # vs) ids =
     (case v of
        JNull \<Rightarrow> include_ids vs ids
      | JUndef \<Rightarrow> include_ids vs ids
      | JStr i \<Rightarrow> if uuid_text i then include_ids vs (if i \<in> set ids then ids else ids @ [i]) else None
      | _ \<Rightarrow> None)"

definition include_statement :: "entry \<times> jstr list \<Rightarrow> row list \<Rightarrow> statement option option" where
  "include_statement step rows =
     map_option (\<lambda>ids.
       if ids = [] then None
       else Some
         \<lparr>stext = sql_text (lit ''SELECT '' @ list_projection (fst step)
            @ [Lit (js '' AS row FROM '' @ table_sql (otable (fst step)) @ js '' t WHERE '' @ ident (okey (fst step)) @ js '' = ANY(ARRAY['')]
            @ join_sql (js '', '') (map (\<lambda>i. [Slot (i + 1) (Some uuid_cast)]) [0..<length ids]) @ lit ''])''),
          sparams = map Some ids\<rparr>)
       (include_ids (concat (map (\<lambda>r. map (get r) (snd step)) rows)) [])"

definition decode_read_rows :: "entry \<Rightarrow> row list \<Rightarrow> row list option" where
  "decode_read_rows e rows =
     all_some (map (\<lambda>r. case get r (js ''row'') of JStr t \<Rightarrow> decode_card_row e t | _ \<Rightarrow> None) rows)"

fun decode_section_lines :: "row \<Rightarrow> tabular_section list \<Rightarrow> row \<Rightarrow> (command_error + row) option" where
  "decode_section_lines tabular [] out = Some (Inr out)"
| "decode_section_lines tabular (s # ss) out =
     (case get tabular (snd (stable s)) of
        JArr vs \<Rightarrow>
          if lines_max < length vs then Some (Inl (refusal_at (sname s) (Some (js ''tabular-too-large''))))
          else (case all_some (map (\<lambda>v. map_option JObj (decode_core_line s v)) vs) of
            None \<Rightarrow> None
          | Some lines \<Rightarrow> decode_section_lines tabular ss (set_key (sname s) (JArr lines) out))
      | _ \<Rightarrow> None)"

definition decode_tabular :: "tabular_section list \<Rightarrow> jval \<Rightarrow> (command_error + row) option" where
  "decode_tabular ss v =
     (case v of
        JStr t \<Rightarrow> (case json_value t of Some (JObj tabular) \<Rightarrow> decode_section_lines tabular ss [] | _ \<Rightarrow> None)
      | _ \<Rightarrow> None)"

definition count_result :: "bool \<Rightarrow> row list \<Rightarrow> read_result option" where
  "count_result uncapped rows =
     (case rows of
        [r] \<Rightarrow>
          (case (case get r (js ''n'') of
                   JStr s \<Rightarrow> if integer_text s then Some (Dec (int_of_text s) 0) else None
                 | JNum n \<Rightarrow> Some n
                 | _ \<Rightarrow> None) of
             Some n \<Rightarrow>
               if \<not> safe_integer n then None
               else (case num_int n of
                  None \<Rightarrow> None
                | Some k \<Rightarrow>
                    Some (if \<not> uncapped \<and> read_count_cap < k then ResultCount read_count_cap True else ResultCount k False))
           | None \<Rightarrow> None)
      | _ \<Rightarrow> None)"

text \<open>\<open>decoded.lines[sections[0]!.name]!\<close>, the rows of the only section.\<close>

definition section_lines_of :: "row \<Rightarrow> tabular_section \<Rightarrow> row list" where
  "section_lines_of lines s =
     (case get lines (sname s) of
        JArr vs \<Rightarrow> List.map_filter (\<lambda>v. case v of JObj r \<Rightarrow> Some r | _ \<Rightarrow> None) vs
      | _ \<Rightarrow> [])"

definition lines_result :: "tabular_section list \<Rightarrow> row list \<Rightarrow> (command_error + read_result) option" where
  "lines_result ss rows =
     (case rows of
        [] \<Rightarrow> Some (Inr (ResultRows [] None None))
      | [r] \<Rightarrow>
          (case decode_tabular ss (get r (js ''tabular'')) of
             None \<Rightarrow> None
           | Some (Inl x) \<Rightarrow> Some (Inl x)
           | Some (Inr lines) \<Rightarrow>
               (let answer = (case ss of s # _ \<Rightarrow> section_lines_of lines s | [] \<Rightarrow> [])
                in case get r (js ''owner_version'') of
                     JNull \<Rightarrow> Some (Inr (ResultRows answer None None))
                   | JUndef \<Rightarrow> Some (Inr (ResultRows answer None None))
                   | v \<Rightarrow>
                       (case decode_safe_integer v of
                          Some (JNum n) \<Rightarrow> Some (Inr (ResultRows answer None (Some n)))
                        | _ \<Rightarrow> None)))
      | _ \<Rightarrow> None)"

fun rows_result :: "entry \<Rightarrow> tabular_section list \<Rightarrow> row list \<Rightarrow> row list \<Rightarrow> (command_error + row list) option" where
  "rows_result e ss [] out = Some (Inr out)"
| "rows_result e ss (r # rows) out =
     (case (case get r (js ''row'') of JStr t \<Rightarrow> decode_card_row e t | _ \<Rightarrow> None) of
        None \<Rightarrow> None
      | Some head \<Rightarrow>
          if ss = [] then rows_result e ss rows (out @ [head])
          else (case decode_tabular ss (get r (js ''tabular'')) of
             None \<Rightarrow> None
           | Some (Inl x) \<Rightarrow> Some (Inl x)
           | Some (Inr lines) \<Rightarrow> rows_result e ss rows (out @ [set_key sections_word (JObj lines) head])))"

definition read_result_of :: "entry \<Rightarrow> read_plan \<Rightarrow> row list \<Rightarrow> (command_error + read_result) option" where
  "read_result_of e plan rows =
     (case pl_result plan of
        CountPlan \<Rightarrow> map_option Inr (count_result (pl_uncapped plan) rows)
      | LinesPlan \<Rightarrow> lines_result (pl_sections plan) rows
      | RowsPlan \<Rightarrow>
          map_option (\<lambda>r. bindE r (\<lambda>rs. Inr (ResultRows rs None None))) (rows_result e (pl_sections plan) rows []))"

text \<open>
  \<open>executeRead\<close> over a runner of statements with a state; \<open>raw\<close> is the exception of an answer of
  the wrong shape.
\<close>

type_synonym ('s, 'x) runner = "statement \<Rightarrow> entry \<Rightarrow> 's \<Rightarrow> ('x + row list) \<times> 's"

fun read_included ::
  "('s, 'x) runner \<Rightarrow> 'x \<Rightarrow> row list \<Rightarrow> (entry \<times> jstr list) list \<Rightarrow> (jstr \<times> row list) list \<Rightarrow> 's \<Rightarrow>
   ('x + (jstr \<times> row list) list) \<times> 's"
where
  "read_included run raw rows [] out s = (Inr out, s)"
| "read_included run raw rows (step # steps) out s =
     (case include_statement step rows of
        None \<Rightarrow> (Inl raw, s)
      | Some None \<Rightarrow> read_included run raw rows steps (AList.update (ref_key (entry_ref (fst step))) [] out) s
      | Some (Some st) \<Rightarrow>
          (case run st (fst step) s of
             (Inl x, s) \<Rightarrow> (Inl x, s)
           | (Inr answer, s) \<Rightarrow>
               (case decode_read_rows (fst step) answer of
                  None \<Rightarrow> (Inl raw, s)
                | Some rs \<Rightarrow> read_included run raw rows steps (AList.update (ref_key (entry_ref (fst step))) rs out) s)))"

definition execute_read ::
  "('s, 'x) runner \<Rightarrow> 'x \<Rightarrow> entry \<Rightarrow> read_plan \<Rightarrow> 's \<Rightarrow> ('x + (command_error + read_result)) \<times> 's"
where
  "execute_read run raw e plan s =
     (case run (read_statement plan) e s of
        (Inl x, s) \<Rightarrow> (Inl x, s)
      | (Inr answer, s) \<Rightarrow>
          (case read_result_of e plan answer of
             None \<Rightarrow> (Inl raw, s)
           | Some (Inr (ResultRows rows _ version)) \<Rightarrow>
               (case pl_include plan of
                  None \<Rightarrow> (Inr (Inr (ResultRows rows None version)), s)
                | Some steps \<Rightarrow>
                    (case read_included run raw rows steps [] s of
                       (Inl x, s) \<Rightarrow> (Inl x, s)
                     | (Inr included, s) \<Rightarrow> (Inr (Inr (ResultRows rows (Some included) version)), s)))
           | Some r \<Rightarrow> (Inr r, s)))"

end
