(* ===== verification/ReadSafety.thy ===== *)
theory ReadSafety
  imports ReadPlan
begin

section \<open>Parameters of reads\<close>

text \<open>
  Two facts about the plans of \<open>server/read.ts\<close>. Every placeholder of a statement is bound and
  every bound parameter is mentioned, which Postgres demands. And the text of a statement depends
  on the catalog and the form of the query alone: values, ids and limits of the client reach
  the database as parameters only.
\<close>

subsection \<open>Placeholders of the fixed texts\<close>

lemma slots_join [simp]: "slots (join_sql d ps) = \<Union> (slots ` set ps)"
  by (induction d ps rule: join_sql.induct) auto

lemma slots_jsonb [simp]: "slots (jsonb_sql ps) = \<Union> (slots ` set ps)"
proof -
  have call: "slots (jsonb_call_sql c) = \<Union> (slots ` set c)" for c
    by (simp add: jsonb_call_sql_def)
  have "concat (chunks jsonb_pairs_per_call ps) = ps"
    by (rule chunks_concat) (simp add: jsonb_pairs_per_call_def)
  then have "\<Union> (slots ` set ps) = \<Union> ((\<lambda>c. \<Union> (slots ` set c)) ` set (chunks jsonb_pairs_per_call ps))"
    by (metis (no_types) UN_UN_flatten set_concat image_image)
  then show ?thesis
    by (cases "map jsonb_call_sql (chunks jsonb_pairs_per_call ps)" rule: list.exhaust)
      (auto simp: jsonb_sql_def call split: list.splits)
qed

lemma slots_projections [simp]:
  "slots (card_projection e) = {}" "slots (list_projection e) = {}" "slots (line_projection s alias) = {}"
  by (auto simp: card_projection_def list_projection_def line_projection_def Let_def)

lemma slots_tabular [simp]: "ss \<noteq> [] \<Longrightarrow> slots (tabular_column ss limit) = slots [limit]"
  by (cases limit) (auto simp: tabular_column_def lines_of_def Let_def)

subsection \<open>Every parameter is mentioned\<close>

definition covers :: "sql \<Rightarrow> params \<Rightarrow> bool" where
  "covers out ps \<longleftrightarrow> slots out = {1..length ps}"

lemma bind_parts_slots:
  "bind_parts parts ps = (out, ps') \<Longrightarrow> length ps \<le> length ps' \<and> slots out = {Suc (length ps)..length ps'}"
proof (induction parts ps arbitrary: out ps' rule: bind_parts.induct)
  case (3 v cast parts ps)
  obtain out' where t: "bind_parts parts (ps @ [v]) = (out', ps')" "out = Slot (length ps + 1) (Some cast) # out'"
    using 3(2) by (auto simp: bind_param_def split: prod.splits)
  have "length (ps @ [v]) \<le> length ps' \<and> slots out' = {Suc (length (ps @ [v]))..length ps'}"
    using 3(1) [OF _ t(1)] by (simp add: bind_param_def)
  then show ?case using t(2) by auto
next
  case (2 s parts ps)
  then obtain out' where o: "bind_parts parts ps = (out', ps')" "out = Lit s # out'"
    by (cases "bind_parts parts ps") simp
  show ?case unfolding o(2) slots_simps by (rule 2(1) [OF o(1)])
qed simp

lemma where_clause_covers: "where_clause cols f [] = Inr (condition, ps) \<Longrightarrow> covers condition ps"
  by (auto simp: where_clause_def render_filter_def covers_def bindE_eq_Inr split: option.splits prod.splits
      dest!: bind_parts_slots)

lemma atLeastAtMost_Suc [simp]: "insert (Suc n) {Suc 0..n} = {Suc 0..Suc n}"
  by auto

lemma page_limit_slots:
  "page_limit q ps = (page, ps') \<Longrightarrow> length ps \<le> length ps' \<and> slots page = {Suc (length ps)..length ps'}"
  by (auto simp: page_limit_def bind_param_def Let_def split: option.splits)

definition owner_bound :: "piece option \<Rightarrow> params \<Rightarrow> bool" where
  "owner_bound bound ps \<longleftrightarrow> (case bound of None \<Rightarrow> True | Some p \<Rightarrow> slots [p] \<subseteq> {1..length ps})"

lemma owner_id_slots:
  assumes "owner_id i bound ps = (p, ps')" "owner_bound bound ps"
  shows "length ps \<le> length ps' \<and> slots [p] \<union> {1..length ps} = {1..length ps'} \<and> owner_bound (Some p) ps'"
  using assms by (auto simp: owner_id_def owner_bound_def bind_param_def split: option.splits)

lemma owner_field_slots [simp]: "slots (owner_field e field p) = slots [p]"
  by (cases p) (simp_all add: owner_field_def)

lemma owner_conditions_slots:
  "owner_conditions e s i cs bound ps = (out, bound', ps') \<Longrightarrow> owner_bound bound ps \<Longrightarrow>
   length ps \<le> length ps' \<and> slots out \<union> {1..length ps} = {1..length ps'} \<and> owner_bound bound' ps'"
proof (induction e s i cs bound ps arbitrary: out bound' ps' rule: owner_conditions.induct)
  case (2 e s i column target cs bound ps)
  show ?case
  proof (cases "column = sparent s")
    case False
    obtain p ps1 out1 where o: "owner_id i bound ps = (p, ps1)" "owner_conditions e s i cs (Some p) ps1 = (out1, bound', ps')"
      "out = Lit (js '' AND '' @ ident column @ js '' = '') # owner_field e (ident target) p @ out1"
      using 2(3) False by (auto split: prod.splits)
    note one = owner_id_slots [OF o(1) 2(4)]
    with 2(2) [OF False o(1) [symmetric] o(2)] show ?thesis using o(3) by auto
  qed (use 2 in auto)
qed simp

lemma section_where_covers:
  "section_where e s f = Inr (condition, bound, ps) \<Longrightarrow> covers condition ps \<and> owner_bound bound ps"
proof -
  assume run: "section_where e s f = Inr (condition, bound, ps)"
  obtain c ps0 where w: "where_clause (section_filter_columns s) f [] = Inr (c, ps0)"
    using run by (auto simp: section_where_def bindE_eq_Inr)
  note c = where_clause_covers [OF w]
  show ?thesis
  proof (cases "top_level_parent_eq f (sparent_name s)")
    case (JStr i)
    obtain rest where o: "owner_conditions e s i (parent_key_of s) None ps0 = (rest, bound, ps)" "condition = c @ rest"
      using run w JStr by (auto simp: section_where_def split: prod.splits)
    have "owner_bound None ps0" by (simp add: owner_bound_def)
    from owner_conditions_slots [OF o(1) this] show ?thesis
      using c o(2) by (auto simp: covers_def)
  qed (use run w c in \<open>auto simp: section_where_def owner_bound_def\<close>)
qed

lemma capped_count_covers:
  "covers condition ps \<Longrightarrow> covers (pl_sql (capped_count table condition ps)) (pl_params (capped_count table condition ps))"
  by (auto simp: covers_def capped_count_def plan_of_def bind_param_def)

lemma card_plan_covers: "card_plan e i selected = Inr plan \<Longrightarrow> covers (pl_sql plan) (pl_params plan)"
  by (auto simp: card_plan_def bindE_eq_Inr Let_def bind_param_def covers_def plan_of_def split: if_splits prod.splits)

lemma object_plan_covers: "build_object_plan e q = Inr plan \<Longrightarrow> covers (pl_sql plan) (pl_params plan)"
proof -
  assume run: "build_object_plan e q = Inr plan"
  show ?thesis
  proof (cases "qid q")
    case None
    then obtain condition ps where w: "where_clause (object_filter_columns e) (qwhere q) [] = Inr (condition, ps)"
      using run by (auto simp: build_object_plan_def bindE_eq_Inr)
    obtain page ps' where page: "page_limit q ps = (page, ps')" by (cases "page_limit q ps")
    show ?thesis
      using run None w where_clause_covers [OF w] capped_count_covers page page_limit_slots [OF page]
      by (auto simp: build_object_plan_def bindE_eq_Inr plan_of_def covers_def split: if_splits)
  next
    case (Some i)
    then show ?thesis using run card_plan_covers by (simp add: build_object_plan_def)
  qed
qed

lemma section_page_covers:
  assumes "covers condition ps" "owner_bound bound ps"
  shows "covers (pl_sql (section_page_plan e s q parent order condition bound ps))
    (pl_params (section_page_plan e s q parent order condition bound ps))"
proof (cases "string_of parent")
  case None
  obtain page ps' where page: "page_limit q ps = (page, ps')" by (cases "page_limit q ps")
  show ?thesis
    using None assms page page_limit_slots [OF page]
    by (cases parent) (auto simp: section_page_plan_def string_of_def plan_of_def covers_def)
next
  case (Some i)
  obtain p ps1 where o: "owner_id i bound ps = (p, ps1)" by (cases "owner_id i bound ps")
  obtain page ps' where page: "page_limit q ps1 = (page, ps')" by (cases "page_limit q ps1")
  have "slots [p] \<union> slots condition = {1..length ps1}" "length ps \<le> length ps1"
    using owner_id_slots [OF o assms(2)] assms(1) by (simp_all add: covers_def)
  then have "slots [p] \<union> (slots condition \<union> slots page) = {1..length ps'}"
    using page_limit_slots [OF page] by (auto simp: Un_assoc [symmetric])
  then show ?thesis
    using Some o page
    by (cases parent) (simp_all add: section_page_plan_def string_of_def plan_of_def covers_def Un_ac)
qed

lemma section_plan_covers: "build_section_plan e name q = Inr plan \<Longrightarrow> covers (pl_sql plan) (pl_params plan)"
proof -
  assume run: "build_section_plan e name q = Inr plan"
  then obtain s where s: "find (\<lambda>s. sname s = name) (osections e) = Some s"
    by (auto simp: build_section_plan_def split: option.splits)
  show ?thesis
  proof (cases "qowner q")
    case None
    obtain condition bound ps where w: "section_where e s (qwhere q) = Inr (condition, bound, ps)"
      using run s None by (auto simp: build_section_plan_def bindE_eq_Inr)
    show ?thesis
      using run s None w section_where_covers [OF w]
      by (auto simp: build_section_plan_def bindE_eq_Inr Let_def plan_of_def covers_def [of "Lit t # condition" for t]
          covers_def [of condition] intro!: capped_count_covers section_page_covers split: if_splits)
  next
    case (Some owner)
    then have "plan = owner_lines_plan e s owner" using run s by (simp add: build_section_plan_def)
    then show ?thesis by (auto simp: owner_lines_plan_def bind_param_def plan_of_def covers_def)
  qed
qed

text \<open>
  C5. The parameters of a read. The placeholders of a planned statement are exactly \<open>$1\<close> to
  \<open>$n\<close> for its \<open>n\<close> parameters, in every form of a read: none is unbound, and none is bound
  without being mentioned, which Postgres would reject.
\<close>

theorem read_params_exact:
  assumes "build_read_plan catalog e q = Inr plan"
  shows "slots (pl_sql plan) = {1..length (pl_params plan)}"
proof -
  obtain p where p: "(case qsection q of None \<Rightarrow> build_object_plan e q | Some n \<Rightarrow> build_section_plan e n q) = Inr p"
    "pl_sql plan = pl_sql p" "pl_params plan = pl_params p"
    using assms by (auto simp: build_read_plan_def bindE_eq_Inr split: option.splits)
  then have "covers (pl_sql p) (pl_params p)"
    by (auto intro: object_plan_covers section_plan_covers split: option.splits)
  then show ?thesis using p(2,3) by (simp add: covers_def)
qed

subsection \<open>The text does not depend on values\<close>

text \<open>What is left of a query when its values are taken away: the number of values of \<open>in\<close> stays.\<close>

definition blank_value :: "filter_operator \<Rightarrow> jval \<Rightarrow> jval" where
  "blank_value operator v =
     (case (operator, v) of
        (OpIn, JArr vs) \<Rightarrow> JArr (map (\<lambda>x. if x = JHole then JHole else JUndef) vs)
      | _ \<Rightarrow> JUndef)"

fun blank_filter :: "read_filter \<Rightarrow> read_filter" where
  "blank_filter (FAnd fs) = FAnd (map blank_filter fs)"
| "blank_filter (FOr fs) = FOr (map blank_filter fs)"
| "blank_filter (FNot f) = FNot (blank_filter f)"
| "blank_filter (FCond n operator v) = FCond n operator (blank_value operator v)"

definition blank_query :: "'o read_query \<Rightarrow> 'o read_query" where
  "blank_query q =
     q\<lparr>qwhere := map_option blank_filter (qwhere q), qid := map_option (\<lambda>_. []) (qid q),
       qowner := map_option (\<lambda>_. []) (qowner q), qlimit := map_option (\<lambda>_. 0) (qlimit q),
       qoffset := map_option (\<lambda>_. 0) (qoffset q)\<rparr>"

fun blank_part :: "part \<Rightarrow> part" where
  "blank_part (Fixed s) = Fixed s"
| "blank_part (Value v cast) = Value None cast"

lemma bind_parts_blank:
  "map blank_part parts = map blank_part parts' \<Longrightarrow> length ps = length ps' \<Longrightarrow>
   fst (bind_parts parts ps) = fst (bind_parts parts' ps')
   \<and> length (snd (bind_parts parts ps)) = length (snd (bind_parts parts' ps'))"
proof (induction parts ps arbitrary: parts' ps' rule: bind_parts.induct)
  case (2 s parts ps)
  then obtain rest where "parts' = Fixed s # rest" "map blank_part parts = map blank_part rest"
    by (cases parts'; cases "hd parts'") auto
  with 2 show ?case by (auto simp: split_beta)
next
  case (3 v cast parts ps)
  then obtain w rest where w: "parts' = Value w cast # rest" "map blank_part parts = map blank_part rest"
    by (cases parts'; cases "hd parts'") auto
  have "length (ps @ [v]) = length (ps' @ [w])" using 3 by simp
  with 3(1) [of "fst (bind_param v (Some cast) ps)" "snd (bind_param v (Some cast) ps)" rest "ps' @ [w]"] w 3(3)
  show ?case by (simp add: bind_param_def split_beta)
qed simp

text \<open>Two lists of rendered items with the same indices and the same parts but for the values.\<close>

definition same_items :: "(nat \<times> part list) list \<Rightarrow> (nat \<times> part list) list \<Rightarrow> bool" where
  "same_items = list_all2 (\<lambda>(i, ps) (j, qs). i = j \<and> map blank_part ps = map blank_part qs)"

lemma glue_parts_blank: "same_items pss qss \<Longrightarrow> map blank_part (glue_parts sep pss) = map blank_part (glue_parts sep qss)"
  unfolding same_items_def
  by (induction rule: list_all2_induct) (auto simp: glue_parts_def split: prod.split)

lemma mapE_items:
  assumes "mapE f xs = Inr pss" "mapE g ys = Inr qss" "list_all2 R xs ys"
    "\<And>x y p q. R x y \<Longrightarrow> f x = Inr p \<Longrightarrow> g y = Inr q \<Longrightarrow> S p q"
  shows "list_all2 S pss qss"
  using assms(3,1,2)
proof (induction arbitrary: pss qss rule: list_all2_induct)
  case (Cons x xs y ys)
  then show ?case using assms(4) by (auto simp: bindE_eq_Inr)
qed simp

lemma items_of_blank:
  assumes "map (\<lambda>x. if x = JHole then JHole else JUndef) vs = map (\<lambda>x. if x = JHole then JHole else JUndef) ws"
  shows "list_all2 (\<lambda>(i, v) (j, w). i = j) (items_of vs) (items_of ws)"
proof -
  have "list_all2 (\<lambda>(i, v) (j, w). i = j) (filter (\<lambda>(i, v). v \<noteq> JHole) (enumerate n vs)) (filter (\<lambda>(i, v). v \<noteq> JHole) (enumerate n ws))" for n
    using assms by (induction vs arbitrary: ws n) (auto split: if_splits)
  then show ?thesis by (simp add: items_of_def)
qed

lemma in_parts_blank:
  assumes "in_parts c vs path = Inr ps" "in_parts c ws path = Inr qs"
    "map (\<lambda>x. if x = JHole then JHole else JUndef) vs = map (\<lambda>x. if x = JHole then JHole else JUndef) ws"
  shows "map blank_part ps = map blank_part qs"
proof -
  obtain xs ys where items: "mapE (present_item path) (items_of vs) = Inr xs" "mapE (present_item path) (items_of ws) = Inr ys"
    using assms(1,2) by (auto simp: in_parts_def bindE_eq_Inr)
  have index: "list_all2 (\<lambda>(i, v) (j, w). i = j) xs ys"
    by (rule mapE_items [OF items items_of_blank [OF assms(3)]]) (auto simp: present_item_def bindE_eq_Inr)
  obtain pss qss where r: "mapE (in_item c path) xs = Inr pss" "mapE (in_item c path) ys = Inr qss"
    using assms(1,2) items by (auto simp: in_parts_def bindE_eq_Inr)
  have "same_items pss qss"
    unfolding same_items_def
    by (rule mapE_items [OF r index])
      (auto simp: in_item_def bindE_eq_Inr pair_equals_def split: filter_kind.splits option.splits sum.splits prod.splits)
  then show ?thesis using assms(1,2) items r glue_parts_blank by (auto simp: in_parts_def)
qed

lemma pair_equals_blank:
  "pair_equals c a p v path = Inr ps \<Longrightarrow> pair_equals c a p w path = Inr qs \<Longrightarrow> map blank_part ps = map blank_part qs"
  by (auto simp: pair_equals_def split: sum.splits prod.splits)

lemma compare_parts_blank:
  assumes "compare_parts c operator v path = Inr ps" "compare_parts c operator w path = Inr qs"
  shows "map blank_part ps = map blank_part qs"
proof (cases "\<exists>a p. fc_kind c = AttributeColumn a \<and> fc_pair c = Some p")
  case True
  then obtain a p ps' qs' where e: "pair_equals c a p v path = Inr ps'" "pair_equals c a p w path = Inr qs'"
    "ps = (if operator = OpEq then ps' else Fixed (js ''NOT '') # ps')"
    "qs = (if operator = OpEq then qs' else Fixed (js ''NOT '') # qs')"
    using assms by (auto simp: compare_parts_def bindE_eq_Inr)
  from pair_equals_blank [OF e(1,2)] show ?thesis using e(3,4) by simp
next
  case False
  then show ?thesis
    using assms by (cases "fc_kind c"; cases "fc_pair c") (auto simp: compare_parts_def bindE_eq_Inr)
qed

lemma condition_parts_blank:
  assumes "condition_parts cols path n operator v = Inr ps" "condition_parts cols path n operator w = Inr qs"
    "blank_value operator v = blank_value operator w"
  shows "map blank_part ps = map blank_part qs"
proof -
  obtain c where c: "map_of cols n = Some c" "\<not> fc_lazy c" "allows c operator"
    using assms(1) by (auto simp: condition_parts_def split: option.splits if_splits)
  show ?thesis
  proof (cases "operator = OpIn")
    case True
    have "map (\<lambda>x. if x = JHole then JHole else JUndef) (case v of JArr vs \<Rightarrow> vs | _ \<Rightarrow> [])
        = map (\<lambda>x. if x = JHole then JHole else JUndef) (case w of JArr vs \<Rightarrow> vs | _ \<Rightarrow> [])"
      using assms(3) True by (auto simp: blank_value_def split: jval.splits)
    moreover have "in_parts c (case v of JArr vs \<Rightarrow> vs | _ \<Rightarrow> []) (path @ js ''.value'') = Inr ps"
      "in_parts c (case w of JArr vs \<Rightarrow> vs | _ \<Rightarrow> []) (path @ js ''.value'') = Inr qs"
      using assms(1,2) c True by (simp_all add: condition_parts_def Let_def)
    ultimately show ?thesis using in_parts_blank by blast
  next
    case False
    have pattern: "map blank_part ps = map blank_part qs"
      if "pattern_parts c anywhere v p = Inr ps" "pattern_parts c anywhere w p = Inr qs" for anywhere p
      using that by (auto simp: pattern_parts_def bindE_eq_Inr)
    have compare: "map blank_part ps = map blank_part qs"
      if "compare_parts c operator v p = Inr ps" "compare_parts c operator w p = Inr qs" for p
      using that compare_parts_blank by blast
    show ?thesis using assms(1,2) c False pattern compare
      by (cases operator) (simp_all add: condition_parts_def Let_def)
  qed
qed

lemma blank_filter_shapes:
  "blank_filter f = FNot g \<longleftrightarrow> (\<exists>h. f = FNot h \<and> g = blank_filter h)"
  "blank_filter f = FAnd gs \<longleftrightarrow> (\<exists>hs. f = FAnd hs \<and> gs = map blank_filter hs)"
  "blank_filter f = FOr gs \<longleftrightarrow> (\<exists>hs. f = FOr hs \<and> gs = map blank_filter hs)"
  "blank_filter f = FCond n operator x \<longleftrightarrow> (\<exists>v. f = FCond n operator v \<and> x = blank_value operator v)"
  by (cases f; auto)+

lemma filter_parts_blank:
  "filter_parts cols path f = Inr ps \<Longrightarrow> filter_parts cols path g = Inr qs \<Longrightarrow> blank_filter g = blank_filter f \<Longrightarrow>
   map blank_part ps = map blank_part qs"
  "filter_children cols path i fs = Inr pss \<Longrightarrow> filter_children cols path i gs = Inr qss \<Longrightarrow>
   map blank_filter gs = map blank_filter fs \<Longrightarrow> same_items pss qss"
proof (induction cols path f and cols path i fs arbitrary: g ps qs and gs pss qss rule: filter_parts_filter_children.induct)
  case (1 cols path f)
  from 1(2-4) obtain h ps' qs' where h: "g = FNot h" "blank_filter h = blank_filter f"
    "filter_parts cols (path @ js ''.not'') f = Inr ps'" "filter_parts cols (path @ js ''.not'') h = Inr qs'"
    "ps = Fixed (js ''NOT ('') # ps' @ [Fixed (js '')'')]" "qs = Fixed (js ''NOT ('') # qs' @ [Fixed (js '')'')]"
    by (auto simp: blank_filter_shapes bindE_eq_Inr)
  from 1(1) [OF h(3,4,2)] show ?case using h(5,6) by simp
next
  case (2 cols path fs)
  from 2(2-4) obtain hs pss qss where h: "g = FAnd hs" "map blank_filter hs = map blank_filter fs"
    "filter_children cols (path @ js ''.and'') 0 fs = Inr pss" "filter_children cols (path @ js ''.and'') 0 hs = Inr qss"
    "ps = Fixed (js ''('') # glue_parts (js '' AND '') pss @ [Fixed (js '')'')]"
    "qs = Fixed (js ''('') # glue_parts (js '' AND '') qss @ [Fixed (js '')'')]"
    by (auto simp: blank_filter_shapes bindE_eq_Inr)
  from glue_parts_blank [OF 2(1) [OF h(3,4,2)]] show ?case using h(5,6) by simp
next
  case (3 cols path fs)
  from 3(2-4) obtain hs pss qss where h: "g = FOr hs" "map blank_filter hs = map blank_filter fs"
    "filter_children cols (path @ js ''.or'') 0 fs = Inr pss" "filter_children cols (path @ js ''.or'') 0 hs = Inr qss"
    "ps = Fixed (js ''('') # glue_parts (js '' OR '') pss @ [Fixed (js '')'')]"
    "qs = Fixed (js ''('') # glue_parts (js '' OR '') qss @ [Fixed (js '')'')]"
    by (auto simp: blank_filter_shapes bindE_eq_Inr)
  from glue_parts_blank [OF 3(1) [OF h(3,4,2)]] show ?case using h(5,6) by simp
next
  case (4 cols path n operator v)
  then obtain w where "g = FCond n operator w" "blank_value operator w = blank_value operator v"
    by (auto simp: blank_filter_shapes)
  with 4 condition_parts_blank [of cols path n operator v ps w qs] show ?case by simp
next
  case (5 cols path i)
  then show ?case by (auto simp: same_items_def)
next
  case (6 cols path i f fs)
  from 6(5) obtain g gs' where gs: "gs = g # gs'" "blank_filter g = blank_filter f" "map blank_filter gs' = map blank_filter fs"
    by (cases gs) auto
  obtain ps pss' where f: "filter_parts cols (at_index path i) f = Inr ps"
    "filter_children cols path (i + 1) fs = Inr pss'" "pss = (i, ps) # pss'"
    using 6(3) by (auto simp: bindE_eq_Inr)
  obtain qs qss' where g: "filter_parts cols (at_index path i) g = Inr qs"
    "filter_children cols path (i + 1) gs' = Inr qss'" "qss = (i, qs) # qss'"
    using 6(4) gs(1) by (auto simp: bindE_eq_Inr)
  from 6(1) [OF f(1) g(1) gs(2)] 6(2) [OF f(2) g(2) gs(3)] show ?case
    using f(3) g(3) by (simp add: same_items_def)
qed

subsection \<open>The owner of a page of lines\<close>

definition names_parent :: "jstr \<Rightarrow> read_filter \<Rightarrow> bool" where
  "names_parent name f = (case f of FCond n operator _ \<Rightarrow> n = name \<and> operator = OpEq | _ \<Rightarrow> False)"

lemma names_parent_blank [simp]: "names_parent name (blank_filter f) = names_parent name f"
  by (cases f) (simp_all add: names_parent_def)

lemma parent_column:
  "map_of (section_filter_columns s) (sparent_name s) =
     Some (if sline_name s = sparent_name s then platform_column (sline_name s) (sline s) LineColumn
       else platform_column (sparent_name s) (sparent s) ParentColumn)"
  by (simp add: section_filter_columns_def platform_column_def)

lemma parent_value:
  assumes "filter_parts (section_filter_columns s) path f = Inr ps" "f = FCond (sparent_name s) OpEq v"
  shows "string_of v \<noteq> None \<longleftrightarrow> sline_name s \<noteq> sparent_name s"
  using assms
  by (cases v)
    (auto simp: condition_parts_def parent_column Let_def compare_parts_def bindE_eq_Inr filter_scalar_def
      platform_column_def string_of_def split: if_splits)

lemma parent_eq_children:
  "filter_children (section_filter_columns s) path i fs = Inr pss \<Longrightarrow>
   string_of (parent_eq_of (sparent_name s) fs) \<noteq> None \<longleftrightarrow>
     list_ex (names_parent (sparent_name s)) fs \<and> sline_name s \<noteq> sparent_name s"
proof (induction fs arbitrary: i pss)
  case (Cons f fs)
  then obtain ps pss' where run: "filter_parts (section_filter_columns s) (at_index path i) f = Inr ps"
    "filter_children (section_filter_columns s) path (i + 1) fs = Inr pss'"
    by (auto simp: bindE_eq_Inr)
  show ?case
  proof (cases "names_parent (sparent_name s) f")
    case True
    then obtain v where f: "f = FCond (sparent_name s) OpEq v" by (auto simp: names_parent_def split: read_filter.splits)
    from parent_value [OF run(1) f] show ?thesis using True f by simp
  next
    case False
    then have "parent_eq_of (sparent_name s) (f # fs) = parent_eq_of (sparent_name s) fs"
      by (cases f) (auto simp: names_parent_def)
    then show ?thesis using Cons.IH [OF run(2)] False by simp
  qed
qed (simp add: string_of_def)

definition conjuncts :: "read_filter \<Rightarrow> read_filter list" where
  "conjuncts f = (case f of FAnd fs \<Rightarrow> fs | _ \<Rightarrow> [f])"

lemma top_level_parent:
  assumes "filter_parts (section_filter_columns s) path f = Inr ps"
  shows "string_of (top_level_parent_eq (Some f) (sparent_name s)) \<noteq> None \<longleftrightarrow>
     list_ex (names_parent (sparent_name s)) (conjuncts f) \<and> sline_name s \<noteq> sparent_name s"
proof (cases f)
  case (FAnd fs)
  then obtain pss where "filter_children (section_filter_columns s) (path @ js ''.and'') 0 fs = Inr pss"
    using assms by (auto simp: bindE_eq_Inr)
  from parent_eq_children [OF this] show ?thesis using FAnd by (simp add: top_level_parent_eq_def conjuncts_def)
next
  case (FCond n operator v)
  then show ?thesis
    using parent_value [OF assms]
    by (cases "n = sparent_name s \<and> operator = OpEq")
      (auto simp: top_level_parent_eq_def conjuncts_def names_parent_def string_of_def)
qed (simp_all add: top_level_parent_eq_def conjuncts_def names_parent_def string_of_def)

lemma conjuncts_blank [simp]: "conjuncts (blank_filter f) = map blank_filter (conjuncts f)"
  by (cases f) (simp_all add: conjuncts_def)

lemma list_ex_names_blank [simp]: "list_ex (names_parent name) (map blank_filter fs) = list_ex (names_parent name) fs"
  by (induction fs) simp_all

subsection \<open>Two queries of the same form\<close>

lemma where_clause_SomeD:
  assumes "where_clause cols (Some f) ps = Inr (c, ps1)"
  obtains parts where "filter_parts cols where_path f = Inr parts" "c = lit '' WHERE '' @ fst (bind_parts parts ps)"
    "ps1 = snd (bind_parts parts ps)"
proof (cases "filter_parts cols where_path f")
  case (Inr parts)
  obtain out ps' where "bind_parts parts ps = (out, ps')" by (cases "bind_parts parts ps")
  then show thesis using that [OF Inr] assms Inr by (simp add: where_clause_def render_filter_def)
qed (use assms in \<open>simp add: where_clause_def render_filter_def\<close>)

lemma where_clause_blank:
  assumes "where_clause cols f ps = Inr (c, ps1)" "where_clause cols g ps' = Inr (d, ps2)"
    "map_option blank_filter g = map_option blank_filter f" "length ps = length ps'"
  shows "d = c \<and> length ps1 = length ps2"
proof (cases f)
  case None
  then show ?thesis using assms by (cases g) (simp_all add: where_clause_def)
next
  case (Some f')
  then obtain g' where g: "g = Some g'" "blank_filter g' = blank_filter f'" using assms(3) by auto
  obtain parts where p: "filter_parts cols where_path f' = Inr parts" "c = lit '' WHERE '' @ fst (bind_parts parts ps)"
    "ps1 = snd (bind_parts parts ps)"
    using assms(1) unfolding Some by (rule where_clause_SomeD)
  obtain parts' where q: "filter_parts cols where_path g' = Inr parts'" "d = lit '' WHERE '' @ fst (bind_parts parts' ps')"
    "ps2 = snd (bind_parts parts' ps')"
    using assms(2) unfolding g(1) by (rule where_clause_SomeD)
  from bind_parts_blank [OF filter_parts_blank(1) [OF p(1) q(1) g(2)] assms(4)]
  have "fst (bind_parts parts' ps') = fst (bind_parts parts ps)" "length (snd (bind_parts parts ps)) = length (snd (bind_parts parts' ps'))"
    by simp_all
  then show ?thesis unfolding p(2,3) q(2,3) by simp
qed

lemma page_limit_blank:
  "map_option (\<lambda>_. 0 :: int) (qoffset q) = map_option (\<lambda>_. 0) (qoffset q') \<Longrightarrow> length ps = length ps' \<Longrightarrow>
   fst (page_limit q ps) = fst (page_limit q' ps') \<and> length (snd (page_limit q ps)) = length (snd (page_limit q' ps'))"
  by (cases "qoffset q"; cases "qoffset q'") (simp_all add: page_limit_def bind_param_def Let_def)

lemma owner_conditions_blank:
  "length ps = length ps' \<Longrightarrow>
   (case owner_conditions e s i cs bound ps of (out, b, ps1) \<Rightarrow>
    case owner_conditions e s j cs bound ps' of (out', b', ps2) \<Rightarrow> out = out' \<and> b = b' \<and> length ps1 = length ps2)"
proof (induction cs arbitrary: bound ps ps')
  case (Cons c cs)
  obtain column target where c: "c = (column, target)" by (cases c)
  obtain p ps1 where o1: "owner_id i bound ps = (p, ps1)" by (cases "owner_id i bound ps")
  obtain ps2 where o2: "owner_id j bound ps' = (p, ps2)" "length ps1 = length ps2"
    using o1 Cons.prems by (auto simp: owner_id_def bind_param_def split: option.splits)
  from Cons.IH [OF o2(2), of "Some p"] Cons.IH [OF Cons.prems, of bound] show ?case
    using c o1 o2 by (auto split: prod.splits)
qed simp

lemma section_where_blank:
  assumes "section_where e s f = Inr (c, b, ps)" "section_where e s g = Inr (d, b', ps')"
    "map_option blank_filter g = map_option blank_filter f"
  shows "c = d \<and> b = b' \<and> length ps = length ps'
    \<and> (string_of (top_level_parent_eq f (sparent_name s)) = None \<longleftrightarrow> string_of (top_level_parent_eq g (sparent_name s)) = None)"
proof -
  obtain c0 ps0 where w1: "where_clause (section_filter_columns s) f [] = Inr (c0, ps0)"
    using assms(1) by (auto simp: section_where_def bindE_eq_Inr)
  obtain d0 qs0 where w2: "where_clause (section_filter_columns s) g [] = Inr (d0, qs0)"
    using assms(2) by (auto simp: section_where_def bindE_eq_Inr)
  have same: "d0 = c0" "length ps0 = length qs0" using where_clause_blank [OF w1 w2 assms(3)] by auto
  have parent: "string_of (top_level_parent_eq f (sparent_name s)) = None \<longleftrightarrow> string_of (top_level_parent_eq g (sparent_name s)) = None"
  proof (cases f)
    case None
    then show ?thesis using assms(3) by (cases g) (simp_all add: top_level_parent_eq_def)
  next
    case (Some f')
    then obtain g' where g: "g = Some g'" "blank_filter g' = blank_filter f'" using assms(3) by auto
    obtain p q where "filter_parts (section_filter_columns s) where_path f' = Inr p"
      "filter_parts (section_filter_columns s) where_path g' = Inr q"
      using w1 w2 Some g by (auto simp: where_clause_def render_filter_def bindE_eq_Inr)
    note parents = top_level_parent [OF this(1)] top_level_parent [OF this(2)]
    have "list_ex (names_parent (sparent_name s)) (conjuncts g') = list_ex (names_parent (sparent_name s)) (conjuncts f')"
      using conjuncts_blank list_ex_names_blank g(2) by metis
    with parents
    show ?thesis unfolding Some g(1) by blast
  qed
  show ?thesis
  proof (cases "string_of (top_level_parent_eq f (sparent_name s))")
    case None
    moreover from this parent have "string_of (top_level_parent_eq g (sparent_name s)) = None" by simp
    ultimately show ?thesis
      using assms(1,2) w1 w2 same parent
      by (auto simp: section_where_def string_of_def split: jval.splits)
  next
    case (Some i)
    moreover from this parent obtain j where "string_of (top_level_parent_eq g (sparent_name s)) = Some j" by auto
    ultimately show ?thesis
      using assms(1,2) w1 w2 same parent owner_conditions_blank [OF same(2), where e = e and s = s and i = i and cs = "parent_key_of s" and bound = None and j = j]
      by (auto simp: section_where_def string_of_def split: jval.splits prod.splits)
  qed
qed

text \<open>Two plans that differ at most in the values of their parameters.\<close>

definition same_plan :: "read_plan \<Rightarrow> read_plan \<Rightarrow> bool" where
  "same_plan p p' \<longleftrightarrow> p\<lparr>pl_params := []\<rparr> = p'\<lparr>pl_params := []\<rparr> \<and> length (pl_params p) = length (pl_params p')"

lemma same_plan_of [simp]:
  "same_plan (plan_of t ps r ss u) (plan_of t' ps' r' ss' u') \<longleftrightarrow>
     t = t' \<and> r = r' \<and> ss = ss' \<and> u = u' \<and> length ps = length ps'"
  by (auto simp: same_plan_def plan_of_def)

lemma card_plan_blank:
  assumes "card_plan e i selected = Inr p" "card_plan e j selected = Inr p'"
  shows "same_plan p p'"
proof -
  obtain ss where "card_sections e selected = Inr ss" using assms(1) by (auto simp: card_plan_def bindE_eq_Inr)
  then show ?thesis using assms by (cases "ss = []") (auto simp: card_plan_def bind_param_def)
qed

lemma capped_count_blank:
  "length ps = length ps' \<Longrightarrow> same_plan (capped_count table condition ps) (capped_count table condition ps')"
  by (simp add: capped_count_def bind_param_def Let_def)

lemma blank_query_fields:
  assumes "blank_query q = blank_query q'"
  shows "qsection q = qsection q'" "qsections q = qsections q'" "qorder q = qorder q'" "qinclude q = qinclude q'"
    "qcount q = qcount q'" "map_option blank_filter (qwhere q') = map_option blank_filter (qwhere q)"
    "(qid q = None) = (qid q' = None)" "(qowner q = None) = (qowner q' = None)"
    "map_option (\<lambda>_. 0 :: int) (qoffset q) = map_option (\<lambda>_. 0) (qoffset q')"
  using assms by (cases q; cases q'; auto simp: blank_query_def)+

lemma object_plan_blank:
  assumes "build_object_plan e q = Inr p" "build_object_plan e q' = Inr p'" "blank_query q = blank_query q'"
  shows "same_plan p p'"
proof (cases "qid q")
  case (Some i)
  then obtain j where "qid q' = Some j" using blank_query_fields(7) [OF assms(3)] by auto
  then show ?thesis
    using assms(1,2) Some blank_query_fields(2) [OF assms(3)] card_plan_blank by (simp add: build_object_plan_def)
next
  case None
  then have ids: "qid q = None" "qid q' = None" using blank_query_fields(7) [OF assms(3)] by auto
  note same = blank_query_fields [OF assms(3)]
  obtain c ps where w: "where_clause (object_filter_columns e) (qwhere q) [] = Inr (c, ps)"
    using assms(1) ids by (auto simp: build_object_plan_def bindE_eq_Inr)
  obtain d ps' where w': "where_clause (object_filter_columns e) (qwhere q') [] = Inr (d, ps')"
    using assms(2) ids by (auto simp: build_object_plan_def bindE_eq_Inr)
  have eq: "d = c" "length ps = length ps'" using where_clause_blank [OF w w' same(6)] by auto
  show ?thesis
  proof (cases "qcount q")
    case True
    then show ?thesis
      using assms(1,2) ids w w' eq same(5) capped_count_blank [OF eq(2)] by (auto simp: build_object_plan_def)
  next
    case False
    obtain order where o: "order_clause (okey_name e) (okey e) (object_filter_columns e) (qorder q) [] = Inr order"
      using assms(1) ids w False by (auto simp: build_object_plan_def bindE_eq_Inr)
    obtain page rest page' rest' where l: "page_limit q ps = (page, rest)" "page_limit q' ps' = (page', rest')"
      by (cases "page_limit q ps"; cases "page_limit q' ps'")
    have "page = page'" "length rest = length rest'" using page_limit_blank [OF same(9) eq(2)] l by auto
    then show ?thesis
      using assms(1,2) ids w w' eq same(3,5) False o l by (auto simp: build_object_plan_def)
  qed
qed

lemma section_page_blank:
  assumes "length ps = length ps'" "string_of v = None \<longleftrightarrow> string_of w = None"
    "map_option (\<lambda>_. 0 :: int) (qoffset q) = map_option (\<lambda>_. 0) (qoffset q')"
  shows "same_plan (section_page_plan e s q v order c b ps) (section_page_plan e s q' w order c b ps')"
proof (cases "string_of v")
  case None
  then have none: "string_of v = None" "string_of w = None" using assms(2) by auto
  obtain page rest page' rest' where l: "page_limit q ps = (page, rest)" "page_limit q' ps' = (page', rest')"
    by (cases "page_limit q ps"; cases "page_limit q' ps'")
  have "page = page'" "length rest = length rest'" using page_limit_blank [OF assms(3,1)] l by auto
  then show ?thesis using none l by (cases v; cases w) (simp_all add: section_page_plan_def string_of_def)
next
  case (Some i)
  then obtain j where j: "v = JStr i" "w = JStr j" using assms(2) by (cases v; cases w) (auto simp: string_of_def)
  obtain p ps1 ps2 where o: "owner_id i b ps = (p, ps1)" "owner_id j b ps' = (p, ps2)" "length ps1 = length ps2"
    using assms(1) by (cases b) (auto simp: owner_id_def bind_param_def)
  obtain page rest page' rest' where l: "page_limit q ps1 = (page, rest)" "page_limit q' ps2 = (page', rest')"
    by (cases "page_limit q ps1"; cases "page_limit q' ps2")
  have "page = page'" "length rest = length rest'" using page_limit_blank [OF assms(3) o(3)] l by auto
  then show ?thesis using j o l by (simp add: section_page_plan_def)
qed

lemma section_plan_blank:
  assumes "build_section_plan e name q = Inr p" "build_section_plan e name q' = Inr p'" "blank_query q = blank_query q'"
  shows "same_plan p p'"
proof -
  note same = blank_query_fields [OF assms(3)]
  obtain s where s: "find (\<lambda>s. sname s = name) (osections e) = Some s"
    using assms(1) by (auto simp: build_section_plan_def split: option.splits)
  show ?thesis
  proof (cases "qowner q")
    case (Some i)
    then obtain j where "qowner q' = Some j" using same(8) by auto
    then show ?thesis using assms(1,2) s Some
      by (auto simp: build_section_plan_def owner_lines_plan_def bind_param_def)
  next
    case None
    then have owners: "qowner q = None" "qowner q' = None" using same(8) by auto
    obtain c b ps where w: "section_where e s (qwhere q) = Inr (c, b, ps)"
      using assms(1) s owners by (auto simp: build_section_plan_def bindE_eq_Inr)
    obtain d b' ps' where w': "section_where e s (qwhere q') = Inr (d, b', ps')"
      using assms(2) s owners by (auto simp: build_section_plan_def bindE_eq_Inr)
    have eq: "d = c" "b' = b" "length ps = length ps'"
      "string_of (top_level_parent_eq (qwhere q) (sparent_name s)) = None \<longleftrightarrow>
       string_of (top_level_parent_eq (qwhere q') (sparent_name s)) = None"
      using section_where_blank [OF w w' same(6)] by auto
    show ?thesis
    proof (cases "qcount q")
      case True
      then show ?thesis
        using assms(1,2) s owners w w' eq same(5) capped_count_blank [OF eq(3)]
        by (auto simp: build_section_plan_def Let_def split: if_splits)
    next
      case False
      then obtain order where o: "order_clause (skey_name s) (skey s) (section_filter_columns s) (qorder q) [sline s] = Inr order"
        using assms(1) s owners w by (auto simp: build_section_plan_def bindE_eq_Inr Let_def)
      show ?thesis
        using assms(1,2) s owners w w' eq(1,2) same(3,5) False o section_page_blank [OF eq(3,4) same(9)]
        by (auto simp: build_section_plan_def Let_def)
    qed
  qed
qed

text \<open>
  C4. No injection through reads. The text of a planned statement, and how its answer is read,
  depend only on the catalog and on the form of the query: two queries that differ in the
  values of their conditions, in ids, limits and offsets get the same text with the same
  number of parameters. Everything else the client sends reaches the database as a parameter.
\<close>

theorem read_text_independent:
  assumes "build_read_plan catalog e q = Inr plan" "build_read_plan catalog e q' = Inr plan'"
    "blank_query q = blank_query q'"
  shows "stext (read_statement plan) = stext (read_statement plan')
    \<and> plan\<lparr>pl_params := []\<rparr> = plan'\<lparr>pl_params := []\<rparr> \<and> length (pl_params plan) = length (pl_params plan')"
proof -
  note same = blank_query_fields [OF assms(3)]
  let ?build = "\<lambda>q. case qsection q of None \<Rightarrow> build_object_plan e q | Some n \<Rightarrow> build_section_plan e n q"
  obtain p p' where p: "?build q = Inr p" "?build q' = Inr p'"
    using assms(1,2) by (auto simp: build_read_plan_def bindE_eq_Inr)
  have base: "same_plan p p'"
    using p same(1) object_plan_blank [OF _ _ assms(3)] section_plan_blank [OF _ _ assms(3)]
    by (auto split: option.splits)
  have ids: "(qid q = None) = (qid q' = None)" by (rule same(7))
  show ?thesis
  proof (cases "qinclude q")
    case None
    then have "plan = p" "plan' = p'" using assms(1,2) p same(4) by (simp_all add: build_read_plan_def)
    then show ?thesis using base by (cases p; cases p') (simp add: same_plan_def read_statement_def)
  next
    case (Some ns)
    obtain steps where "include_steps catalog e (qid q = None) 0 ns [] = Inr steps"
      "plan = p\<lparr>pl_include := Some steps\<rparr>" "plan' = p'\<lparr>pl_include := Some steps\<rparr>"
      using assms(1,2) p ids Some same(4) [symmetric] by (auto simp: build_read_plan_def bindE_eq_Inr)
    then show ?thesis using base by (cases p; cases p') (simp add: same_plan_def read_statement_def)
  qed
qed

subsection \<open>Samples\<close>

text \<open>A page of the lines of one product, and the same page of another one.\<close>

definition packing_query :: "jstr \<Rightarrow> int \<Rightarrow> metadata_ref read_query" where
  "packing_query owner n =
     \<lparr>qobject = entry_ref product_entry, qsection = Some (js ''packing''), qsections = None,
      qwhere = Some (FAnd [FCond (js ''productId'') OpEq (JStr owner),
        FCond (js ''boxCount'') OpIn (JArr [JNum (Dec n 0), JNum (Dec 7 0)])]),
      qorder = None, qinclude = None, qid = None, qowner = None, qlimit = Some n, qoffset = None, qcount = False\<rparr>"

definition sample_owner :: jstr where "sample_owner = js ''7f3c1a52-9f0e-4b7a-8d11-0123456789ab''"
definition other_owner :: jstr where "other_owner = js ''00000000-9f0e-4b7a-8d11-0123456789ab''"

definition sample_plan :: "jstr \<Rightarrow> int \<Rightarrow> read_plan" where
  "sample_plan owner n = projr (build_read_plan [product_entry] product_entry (packing_query owner n))"

lemma sample_plans:
  "build_read_plan [product_entry] product_entry (packing_query sample_owner 5) = Inr (sample_plan sample_owner 5)"
  "build_read_plan [product_entry] product_entry (packing_query other_owner 9) = Inr (sample_plan other_owner 9)"
  by code_simp+

lemma read_params_exact_witness:
  "slots (pl_sql (sample_plan sample_owner 5)) = {1..length (pl_params (sample_plan sample_owner 5))}"
  by (rule read_params_exact [OF sample_plans(1)])

lemma read_text_independent_witness:
  "stext (read_statement (sample_plan sample_owner 5)) = stext (read_statement (sample_plan other_owner 9))
    \<and> (sample_plan sample_owner 5)\<lparr>pl_params := []\<rparr> = (sample_plan other_owner 9)\<lparr>pl_params := []\<rparr>
    \<and> length (pl_params (sample_plan sample_owner 5)) = length (pl_params (sample_plan other_owner 9))"
  by (rule read_text_independent [OF sample_plans]) (simp add: blank_query_def packing_query_def blank_value_def)

end
