(* ===== verification/Phases.thy ===== *)
theory Phases
  imports ReadPlan
begin

section \<open>The phases of a command\<close>

text \<open>
  \<open>server/phase.ts\<close> and \<open>server/hook-context.ts\<close>: the input of a command is checked against the
  catalog, and every operation runs as a phase: the check of tabular rows, the hook before the
  write, the core call with its context in one unit of the queue, the core row, the hook after
  the write. Hooks may start further phases.

  The port, the clock, random numbers and generated ids are operations on an abstract world
  \<open>'w\<close>. Hooks are programs of the application; here they make their calls one after the other
  and wait for each (\<open>CommandQueue\<close> has the interleaved calls).
\<close>

subsection \<open>The world\<close>

record 'w port =
  rp_connect :: "'w \<Rightarrow> (thrown + unit) \<times> 'w"
  rp_query :: "statement \<Rightarrow> 'w \<Rightarrow> (thrown + query_result) \<times> 'w"
  rp_release :: "bool \<Rightarrow> 'w \<Rightarrow> 'w"
  rp_now :: "'w \<Rightarrow> rat \<times> 'w"
  rp_random :: "'w \<Rightarrow> rat \<times> 'w"
  rp_wait :: "rat \<Rightarrow> 'w \<Rightarrow> 'w"
  rp_uuid :: "'w \<Rightarrow> jstr \<times> 'w"

text \<open>What the next step of the queue meets: the clock, or the answer to what was sent last.\<close>

definition no_answer :: "thrown + query_result" where
  "no_answer = Inr \<lparr>qrows = [], qcommand = []\<rparr>"

definition sent_query :: "sent_statement \<Rightarrow> statement" where
  "sent_query x = (case x of Bound ms \<Rightarrow> bound_statement ms | Work st \<Rightarrow> st)"

definition meet :: "'w port \<Rightarrow> queue \<Rightarrow> 'w \<Rightarrow> rat \<times> (thrown + query_result) \<times> 'w" where
  "meet P s w =
     (case running s of
        Check _ rest _ \<Rightarrow>
          if rest \<noteq> [] \<and> terminal s = None then (let (now, w) = rp_now P w in (now, no_answer, w))
          else (0, no_answer, w)
      | Limit _ _ _ \<Rightarrow> (let (answer, w) = rp_query P (sent_query (List.last (sent s))) w in (0, answer, w))
      | Sent _ _ \<Rightarrow> (let (answer, w) = rp_query P (sent_query (List.last (sent s))) w in (0, answer, w))
      | _ \<Rightarrow> (0, no_answer, w))"

function run_queue :: "'w port \<Rightarrow> entry list \<Rightarrow> rat \<Rightarrow> 'w \<Rightarrow> queue \<Rightarrow> 'w \<times> queue" where
  "run_queue P catalog deadline w s =
     (if settled s then (w, s)
      else (case meet P s w of (now, answer, w) \<Rightarrow>
        run_queue P catalog deadline w (advance_queue catalog deadline now answer s)))"
  by pat_completeness auto
termination
  by (relation "measure (\<lambda>(_, _, _, _, s). queue_weight s)") (simp_all add: queue_weight_advance)

declare run_queue.simps [simp del]

lemma run_queue_settled: "settled (snd (run_queue P catalog deadline w s))"
proof (induction P catalog deadline w s rule: run_queue.induct)
  case (1 P catalog deadline w s)
  then show ?case by (subst run_queue.simps) (cases "meet P s w", auto)
qed

lemma run_queue_run: "queue_run catalog deadline s (snd (run_queue P catalog deadline w s))"
proof (induction P catalog deadline w s rule: run_queue.induct)
  case (1 P catalog deadline w s)
  show ?case
  proof (cases "settled s")
    case False
    obtain now answer w' where m: "meet P s w = (now, answer, w')" by (cases "meet P s w")
    from queue_step.Advance [OF False, of catalog deadline now answer] 1 [OF False m [symmetric] refl] show ?thesis
      using False m by (subst run_queue.simps) (simp add: converse_rtranclp_into_rtranclp)
  qed (subst run_queue.simps, simp)
qed

subsection \<open>An attempt\<close>

text \<open>An exception: a failure that the runtime raised, or anything else.\<close>

datatype exn = Failure command_error | RawException

record 'w attempt =
  at_world :: 'w
  at_queue :: queue
  at_changes :: "metadata_ref change list"
  at_after :: "('w \<Rightarrow> bool \<times> 'w) list"
  at_user :: jstr
  at_act :: "jstr option"
  at_nested :: nat

type_synonym ('w, 'a) action = "'w attempt \<Rightarrow> (exn + 'a) \<times> 'w attempt"

definition returnT :: "'a \<Rightarrow> ('w, 'a) action" where
  "returnT x s = (Inr x, s)"

definition throwT :: "exn \<Rightarrow> ('w, 'a) action" where
  "throwT e s = (Inl e, s)"

definition bindT :: "('w, 'a) action \<Rightarrow> ('a \<Rightarrow> ('w, 'b) action) \<Rightarrow> ('w, 'b) action" where
  "bindT m f s = (case m s of (Inl e, s) \<Rightarrow> (Inl e, s) | (Inr x, s) \<Rightarrow> f x s)"

definition close_attempt :: "terminal \<Rightarrow> 'w attempt \<Rightarrow> 'w attempt" where
  "close_attempt t s = s\<lparr>at_queue := close_queue t (at_queue s)\<rparr>"

definition log_attempt :: "'w attempt \<Rightarrow> 'w attempt" where
  "log_attempt s = s\<lparr>at_queue := log_error True (at_queue s)\<rparr>"

text \<open>\<open>abort\<close> and \<open>anomaly\<close>.\<close>

definition abort :: "command_error \<Rightarrow> ('w, 'a) action" where
  "abort x s = (Inl (Failure x), close_attempt (plain_terminal x) s)"

definition anomaly :: "('w, 'a) action" where
  "anomaly s = abort internal_error (log_attempt s)"

definition or_abort :: "command_error + 'a \<Rightarrow> ('w, 'a) action" where
  "or_abort r = (case r of Inl x \<Rightarrow> abort x | Inr y \<Rightarrow> returnT y)"

text \<open>What a created runtime holds, with the deadline of the call.\<close>

record ctx_info =
  cx_object :: metadata_ref
  cx_id :: jstr
  cx_action :: object_operation
  cx_mark :: "bool option"
  cx_user :: jstr
  cx_act :: "jstr option"

text \<open>
  A hook as the calls it makes. The operation of \<open>ctx.run\<close> and the query of \<open>ctx.read\<close> are what
  the schema made of them: the operation or query, or the path of its first issue. The outcome of a call, a rejection included, goes to
  the rest of the program, so a hook may catch it. \<open>additionalProperties\<close> is a row of its own.
\<close>

type_synonym schema_answer = "jstr option + metadata_ref operation"
type_synonym schema_query = "jstr option + metadata_ref read_query"

datatype ('w, 'a) hook =
    HReturn 'a
  | HThrow
  | HRun schema_answer "exn + row \<Rightarrow> ('w, 'a) hook"
  | HRead schema_query "exn + read_result \<Rightarrow> ('w, 'a) hook"
  | HReject jstr "jstr option" "('w, 'a) hook"
  | HAfter "'w \<Rightarrow> bool \<times> 'w" "('w, 'a) hook"
  | HGet "row \<Rightarrow> ('w, 'a) hook"
  | HSet row "('w, 'a) hook"

record 'w object_module =
  before_write :: "(ctx_info \<Rightarrow> row \<Rightarrow> ('w, jval) hook) option"
  on_write :: "(ctx_info \<Rightarrow> row \<Rightarrow> ('w, unit) hook) option"

record 'w runtime =
  rt_port :: "'w port"
  rt_catalog :: "entry list"
  rt_modules :: "jstr \<Rightarrow> 'w object_module option"
  rt_max_attempts :: nat
  rt_max_depth :: nat
  rt_budget :: int
  rt_lock :: int
  rt_deadline :: rat

text \<open>\<open>tx.enqueue\<close> and the wait for its result.\<close>

definition enqueue :: "'w runtime \<Rightarrow> statement list \<Rightarrow> error_phase option \<Rightarrow> int option \<Rightarrow> ('w, query_result) action" where
  "enqueue rt statements phase claims s =
     (let j = \<lparr>jstatements = statements, jphase = phase, jclaims = claims\<rparr>;
          (w, q) = run_queue (rt_port rt) (rt_catalog rt) (rt_deadline rt) (at_world s) (enqueue_job j (at_queue s));
          s = s\<lparr>at_world := w, at_queue := q\<rparr>
      in case List.last (results q) of
           Inl x \<Rightarrow> (Inl (Failure x), s)
         | Inr r \<Rightarrow> (Inr r, s))"

definition fresh_id :: "'w runtime \<Rightarrow> 'w \<Rightarrow> jstr \<times> 'w" where
  "fresh_id rt w = rp_uuid (rt_port rt) w"

subsection \<open>The input\<close>

record prepared =
  pr_op :: "metadata_ref operation"
  pr_id :: jstr
  pr_member :: "jstr option"

definition root_invalid :: command_error where
  "root_invalid = error_of ''command.invalid''"

definition invalid_at :: "jstr option \<Rightarrow> command_error" where
  "invalid_at p = (case p of None \<Rightarrow> root_invalid | Some path \<Rightarrow> invalid path)"

fun op_action :: "'o operation \<Rightarrow> object_operation" where
  "op_action (CreateOp _ _ _ _ _) = Create"
| "op_action (UpdateOp _ _ _ _ _ _) = Update"
| "op_action (MarkOp _ _ _ _) = MarkDeletion"
| "op_action (DeleteOp _ _ _) = Delete"

definition operation_target_of :: "entry \<Rightarrow> object_operation \<Rightarrow> operation_target option" where
  "operation_target_of e a =
     (case ooperations e of
        None \<Rightarrow> None
      | Some ops \<Rightarrow>
          (case a of
             Create \<Rightarrow> map_option fst (create_target ops)
           | Update \<Rightarrow> update_target ops
           | MarkDeletion \<Rightarrow> mark_target ops
           | Delete \<Rightarrow> delete_target ops))"

definition target_of :: "entry list \<Rightarrow> metadata_ref operation \<Rightarrow> command_error + entry \<times> operation_target" where
  "target_of catalog op =
     (case find (\<lambda>e. entry_ref e = op_object op) catalog of
        None \<Rightarrow> Inl (invalid (js ''object''))
      | Some e \<Rightarrow>
          (case operation_target_of e (op_action op) of
             None \<Rightarrow> Inl (invalid (js ''action''))
           | Some t \<Rightarrow> Inr (e, t)))"

text \<open>\<open>rootCreateOf\<close>: \<open>Some\<close> of the membership catalog, if any, for the creation of a scope root.\<close>

definition root_create_of :: "entry list \<Rightarrow> entry \<Rightarrow> metadata_ref operation \<Rightarrow> entry option option" where
  "root_create_of catalog e op =
     (if op_action op \<noteq> Create then None
      else case Option.bind (ooperations e) create_target of
        Some (_, Some m) \<Rightarrow> Some (Option.bind m (\<lambda>i. find (\<lambda>x. oid x = i) catalog))
      | _ \<Rightarrow> None)"

definition encode_member :: "entry \<Rightarrow> jval \<Rightarrow> command_error + row" where
  "encode_member m values =
     encode_attributes (oattributes m) values
       \<lparr>allowed = ainsert,
        forced = map aname (filter (\<lambda>a. Some (acolumn a) = oscope_column m \<or> Some (acolumn a) = omembership m)
          (oattributes m)),
        opath = creator_word, oprefix = creator_word @ [46], row_key = None\<rparr>"

definition root_input :: "'w runtime \<Rightarrow> entry \<Rightarrow> metadata_ref operation \<Rightarrow> 'w \<Rightarrow> (command_error + jstr \<times> jstr option) \<times> 'w" where
  "root_input rt e op w =
     (case op of
        CreateOp _ i _ sections member \<Rightarrow>
          (case root_create_of (rt_catalog rt) e op of
             None \<Rightarrow>
               (case i of
                  None \<Rightarrow> (Inl (invalid (js ''id'')), w)
                | Some x \<Rightarrow> if member \<noteq> None then (Inl (invalid creator_word), w) else (Inr (x, None), w))
           | Some membership \<Rightarrow>
               if i \<noteq> None then (Inl (invalid (js ''id'')), w)
               else if sections \<noteq> None then (Inl (invalid sections_word), w)
               else (case membership of
                 None \<Rightarrow>
                   if member = None then (let (x, w) = fresh_id rt w in (Inr (x, None), w))
                   else (Inl (invalid creator_word), w)
               | Some m \<Rightarrow>
                   (case encode_member m (case member of None \<Rightarrow> JObj [] | Some v \<Rightarrow> v) of
                      Inl x \<Rightarrow> (Inl x, w)
                    | Inr _ \<Rightarrow> (let (x, w) = fresh_id rt w; (y, w) = fresh_id rt w in (Inr (x, Some y), w)))))
      | UpdateOp _ x _ _ _ _ \<Rightarrow> (Inr (x, None), w)
      | MarkOp _ x _ _ \<Rightarrow> (Inr (x, None), w)
      | DeleteOp _ x _ \<Rightarrow> (Inr (x, None), w))"

definition draft_fields :: "jval option \<Rightarrow> jval option \<Rightarrow> row" where
  "draft_fields values sections =
     (case values of None \<Rightarrow> [] | Some v \<Rightarrow> [(values_key, v)])
     @ (case sections of None \<Rightarrow> [] | Some v \<Rightarrow> [(sections_word, v)])"

definition draft_of :: "metadata_ref operation \<Rightarrow> row" where
  "draft_of op =
     (case op of
        CreateOp _ _ values sections _ \<Rightarrow> draft_fields values sections
      | UpdateOp _ _ _ values sections _ \<Rightarrow> draft_fields values sections
      | _ \<Rightarrow> [])"

text \<open>The key of a section row in lower case, and the rows that the operation carries.\<close>

definition row_id_of :: "tabular_section \<Rightarrow> jval \<Rightarrow> jstr" where
  "row_id_of s v = to_lower (case v of JObj r \<Rightarrow> scalar_string (get r (skey_name s)) | _ \<Rightarrow> [])"

definition carried_rows :: "jval option \<Rightarrow> jstr \<Rightarrow> jval list" where
  "carried_rows sections n =
     (case sections of
        Some (JObj r) \<Rightarrow> (case get r n of JArr vs \<Rightarrow> vs | _ \<Rightarrow> [])
      | _ \<Rightarrow> [])"

fun first_overlap :: "entry \<Rightarrow> jval option \<Rightarrow> (jstr \<times> jstr list) list \<Rightarrow> jstr option" where
  "first_overlap e sections [] = None"
| "first_overlap e sections ((n, ids) # rest) =
     (case find (\<lambda>s. sname s = n) (osections e) of
        None \<Rightarrow> first_overlap e sections rest
      | Some s \<Rightarrow>
          (let kept = map (row_id_of s) (carried_rows sections n);
               i = length (takeWhile (\<lambda>x. to_lower x \<notin> set kept) ids)
           in if i < length ids then Some (js ''deleteIds.'' @ n @ 46 # show_nat i)
              else first_overlap e sections rest))"

definition delete_overlap_of :: "entry \<Rightarrow> metadata_ref operation \<Rightarrow> jstr option" where
  "delete_overlap_of e op =
     (case op of
        UpdateOp _ _ _ _ sections (Some ids) \<Rightarrow> first_overlap e sections ids
      | _ \<Rightarrow> None)"

definition is_save :: "metadata_ref operation \<Rightarrow> bool" where
  "is_save op \<longleftrightarrow> op_action op = Create \<or> op_action op = Update"

definition prepare_operation :: "'w runtime \<Rightarrow> metadata_ref operation \<Rightarrow> 'w \<Rightarrow> (command_error + prepared) \<times> 'w" where
  "prepare_operation rt op w =
     (case target_of (rt_catalog rt) op of
        Inl x \<Rightarrow> (Inl x, w)
      | Inr (e, _) \<Rightarrow>
          (case root_input rt e op w of
             (Inl x, w) \<Rightarrow> (Inl x, w)
           | (Inr (i, m), w) \<Rightarrow>
               (let p = \<lparr>pr_op = op, pr_id = i, pr_member = m\<rparr>
                in if \<not> is_save op then (Inr p, w)
                   else case encode_item e (op_action op = Create) i (draft_of op) of
                     Inl x \<Rightarrow> (Inl x, w)
                   | Inr _ \<Rightarrow>
                       (case delete_overlap_of e op of
                          Some path \<Rightarrow> (Inl (invalid path), w)
                        | None \<Rightarrow> (Inr p, w)))))"

fun prepare_operations :: "'w runtime \<Rightarrow> metadata_ref operation list \<Rightarrow> 'w \<Rightarrow> (command_error + prepared list) \<times> 'w" where
  "prepare_operations rt [] w = (Inr [], w)"
| "prepare_operations rt (op # ops) w =
     (case prepare_operation rt op w of
        (Inl x, w) \<Rightarrow> (Inl x, w)
      | (Inr p, w) \<Rightarrow>
          (case prepare_operations rt ops w of
             (Inl x, w) \<Rightarrow> (Inl x, w)
           | (Inr ps, w) \<Rightarrow> (Inr (p # ps), w)))"

text \<open>\<open>prepareInput\<close>, after the schema.\<close>

definition prepare_input ::
  "'w runtime \<Rightarrow> jstr option + metadata_ref operation list \<Rightarrow> 'w \<Rightarrow> (command_error + prepared list) \<times> 'w"
where
  "prepare_input rt parsed w =
     (case parsed of
        Inl path \<Rightarrow> (Inl (invalid_at path), w)
      | Inr ops \<Rightarrow> prepare_operations rt ops w)"

subsection \<open>Statements of a phase\<close>

definition sql_name :: "jstr \<times> jstr \<Rightarrow> jstr" where
  "sql_name n = ident (fst n) @ 46 # ident (snd n)"

definition json_param :: "jval \<Rightarrow> ('w, jstr option) action" where
  "json_param v = (case json_text v of None \<Rightarrow> throwT RawException | Some t \<Rightarrow> returnT (Some t))"

definition call_text :: "operation_target \<Rightarrow> jstr \<Rightarrow> jstr" where
  "call_text t arguments = js ''SELECT '' @ sql_name (ofunction t) @ arguments @ js '' AS r''"

definition call_of :: "entry \<Rightarrow> operation_target \<Rightarrow> prepared \<Rightarrow> row \<Rightarrow> ('w, statement) action" where
  "call_of e t p draft =
     (case pr_op p of
        MarkOp _ _ version mark \<Rightarrow>
          returnT \<lparr>stext = call_text t (js ''($1::uuid, $2::bigint, $3::boolean)''),
            sparams = [Some (pr_id p), Some (show_int version), Some (if mark then js ''true'' else js ''false'')]\<rparr>
      | DeleteOp _ _ version \<Rightarrow>
          returnT \<lparr>stext = call_text t (js ''($1::uuid, $2::bigint)''),
            sparams = [Some (pr_id p), Some (show_int version)]\<rparr>
      | op \<Rightarrow>
          bindT (or_abort (encode_item e (op_action op = Create) (pr_id p) draft)) (\<lambda>item.
          bindT (json_param (JObj item)) (\<lambda>text.
            returnT \<lparr>stext = call_text t (js ''($1::jsonb, $2::bigint)''),
              sparams = [text, (case op of UpdateOp _ _ version _ _ _ \<Rightarrow> Some (show_int version) | _ \<Rightarrow> None)]\<rparr>)))"

definition context_text :: jstr where
  "context_text = js ''SELECT set_config('' @ sql_literal (js ''simetra.command'') @ js '', $1, true)''"

definition context_of :: "entry \<Rightarrow> operation_target \<Rightarrow> prepared \<Rightarrow> statement" where
  "context_of e t p =
     \<lparr>stext = context_text,
      sparams = [json_text (JObj [(js ''action'', JStr (ocontext t)), (js ''object'', JStr (okind_label e)),
        (js ''root'', JStr (pr_id p))])]\<rparr>"

definition tabular_check_of :: "entry \<Rightarrow> tabular_section \<Rightarrow> prepared \<Rightarrow> jstr list \<Rightarrow> statement" where
  "tabular_check_of e s p ids =
     (let on_text = correlation (js ''s'') (js ''o'') s;
          ids_text = (if ids = [] then [39, 123, 125, 39] @ js ''::uuid[]''
            else js ''ARRAY['' @ join_with (js '', '') (map (\<lambda>i. 36 # show_nat (i + 2) @ js ''::uuid'') [0..<length ids])
              @ js '']'');
          key = js ''s.'' @ ident (skey s)
      in \<lparr>stext =
            js ''SELECT o.'' @ ident (oversion e) @ js ''::text AS version, ''
            @ js ''(SELECT '' @ key @ js '' FROM '' @ sql_name (stable s) @ js '' s WHERE '' @ on_text @ js '' AND ''
            @ key @ js '' <> ALL('' @ ids_text @ js '') LIMIT 1) AS missing ''
            @ js ''FROM '' @ sql_name (otable e) @ js '' o WHERE o.'' @ ident (okey e) @ js '' = $1::uuid'',
          sparams = Some (pr_id p) # map Some ids\<rparr>)"

subsection \<open>Tabular rows that nobody named\<close>

definition row_key_text :: "tabular_section \<Rightarrow> jval \<Rightarrow> jstr" where
  "row_key_text s v = (case v of JObj r \<Rightarrow> scalar_string (get r (skey_name s)) | _ \<Rightarrow> [])"

text \<open>The verdict on the answer of one check: go on, leave it to the kernel, or refuse.\<close>

datatype verdict = GoOn | KernelDecides | RowsMissing | OddAnswer

definition tabular_verdict :: "int \<Rightarrow> row list \<Rightarrow> verdict" where
  "tabular_verdict ver rows =
     (case rows of
        [] \<Rightarrow> KernelDecides
      | owner # _ \<Rightarrow>
          (case get owner (js ''version'') of
             JStr v \<Rightarrow>
               if \<not> own owner (js ''missing'') then OddAnswer
               else if v \<noteq> show_int ver then KernelDecides
               else if get owner (js ''missing'') \<noteq> JNull then RowsMissing else GoOn
           | _ \<Rightarrow> OddAnswer))"

fun check_sections ::
  "'w runtime \<Rightarrow> entry \<Rightarrow> operation_target \<Rightarrow> prepared \<Rightarrow> int \<Rightarrow> row \<Rightarrow> (jstr \<times> jstr list) list \<Rightarrow>
   tabular_section list \<Rightarrow> ('w, unit) action"
where
  "check_sections rt e t p ver sections deletes [] = returnT ()"
| "check_sections rt e t p ver sections deletes (s # ss) =
     (case get sections (sname s) of
        JArr rows \<Rightarrow>
          (let ids = map (row_key_text s) rows @ (case map_of deletes (sname s) of None \<Rightarrow> [] | Some ds \<Rightarrow> ds)
           in bindT (enqueue rt [context_of e t p, tabular_check_of e s p ids] (Some (WritePhase e Update None)) None)
                (\<lambda>answer.
                  case tabular_verdict ver (qrows answer) of
                    KernelDecides \<Rightarrow> returnT ()
                  | OddAnswer \<Rightarrow> anomaly
                  | RowsMissing \<Rightarrow>
                      abort ((invalid (sname s))\<lparr>ereason := Some (js ''tabular-rows-missing'')\<rparr>)
                  | GoOn \<Rightarrow> check_sections rt e t p ver sections deletes ss))
      | _ \<Rightarrow> check_sections rt e t p ver sections deletes ss)"

definition check_tabular_rows :: "'w runtime \<Rightarrow> entry \<Rightarrow> operation_target \<Rightarrow> prepared \<Rightarrow> ('w, unit) action" where
  "check_tabular_rows rt e t p =
     (case pr_op p of
        UpdateOp _ _ version _ (Some (JObj sections)) deletes \<Rightarrow>
          check_sections rt e t p version sections (case deletes of None \<Rightarrow> [] | Some d \<Rightarrow> d) (osections e)
      | _ \<Rightarrow> returnT ())"

subsection \<open>Hooks\<close>

text \<open>
  \<open>callHook\<close> and \<open>contextOf\<close> for a hook that waits for its calls. A call on a closed queue is
  rejected without reaching the port; an exception that is not a failure of the queue closes it.
\<close>

definition close_raw :: "'w attempt \<Rightarrow> 'w attempt" where
  "close_raw s =
     (if terminal (at_queue s) = None then close_attempt (plain_terminal internal_error) (log_attempt s) else s)"

text \<open>\<open>ctx.read\<close>: the plan runs in the transaction of the command.\<close>

definition read_rows :: "'w runtime \<Rightarrow> ('w attempt, exn) runner" where
  "read_rows rt st e = bindT (enqueue rt [st] (Some (ReadPhase e)) None) (\<lambda>r. returnT (qrows r))"

definition ctx_read :: "'w runtime \<Rightarrow> schema_query \<Rightarrow> ('w, read_result) action" where
  "ctx_read rt parsed s =
     (case prepare_read (rt_catalog rt) parsed of
        Inl x \<Rightarrow> abort x s
      | Inr (e, plan) \<Rightarrow>
          (case execute_read (read_rows rt) RawException e plan s of
             (Inl x, s) \<Rightarrow> if terminal (at_queue s) \<noteq> None then (Inl x, s) else anomaly s
           | (Inr (Inl x), s) \<Rightarrow> abort x s
           | (Inr (Inr r), s) \<Rightarrow> (Inr r, s)))"

primrec run_hook ::
  "'w runtime \<Rightarrow> ('w, 'a) hook \<Rightarrow> (schema_answer \<Rightarrow> ('w, row) action) \<Rightarrow> row \<Rightarrow> 'w attempt \<Rightarrow> 'a option \<times> row \<times> 'w attempt"
where
  "run_hook rt (HReturn x) nested m s = (Some x, m, s)"
| "run_hook rt HThrow nested m s = (None, m, s)"
| "run_hook rt (HRun op k) nested m s =
     (case terminal (at_queue s) of
        Some t \<Rightarrow> run_hook rt (k (Inl (Failure (tfailure t)))) nested m s
      | None \<Rightarrow>
          (case nested op s of
             (Inl x, s) \<Rightarrow> run_hook rt (k (Inl x)) nested m (close_raw s)
           | (Inr r, s) \<Rightarrow> run_hook rt (k (Inr r)) nested m s))"
| "run_hook rt (HRead q k) nested m s =
     (case terminal (at_queue s) of
        Some t \<Rightarrow> run_hook rt (k (Inl (Failure (tfailure t)))) nested m s
      | None \<Rightarrow>
          (case ctx_read rt q s of
             (Inl x, s) \<Rightarrow> run_hook rt (k (Inl x)) nested m (close_raw s)
           | (Inr r, s) \<Rightarrow> run_hook rt (k (Inr r)) nested m s))"
| "run_hook rt (HReject code path k) nested m s =
     run_hook rt k nested m
       (close_attempt (plain_terminal ((error_of ''command.rejected'')\<lparr>ereason := Some code, epath := path\<rparr>)) s)"
| "run_hook rt (HAfter f k) nested m s = run_hook rt k nested m (s\<lparr>at_after := at_after s @ [f]\<rparr>)"
| "run_hook rt (HGet k) nested m s = run_hook rt (k m) nested m s"
| "run_hook rt (HSet m' k) nested m s = run_hook rt k nested m' s"

definition call_hook ::
  "'w runtime \<Rightarrow> ('w, 'a) hook \<Rightarrow> (schema_answer \<Rightarrow> ('w, row) action) \<Rightarrow> row \<Rightarrow> ('w, 'a \<times> row) action"
where
  "call_hook rt h nested m s =
     (case run_hook rt h nested m s of (r, m, s) \<Rightarrow>
        (let s = (case r of None \<Rightarrow> close_raw s | Some _ \<Rightarrow> s)
         in case terminal (at_queue s) of
              Some t \<Rightarrow> (Inl (Failure (tfailure t)), s)
            | None \<Rightarrow> (case r of None \<Rightarrow> (Inl RawException, s) | Some x \<Rightarrow> (Inr (x, m), s))))"

definition info_of :: "entry \<Rightarrow> prepared \<Rightarrow> 'w attempt \<Rightarrow> ctx_info" where
  "info_of e p s =
     \<lparr>cx_object = entry_ref e, cx_id = pr_id p, cx_action = op_action (pr_op p),
      cx_mark = (case pr_op p of MarkOp _ _ _ mark \<Rightarrow> Some mark | _ \<Rightarrow> None),
      cx_user = at_user s, cx_act = at_act s\<rparr>"

definition module_of :: "'w runtime \<Rightarrow> entry \<Rightarrow> prepared \<Rightarrow> 'w object_module option" where
  "module_of rt e p =
     (if op_action (pr_op p) = Delete then None else rt_modules rt (ref_key (entry_ref e)))"

text \<open>\<open>checkDraft\<close>: the keys a draft may have; \<open>path\<close> names the refusal of another one.\<close>

definition check_draft :: "metadata_ref operation \<Rightarrow> (jstr \<Rightarrow> jstr) \<Rightarrow> jval \<Rightarrow> ('w, row) action" where
  "check_draft op path v =
     (case v of
        JObj r \<Rightarrow>
          (let keys = (if op_action op = MarkDeletion then [] else [values_key, sections_word])
           in case find (\<lambda>(k, x). k \<notin> set keys \<or> x = JUndef) r of
                Some (k, _) \<Rightarrow> abort (invalid (path k))
              | None \<Rightarrow> returnT r)
      | _ \<Rightarrow> (\<lambda>s. abort internal_error (log_attempt s)))"

definition run_before_write ::
  "'w runtime \<Rightarrow> (schema_answer \<Rightarrow> ('w, row) action) \<Rightarrow> entry \<Rightarrow> prepared \<Rightarrow> (jstr \<Rightarrow> jstr) \<Rightarrow> row \<Rightarrow> ('w, row \<times> row) action"
where
  "run_before_write rt nested e p path draft s =
     (case Option.bind (module_of rt e p) before_write of
        None \<Rightarrow> (Inr (draft, []), s)
      | Some h \<Rightarrow>
          bindT (call_hook rt (h (info_of e p s) draft) nested []) (\<lambda>(returned, m).
          bindT (check_draft (pr_op p) path returned) (\<lambda>d. returnT (d, m))) s)"

definition run_on_write ::
  "'w runtime \<Rightarrow> (schema_answer \<Rightarrow> ('w, row) action) \<Rightarrow> entry \<Rightarrow> prepared \<Rightarrow> row \<Rightarrow> row \<Rightarrow> ('w, unit) action"
where
  "run_on_write rt nested e p m r s =
     (case Option.bind (module_of rt e p) on_write of
        None \<Rightarrow> (Inr (), s)
      | Some h \<Rightarrow> bindT (call_hook rt (h (info_of e p s) r) nested m) (\<lambda>_. returnT ()) s)"

subsection \<open>The core call\<close>

text \<open>
  \<open>callCore\<close>: the context and the call are one unit, so no statement of another phase comes
  between them. The answer is the text of the core row.
\<close>

definition call_core ::
  "'w runtime \<Rightarrow> entry \<Rightarrow> operation_target \<Rightarrow> prepared \<Rightarrow> statement \<Rightarrow> entry option \<Rightarrow> ('w, jstr) action"
where
  "call_core rt e t p call membership =
     bindT (enqueue rt [context_of e t p, call] (Some (WritePhase e (op_action (pr_op p)) membership)) None) (\<lambda>answer.
       case qrows answer of
         [] \<Rightarrow> anomaly
       | r # _ \<Rightarrow> (case get r (js ''r'') of JStr text \<Rightarrow> returnT text | _ \<Rightarrow> anomaly))"

definition jval_text :: "jval \<Rightarrow> jstr option" where
  "jval_text v = (case v of JStr s \<Rightarrow> Some s | _ \<Rightarrow> None)"

definition jval_number :: "jval \<Rightarrow> jsnum option" where
  "jval_number v = (case v of JNum n \<Rightarrow> Some n | _ \<Rightarrow> None)"

text \<open>\<open>decodeCoreRow\<close>: the row under logical names and its scope; \<open>None\<close> is an anomaly.\<close>

definition core_row_of :: "entry \<Rightarrow> bool \<Rightarrow> jval option \<Rightarrow> (row \<times> jval) option" where
  "core_row_of e require_scope v =
     (case Option.bind v (decode_record e) of
        None \<Rightarrow> None
      | Some r \<Rightarrow>
          (let scope = (case (oscope_column e, v) of (Some c, Some (JObj raw)) \<Rightarrow> get raw c | _ \<Rightarrow> JUndef)
           in if jval_text (get r (okey_name e)) \<noteq> None \<and> jval_number (get r (oversion_name e)) \<noteq> None
                 \<and> (require_scope \<and> oscope_column e \<noteq> None \<longrightarrow> jval_text scope \<noteq> None)
              then Some (r, scope) else None))"

definition record_change :: "entry \<Rightarrow> prepared \<Rightarrow> row \<times> jval \<Rightarrow> 'w attempt \<Rightarrow> 'w attempt" where
  "record_change e p rs s =
     s\<lparr>at_changes := at_changes s @
        [\<lparr>chobject = entry_ref e, chscope_kind = oscope_kind e, chscope = jval_text (snd rs),
          chid = (case get (fst rs) (okey_name e) of JStr k \<Rightarrow> k | _ \<Rightarrow> []),
          chversion = (case get (fst rs) (oversion_name e) of JNum n \<Rightarrow> (case num_int n of Some i \<Rightarrow> i | None \<Rightarrow> 0) | _ \<Rightarrow> 0),
          choperation = op_action (pr_op p)\<rparr>]\<rparr>"

definition core_row :: "entry \<Rightarrow> bool \<Rightarrow> jval option \<Rightarrow> ('w, row \<times> jval) action" where
  "core_row e require_scope v =
     (case core_row_of e require_scope v of None \<Rightarrow> anomaly | Some rs \<Rightarrow> returnT rs)"

subsection \<open>A phase\<close>

definition run_plain_phase ::
  "'w runtime \<Rightarrow> (schema_answer \<Rightarrow> ('w, row) action) \<Rightarrow> bool \<Rightarrow> entry \<Rightarrow> operation_target \<Rightarrow> prepared \<Rightarrow> ('w, row) action"
where
  "run_plain_phase rt nested full e t p =
     bindT (if full then returnT () else check_tabular_rows rt e t p) (\<lambda>_.
     bindT (run_before_write rt nested e p (\<lambda>k. k) (draft_of (pr_op p))) (\<lambda>(draft, m).
     bindT (call_of e t p draft) (\<lambda>call.
     bindT (call_core rt e t p call None) (\<lambda>text.
     bindT (core_row e True (json_value text)) (\<lambda>rs s.
       bindT (run_on_write rt nested e p m (fst rs)) (\<lambda>_. returnT (fst rs)) (record_change e p rs s))))))"

text \<open>
  \<open>runRootPhase\<close>, the creation of a tenant: both hooks before the write, the check of both
  drafts, one core call that gives the row of the root and that of the membership, both hooks
  after the write. A preparation without a member id is an exception of the code.
\<close>

definition member_prepared :: "entry \<Rightarrow> prepared \<Rightarrow> jstr \<Rightarrow> prepared" where
  "member_prepared m p i =
     \<lparr>pr_op = CreateOp (entry_ref m) (Some i)
        (Some (case pr_op p of CreateOp _ _ _ _ (Some v) \<Rightarrow> v | _ \<Rightarrow> JObj [])) None None,
      pr_id = i, pr_member = None\<rparr>"

definition member_draft ::
  "'w runtime \<Rightarrow> (schema_answer \<Rightarrow> ('w, row) action) \<Rightarrow> prepared \<Rightarrow> entry option \<Rightarrow>
   ('w, (entry \<times> prepared \<times> row \<times> row) option) action"
where
  "member_draft rt nested p membership =
     (case membership of
        None \<Rightarrow> returnT None
      | Some m \<Rightarrow>
          (case pr_member p of
             None \<Rightarrow> throwT RawException
           | Some i \<Rightarrow>
               (let mp = member_prepared m p i
                in bindT (run_before_write rt nested m mp (\<lambda>_. creator_word) (draft_of (pr_op mp)))
                     (\<lambda>(d, mem). returnT (Some (m, mp, d, mem))))))"

definition member_param :: "(entry \<times> prepared \<times> row \<times> row) option \<Rightarrow> ('w, jstr option) action" where
  "member_param member =
     (case member of
        None \<Rightarrow> returnT None
      | Some (m, mp, d, mem) \<Rightarrow>
          if get d sections_word \<noteq> JUndef then abort (invalid creator_word)
          else bindT (or_abort (encode_member m (case get d values_key of JUndef \<Rightarrow> JObj [] | JNull \<Rightarrow> JObj [] | v \<Rightarrow> v)))
            (\<lambda>cols. json_param (JObj cols)))"

definition object_field_of :: "jval option \<Rightarrow> jstr \<Rightarrow> jval option" where
  "object_field_of v k = (case v of Some (JObj r) \<Rightarrow> Some (get r k) | _ \<Rightarrow> None)"

definition member_row ::
  "entry \<Rightarrow> (entry \<times> prepared \<times> row \<times> row) option \<Rightarrow> jval option \<Rightarrow> ('w, row) action"
where
  "member_row e member result =
     (case member of
        Some (m, _, _, _) \<Rightarrow> bindT (core_row m False (object_field_of result (js ''member''))) (\<lambda>rs. returnT (fst rs))
      | None \<Rightarrow> if object_field_of result (js ''member'') \<noteq> Some JNull then anomaly else returnT [])"

definition member_on_write ::
  "'w runtime \<Rightarrow> (schema_answer \<Rightarrow> ('w, row) action) \<Rightarrow> (entry \<times> prepared \<times> row \<times> row) option \<Rightarrow> row \<Rightarrow> ('w, unit) action"
where
  "member_on_write rt nested member r =
     (case member of
        None \<Rightarrow> returnT ()
      | Some (m, mp, _, mem) \<Rightarrow> run_on_write rt nested m mp mem r)"

definition run_root_phase ::
  "'w runtime \<Rightarrow> (schema_answer \<Rightarrow> ('w, row) action) \<Rightarrow> entry \<Rightarrow> operation_target \<Rightarrow> prepared \<Rightarrow> entry option \<Rightarrow> ('w, row) action"
where
  "run_root_phase rt nested e t p membership =
     bindT (run_before_write rt nested e p (\<lambda>k. k) (draft_of (pr_op p))) (\<lambda>(draft, mem).
     bindT (member_draft rt nested p membership) (\<lambda>member.
     bindT (if get draft sections_word \<noteq> JUndef then abort (invalid sections_word) else returnT ()) (\<lambda>_.
     bindT (member_param member) (\<lambda>mparam.
     bindT (or_abort (encode_item e True (pr_id p) draft)) (\<lambda>item.
     bindT (json_param (JObj item)) (\<lambda>text.
     bindT (call_core rt e t p \<lparr>stext = call_text t (js ''($1::jsonb, $2::jsonb, $3::uuid)''),
         sparams = [text, mparam, pr_member p]\<rparr> membership) (\<lambda>answer.
     bindT (core_row e True (object_field_of (json_value answer) (js ''root''))) (\<lambda>rs s.
       bindT (member_row e member (json_value answer)) (\<lambda>mrow.
       bindT (run_on_write rt nested e p mem (fst rs)) (\<lambda>_.
       bindT (member_on_write rt nested member mrow) (\<lambda>_. returnT (fst rs)))) (record_change e p rs s)))))))))"

definition run_phase ::
  "'w runtime \<Rightarrow> (schema_answer \<Rightarrow> ('w, row) action) \<Rightarrow> bool \<Rightarrow> prepared \<Rightarrow> ('w, row) action"
where
  "run_phase rt nested full p =
     bindT (or_abort (target_of (rt_catalog rt) (pr_op p))) (\<lambda>(e, t).
       case root_create_of (rt_catalog rt) e (pr_op p) of
         Some membership \<Rightarrow> run_root_phase rt nested e t p membership
       | None \<Rightarrow> run_plain_phase rt nested full e t p)"

subsection \<open>Phases that hooks start\<close>

definition batch_max :: nat where "batch_max = 500"

definition count_nested :: "('w, unit) action" where
  "count_nested s =
     (let s = s\<lparr>at_nested := at_nested s + 1\<rparr>
      in if batch_max < at_nested s then abort ((error_of ''command.depth'')\<lparr>ereason := Some (js ''phases'')\<rparr>) s
         else (Inr (), s))"

definition prepare_nested :: "'w runtime \<Rightarrow> schema_answer \<Rightarrow> ('w, prepared) action" where
  "prepare_nested rt op s =
     (case op of
        Inl path \<Rightarrow> abort (invalid_at path) s
      | Inr x \<Rightarrow>
          (case prepare_operation rt x (at_world s) of
             (Inl err, w) \<Rightarrow> abort err (s\<lparr>at_world := w\<rparr>)
           | (Inr p, w) \<Rightarrow> (Inr p, s\<lparr>at_world := w\<rparr>)))"

text \<open>
  \<open>ctx.run\<close> at a depth of which \<open>n\<close> levels are left: the depth is tested first, then the number
  of phases, then the input.
\<close>

primrec run_nested :: "'w runtime \<Rightarrow> nat \<Rightarrow> schema_answer \<Rightarrow> ('w, row) action" where
  "run_nested rt 0 op = abort (error_of ''command.depth'')"
| "run_nested rt (Suc n) op =
     bindT count_nested (\<lambda>_. bindT (prepare_nested rt op) (run_phase rt (run_nested rt n) False))"

definition run_top_phase :: "'w runtime \<Rightarrow> bool \<Rightarrow> prepared \<Rightarrow> ('w, row) action" where
  "run_top_phase rt full p = run_phase rt (run_nested rt (rt_max_depth rt)) full p"

end
