(* ===== verification/Commands.thy ===== *)
theory Commands
  imports Phases
begin

section \<open>A command: attempts, retry and connections\<close>

text \<open>
  \<open>attempt\<close>, \<open>endFailed\<close>, \<open>runAfterCommit\<close> and \<open>runCommand\<close> of \<open>server/transaction.ts\<close>. One
  attempt takes a connection, runs the phases of the operations in a transaction and gives the
  connection back; an attempt that met a serialization failure or a deadlock is repeated within
  the time budget of the command.
\<close>

subsection \<open>What every phase keeps\<close>

text \<open>
  A relation between the states before and after that the elementary actions of a phase keep is
  kept by whole phases, whatever their hooks call and catch.
\<close>

definition keeps :: "('s \<Rightarrow> 's \<Rightarrow> bool) \<Rightarrow> ('s \<Rightarrow> (exn + 'a) \<times> 's) \<Rightarrow> bool" where
  "keeps R m \<longleftrightarrow> (\<forall>s. R s (snd (m s)))"

locale phase_relation =
  fixes rt :: "'w runtime" and R :: "'w attempt \<Rightarrow> 'w attempt \<Rightarrow> bool"
  assumes R_refl: "R s s"
    and R_trans: "R s s' \<Longrightarrow> R s' s'' \<Longrightarrow> R s s''"
    and R_enqueue: "keeps R (enqueue rt statements phase claims)"
    and R_close: "R s (close_attempt t s)"
    and R_log: "R s (log_attempt s)"
    and R_change: "R s (record_change e p rs s)"
    and R_count: "keeps R count_nested"
    and R_prepare: "R s (s\<lparr>at_world := snd (prepare_operation rt x (at_world s))\<rparr>)"
    and R_after: "R s (s\<lparr>at_after := fs\<rparr>)"
begin

lemma keeps_return: "keeps R (returnT x)"
  by (simp add: keeps_def returnT_def R_refl)

lemma keeps_throw: "keeps R (throwT x)"
  by (simp add: keeps_def throwT_def R_refl)

lemma keeps_bind: "keeps R m \<Longrightarrow> (\<And>x. keeps R (f x)) \<Longrightarrow> keeps R (bindT m f)"
  by (auto simp: keeps_def bindT_def split: prod.split sum.split) (metis R_trans snd_conv)+

lemma keeps_abort: "keeps R (abort x)"
  by (simp add: keeps_def abort_def R_close)

lemma keeps_anomaly: "keeps R anomaly"
  using R_trans [OF R_log R_close] by (simp add: keeps_def anomaly_def abort_def)

lemma keeps_or_abort: "keeps R (or_abort r)"
  by (cases r) (simp_all add: or_abort_def keeps_abort keeps_return)

lemma keeps_json_param: "keeps R (json_param v)"
  by (cases "json_text v") (simp_all add: json_param_def keeps_throw keeps_return)

lemma keeps_close_raw: "R s (close_raw s)"
  using R_trans [OF R_log R_close] by (simp add: close_raw_def R_refl)

lemma keeps_call_of: "keeps R (call_of e t p draft)"
  by (cases "pr_op p") (auto simp: call_of_def intro!: keeps_bind keeps_or_abort keeps_json_param keeps_return)

lemma keeps_check_sections: "keeps R (check_sections rt e t p ver sections deletes ss)"
proof (induction ss)
  case (Cons s ss)
  then show ?case
    by (auto simp: Let_def split: jval.split verdict.split
        intro!: keeps_bind R_enqueue keeps_return keeps_abort keeps_anomaly)
qed (simp add: keeps_return)

lemma keeps_check_tabular: "keeps R (check_tabular_rows rt e t p)"
  by (auto simp: check_tabular_rows_def keeps_return keeps_check_sections
      split: operation.split option.split jval.split)

lemma keeps_read_rows: "R s (snd (read_rows rt st e s))"
proof -
  have "keeps R (bindT (enqueue rt [st] (Some (ReadPhase e)) None) (\<lambda>r. returnT (qrows r)))"
    by (intro keeps_bind R_enqueue keeps_return)
  then show ?thesis by (simp add: read_rows_def keeps_def)
qed

lemma keeps_read_included: "R s (snd (read_included (read_rows rt) raw rows steps out s))"
proof (induction "read_rows rt" raw rows steps out s rule: read_included.induct)
  case (2 raw rows step steps out s)
  show ?case
  proof (cases "include_statement step rows")
    case (Some a)
    show ?thesis
    proof (cases a)
      case (Some st)
      obtain r s' where run: "read_rows rt st (fst step) s = (r, s')" by (cases "read_rows rt st (fst step) s")
      then have "R s s'" using keeps_read_rows by (metis snd_conv)
      then show ?thesis
        using \<open>include_statement step rows = Some a\<close> Some run 2(2) [OF _ Some run [symmetric]]
        by (cases r) (auto split: option.split intro: R_trans)
    qed (use Some 2 in simp)
  qed (simp add: R_refl)
qed (simp add: R_refl)

lemma keeps_execute_read: "R s (snd (execute_read (read_rows rt) raw e plan s))"
proof -
  obtain r s' where run: "read_rows rt (read_statement plan) e s = (r, s')"
    by (cases "read_rows rt (read_statement plan) e s")
  then have "R s s'" using keeps_read_rows by (metis snd_conv)
  then show ?thesis
    using run R_trans [OF _ keeps_read_included]
    by (auto simp: execute_read_def split: sum.split option.split read_result.split prod.split) (metis snd_conv)+
qed

lemma keeps_ctx_read: "keeps R (ctx_read rt q)"
  unfolding keeps_def
proof
  fix s
  show "R s (snd (ctx_read rt q s))"
  proof (cases "prepare_read (rt_catalog rt) q")
    case (Inr plan)
    obtain e p where plan: "plan = (e, p)" by (cases plan)
    obtain r s' where run: "execute_read (read_rows rt) RawException e p s = (r, s')"
      by (cases "execute_read (read_rows rt) RawException e p s")
    then have "R s s'" using keeps_execute_read by (metis snd_conv)
    moreover have "R s' (snd ((anomaly :: ('w, read_result) action) s'))" for s'
      by (rule keeps_anomaly [unfolded keeps_def, THEN spec])
    moreover have "R s' (snd ((abort x :: ('w, read_result) action) s'))" for s' x
      by (rule keeps_abort [unfolded keeps_def, THEN spec])
    ultimately show ?thesis
      using Inr plan run R_trans by (auto simp: ctx_read_def split: sum.split)
  next
    case (Inl x)
    then show ?thesis by (simp add: ctx_read_def keeps_abort [unfolded keeps_def, THEN spec])
  qed
qed

lemma run_hook_keeps:
  assumes "\<And>op. keeps R (nested op)"
  shows "R s (snd (snd (run_hook rt h nested m s)))"
proof (induction h arbitrary: m s)
  case (HRun op k)
  show ?case
  proof (cases "terminal (at_queue s)")
    case None
    obtain r s' where s': "nested op s = (r, s')" by fastforce
    then have s: "R s s'" using assms [of op] by (metis keeps_def snd_conv)
    show ?thesis
    proof (cases r)
      case (Inl x)
      have "R s (close_raw s')" using s keeps_close_raw by (rule R_trans)
      from R_trans [OF this HRun [OF rangeI]] show ?thesis using None s' Inl by simp
    next
      case (Inr x)
      from R_trans [OF s HRun [OF rangeI]] show ?thesis using None s' Inr by simp
    qed
  qed (use HRun in simp)
next
  case (HRead q k)
  show ?case
  proof (cases "terminal (at_queue s)")
    case None
    obtain r s' where s': "ctx_read rt q s = (r, s')" by (cases "ctx_read rt q s")
    then have s: "R s s'" using keeps_ctx_read [of q] by (metis keeps_def snd_conv)
    show ?thesis
    proof (cases r)
      case (Inl x)
      have "R s (close_raw s')" using s keeps_close_raw by (rule R_trans)
      from R_trans [OF this HRead [OF rangeI]] show ?thesis using None s' Inl by simp
    next
      case (Inr x)
      from R_trans [OF s HRead [OF rangeI]] show ?thesis using None s' Inr by simp
    qed
  qed (use HRead in simp)
next
  case (HReject code path k)
  show ?case by (simp, rule R_trans [OF R_close HReject])
next
  case (HAfter f k)
  show ?case by (simp, rule R_trans [OF R_after HAfter])
qed (simp_all add: R_refl)

lemma keeps_call_hook:
  assumes "\<And>op. keeps R (nested op)"
  shows "keeps R (call_hook rt h nested m)"
  unfolding keeps_def
proof
  fix s
  obtain r m' s' where h: "run_hook rt h nested m s = (r, m', s')" by (cases "run_hook rt h nested m s")
  then have "R s s'" using run_hook_keeps [of nested s h m, OF assms] by simp
  then show "R s (snd (call_hook rt h nested m s))"
    using h R_trans keeps_close_raw
    by (cases r) (auto simp: call_hook_def Let_def split: option.split)
qed

lemma keeps_check_draft: "keeps R (check_draft op path v)"
  using keeps_anomaly by (auto simp: check_draft_def Let_def keeps_abort keeps_return anomaly_def [abs_def]
      split: jval.split option.split)

lemma keeps_before_write:
  assumes "\<And>op. keeps R (nested op)"
  shows "keeps R (run_before_write rt nested e p path draft)"
proof -
  have "keeps R (bindT (call_hook rt (h (info_of e p s) draft) nested [])
      (\<lambda>(returned, m). bindT (check_draft (pr_op p) path returned) (\<lambda>d. returnT (d, m))))" for h s
    by (auto intro!: keeps_bind keeps_call_hook assms keeps_check_draft keeps_return)
  then show ?thesis
    by (auto simp: keeps_def run_before_write_def R_refl split: option.split)
qed

lemma keeps_on_write:
  assumes "\<And>op. keeps R (nested op)"
  shows "keeps R (run_on_write rt nested e p m r)"
proof -
  have "keeps R (bindT (call_hook rt (h (info_of e p s) r) nested m) (\<lambda>_. returnT ()))" for h s
    by (intro keeps_bind keeps_call_hook assms keeps_return)
  then show ?thesis by (auto simp: keeps_def run_on_write_def R_refl split: option.split)
qed

lemma keeps_call_core: "keeps R (call_core rt e t p call membership)"
  by (auto simp: call_core_def keeps_anomaly keeps_return intro!: keeps_bind R_enqueue split: list.split jval.split)

lemma keeps_core_row: "keeps R (core_row e b v)"
  by (auto simp: core_row_def keeps_anomaly keeps_return split: option.split)

lemma keeps_recorded: "keeps R m \<Longrightarrow> keeps R (\<lambda>s. m (record_change e p rs s))"
  unfolding keeps_def by (blast intro: R_trans [OF R_change])

lemma keeps_plain_phase:
  assumes "\<And>op. keeps R (nested op)"
  shows "keeps R (run_plain_phase rt nested full e t p)"
  unfolding run_plain_phase_def
  by (auto intro!: keeps_bind keeps_recorded keeps_check_tabular keeps_before_write keeps_call_of keeps_call_core
      keeps_core_row keeps_on_write keeps_return assms)

lemma keeps_member_draft:
  assumes "\<And>op. keeps R (nested op)"
  shows "keeps R (member_draft rt nested p membership)"
  by (auto simp: member_draft_def Let_def split: option.split
      intro!: keeps_return keeps_throw keeps_bind keeps_before_write assms)

lemma keeps_member_param: "keeps R (member_param member)"
  by (auto simp: member_param_def split: option.split
      intro!: keeps_return keeps_abort keeps_bind keeps_or_abort keeps_json_param)

lemma keeps_member_row: "keeps R (member_row e member v)"
  by (auto simp: member_row_def split: option.split intro!: keeps_return keeps_anomaly keeps_bind keeps_core_row)

lemma keeps_member_on_write:
  assumes "\<And>op. keeps R (nested op)"
  shows "keeps R (member_on_write rt nested member r)"
  by (auto simp: member_on_write_def split: option.split intro!: keeps_return keeps_on_write assms)

lemma keeps_root_phase:
  assumes "\<And>op. keeps R (nested op)"
  shows "keeps R (run_root_phase rt nested e t p membership)"
  unfolding run_root_phase_def
  by (auto intro!: keeps_bind keeps_recorded keeps_before_write keeps_member_draft keeps_member_param
      keeps_or_abort keeps_abort keeps_json_param keeps_call_core keeps_core_row keeps_member_row keeps_on_write
      keeps_member_on_write keeps_return assms)

lemma keeps_run_phase:
  assumes "\<And>op. keeps R (nested op)"
  shows "keeps R (run_phase rt nested full p)"
  unfolding run_phase_def
  by (auto split: option.split intro!: keeps_bind keeps_or_abort keeps_root_phase keeps_plain_phase assms)

lemma keeps_prepare_nested: "keeps R (prepare_nested rt op)"
  unfolding keeps_def
proof
  fix s
  show "R s (snd (prepare_nested rt op s))"
  proof (cases op)
    case (Inl path)
    then show ?thesis by (simp add: prepare_nested_def abort_def R_close)
  next
    case (Inr x)
    obtain r w where w: "prepare_operation rt x (at_world s) = (r, w)" by fastforce
    then have "R s (s\<lparr>at_world := w\<rparr>)" using R_prepare [of s x] by simp
    then show ?thesis
      using Inr w R_trans [OF _ R_close] by (cases r) (auto simp: prepare_nested_def abort_def)
  qed
qed

lemma keeps_run_nested: "keeps R (run_nested rt n op)"
  by (induction n arbitrary: op) (auto intro!: keeps_abort keeps_bind R_count keeps_prepare_nested keeps_run_phase)

lemma keeps_top_phase: "keeps R (run_top_phase rt full p)"
  unfolding run_top_phase_def by (intro keeps_run_phase keeps_run_nested)

end

subsection \<open>An attempt\<close>

definition claims_text :: jstr where
  "claims_text =
     js ''SELECT set_config('' @ sql_literal (js ''request.jwt.claims'') @ js '', $1, true), set_config(''
     @ sql_literal (js ''TimeZone'') @ js '', '' @ sql_literal (js ''UTC'') @ js '', true), set_config(''
     @ sql_literal (js ''bytea_output'') @ js '', '' @ sql_literal (js ''hex'') @ js '', true)''"

definition command_claims_text :: jstr where
  "command_claims_text =
     claims_text @ js '', set_config('' @ sql_literal (js ''statement_timeout'') @ js '', $2, true), set_config(''
     @ sql_literal (js ''lock_timeout'') @ js '', $3, true), set_config(''
     @ sql_literal (js ''idle_in_transaction_session_timeout'') @ js '', $4, true), ''
     @ js ''CASE WHEN current_setting('' @ sql_literal (js ''server_version_num'')
     @ js '')::int >= 170000 THEN set_config('' @ sql_literal (js ''transaction_timeout'') @ js '', $4, true) END''"

definition command_role :: statement where
  "command_role = plain_statement (js ''SET LOCAL ROLE '' @ ident (js ''simetra_command''))"

definition current_user :: statement where
  "current_user = plain_statement (js ''SELECT '' @ ident (js ''simetra'') @ 46 # ident (js ''current_user_id'')
     @ js ''() AS user_id'')"

definition claims_statement :: "'w runtime \<Rightarrow> int \<Rightarrow> jstr \<Rightarrow> statement" where
  "claims_statement rt ms claims =
     \<lparr>stext = command_claims_text,
      sparams = [Some claims, Some (show_int ms), Some (show_int (rt_lock rt)), Some (show_int (rt_budget rt + 1000))]\<rparr>"

text \<open>\<open>claims()\<close>: the limit of a statement from what is left of the budget.\<close>

definition send_claims :: "'w runtime \<Rightarrow> jstr \<Rightarrow> ('w, query_result) action" where
  "send_claims rt claims s =
     (let (now, w) = rp_now (rt_port rt) (at_world s);
          ms = timeout_ms (min (of_int statement_ceiling) (rt_deadline rt - now))
      in enqueue rt [claims_statement rt ms claims] None (Some ms) (s\<lparr>at_world := w\<rparr>))"

definition take_user :: "query_result \<Rightarrow> ('w, unit) action" where
  "take_user r =
     (case (case qrows r of [] \<Rightarrow> JUndef | x # _ \<Rightarrow> get x (js ''user_id'')) of
        JUndef \<Rightarrow> abort (error_of ''command.unauthenticated'')
      | JNull \<Rightarrow> abort (error_of ''command.unauthenticated'')
      | JStr u \<Rightarrow> (\<lambda>s. (Inr (), s\<lparr>at_user := u\<rparr>))
      | _ \<Rightarrow> anomaly)"

fun run_phases :: "'w runtime \<Rightarrow> bool \<Rightarrow> prepared list \<Rightarrow> ('w, row list) action" where
  "run_phases rt full [] = returnT []"
| "run_phases rt full (p # ps) =
     bindT (run_top_phase rt full p) (\<lambda>r. bindT (run_phases rt full ps) (\<lambda>rs. returnT (r # rs)))"

definition attempt_body :: "'w runtime \<Rightarrow> jstr \<Rightarrow> bool \<Rightarrow> prepared list \<Rightarrow> ('w, row list \<times> jstr) action" where
  "attempt_body rt claims full ops =
     bindT (enqueue rt [begin_statement] None None) (\<lambda>_.
     bindT (send_claims rt claims) (\<lambda>_.
     bindT (enqueue rt [command_role] None None) (\<lambda>_.
     bindT (enqueue rt [current_user] None None) (\<lambda>users.
     bindT (take_user users) (\<lambda>_.
     bindT (run_phases rt full ops) (\<lambda>rows.
     bindT (enqueue rt [commit_statement] None None) (\<lambda>r. returnT (rows, qcommand r))))))))"

text \<open>\<open>endFailed\<close>: a connection that is not to be destroyed is given back after its \<open>ROLLBACK\<close>.\<close>

definition end_failed :: "'w port \<Rightarrow> bool \<Rightarrow> 'w \<Rightarrow> 'w" where
  "end_failed P destroy w =
     (if destroy then rp_release P True w
      else case rp_query P rollback_statement w of
        (Inl _, w) \<Rightarrow> rp_release P True w
      | (Inr _, w) \<Rightarrow> rp_release P False w)"

datatype 'w attempt_outcome =
    Done "row list" "metadata_ref change list" "('w \<Rightarrow> bool \<times> 'w) list"
  | Failed terminal

definition new_attempt :: "jstr option \<Rightarrow> 'w \<Rightarrow> 'w attempt" where
  "new_attempt act w =
     \<lparr>at_world = w, at_queue = empty_queue, at_changes = [], at_after = [], at_user = [], at_act = act, at_nested = 0\<rparr>"

text \<open>An exception that did not close the queue does so now.\<close>

definition close_exception :: "exn \<Rightarrow> 'w attempt \<Rightarrow> 'w attempt" where
  "close_exception x s =
     (case x of Failure e \<Rightarrow> close_attempt (plain_terminal e) s | RawException \<Rightarrow> close_raw s)"

definition run_attempt ::
  "'w runtime \<Rightarrow> jstr \<Rightarrow> jstr option \<Rightarrow> bool \<Rightarrow> prepared list \<Rightarrow> 'w \<Rightarrow> 'w attempt_outcome \<times> 'w"
where
  "run_attempt rt claims act full ops w =
     (case rp_connect (rt_port rt) w of
        (Inl raw, w) \<Rightarrow> (Failed (fst (terminal_of (rt_catalog rt) None False raw)), w)
      | (Inr _, w) \<Rightarrow>
          (case attempt_body rt claims full ops (new_attempt act w) of
             (Inl x, s) \<Rightarrow>
               (let s = close_exception x s; t = the (terminal (at_queue s))
                in (Failed t, end_failed (rt_port rt) (tdestroy t) (at_world s)))
           | (Inr (rows, tag), s) \<Rightarrow>
               (let w = rp_release (rt_port rt) False (at_world s)
                in if tag \<noteq> js ''COMMIT'' then (Failed (plain_terminal internal_error), w)
                   else (Done rows (at_changes s) (at_after s), w))))"

text \<open>
  The loop of \<open>runCommand\<close>: \<open>n\<close> is the number of the attempt, \<open>left\<close> how many may follow. The
  clock is read only when a pause is due.
\<close>

primrec attempts ::
  "'w runtime \<Rightarrow> jstr \<Rightarrow> jstr option \<Rightarrow> bool \<Rightarrow> prepared list \<Rightarrow> nat \<Rightarrow> nat \<Rightarrow> 'w \<Rightarrow> 'w attempt_outcome \<times> 'w"
where
  "attempts rt claims act full ops 0 n w = run_attempt rt claims act full ops w"
| "attempts rt claims act full ops (Suc left) n w =
     (case run_attempt rt claims act full ops w of
        (Failed t, w) \<Rightarrow>
          if \<not> tretry t then (Failed t, w)
          else if tcode t \<noteq> Some deadlock_code then attempts rt claims act full ops left (n + 1) w
          else (case rp_random (rt_port rt) w of (random, w) \<Rightarrow>
            (let pause = pause_of (tcode t) n random
             in if pause = 0 then attempts rt claims act full ops left (n + 1) w
                else (case rp_now (rt_port rt) w of (now, w) \<Rightarrow>
                  if rt_deadline rt - now - pause \<le> 1 then (Failed (plain_terminal timeout_error), w)
                  else attempts rt claims act full ops left (n + 1) (rp_wait (rt_port rt) pause w))))
      | (result, w) \<Rightarrow> (result, w))"

text \<open>\<open>runAfterCommit\<close>: every action runs, one that fails is logged.\<close>

fun run_after_commit :: "('w \<Rightarrow> bool \<times> 'w) list \<Rightarrow> 'w \<Rightarrow> nat \<times> 'w" where
  "run_after_commit [] w = (0, w)"
| "run_after_commit (f # fs) w =
     (case f w of (ok, w) \<Rightarrow>
        (case run_after_commit fs w of (n, w) \<Rightarrow> (if ok then n else n + 1, w)))"

record command_result =
  cr_rows :: "row list"
  cr_changes :: "metadata_ref change list"

definition carries_delete_ids :: "metadata_ref operation \<Rightarrow> bool" where
  "carries_delete_ids op = (case op of UpdateOp _ _ _ _ _ d \<Rightarrow> d \<noteq> None | _ \<Rightarrow> False)"

text \<open>
  \<open>runCommand\<close>, outside every hook. \<open>claims\<close> is the text of the session, \<open>None\<close> when it has none.
  The actions after the commit run whether the host takes them over or the call waits for them.
\<close>

definition run_command ::
  "'w runtime \<Rightarrow> jstr option \<Rightarrow> jstr option \<Rightarrow> jstr option + metadata_ref operation list \<Rightarrow> bool \<Rightarrow> 'w \<Rightarrow>
   (command_error + command_result) \<times> 'w"
where
  "run_command rt claims act input full w =
     (case prepare_input rt input w of
        (Inl x, w) \<Rightarrow> (Inl x, w)
      | (Inr ops, w) \<Rightarrow>
          if full \<and> (\<exists>p \<in> set ops. carries_delete_ids (pr_op p)) then (Inl (invalid (js ''deleteIds'')), w)
          else case claims of
            None \<Rightarrow> (Inl internal_error, w)
          | Some c \<Rightarrow>
              (case rp_now (rt_port rt) w of (now, w) \<Rightarrow>
                (let rt = rt\<lparr>rt_deadline := now + of_int (rt_budget rt)\<rparr>
                 in case attempts rt c act full ops (rt_max_attempts rt - 1) 1 w of
                      (Failed t, w) \<Rightarrow> (Inl (tfailure t), w)
                    | (Done rows changes after, w) \<Rightarrow>
                        (Inr \<lparr>cr_rows = rows, cr_changes = changes\<rparr>, snd (run_after_commit after w)))))"

subsection \<open>The queue of an attempt\<close>

definition queue_reaches :: "'w runtime \<Rightarrow> 'w attempt \<Rightarrow> 'w attempt \<Rightarrow> bool" where
  "queue_reaches rt s s' \<longleftrightarrow> queue_run (rt_catalog rt) (rt_deadline rt) (at_queue s) (at_queue s')"

lemma enqueue_queue:
  "at_queue (snd (enqueue rt statements phase claims s)) =
     snd (run_queue (rt_port rt) (rt_catalog rt) (rt_deadline rt) (at_world s)
       (enqueue_job \<lparr>jstatements = statements, jphase = phase, jclaims = claims\<rparr> (at_queue s)))"
  by (auto simp: enqueue_def Let_def split: prod.split sum.split)

lemma enqueue_Inr:
  "enqueue rt statements phase claims s = (Inr r, s') \<Longrightarrow> List.last (results (at_queue s')) = Inr r"
  by (auto simp: enqueue_def Let_def split: prod.splits sum.splits)

lemma count_nested_queue:
  "at_queue (snd (count_nested s)) = at_queue s \<or> (\<exists>t. at_queue (snd (count_nested s)) = close_queue t (at_queue s))"
  by (auto simp: count_nested_def abort_def close_attempt_def Let_def)

lemma queue_closes: "queue_run catalog deadline q (close_queue t q)"
  by (rule r_into_rtranclp) (rule queue_step.Close)

interpretation reach: phase_relation rt "queue_reaches rt" for rt :: "'w runtime"
proof
  fix s s' s'' :: "'w attempt" and statements phase claims t e p rs x fs
  show "queue_reaches rt s s" by (simp add: queue_reaches_def)
  show "queue_reaches rt s s''" if "queue_reaches rt s s'" "queue_reaches rt s' s''"
    using that by (simp add: queue_reaches_def)
  show "keeps (queue_reaches rt) (enqueue rt statements phase claims)"
    unfolding keeps_def queue_reaches_def enqueue_queue
    by (blast intro: converse_rtranclp_into_rtranclp queue_step.Enqueue run_queue_run)
  show "queue_reaches rt s (close_attempt t s)"
    by (simp add: queue_reaches_def close_attempt_def r_into_rtranclp queue_step.Close)
  show "queue_reaches rt s (log_attempt s)"
    by (simp add: queue_reaches_def log_attempt_def r_into_rtranclp queue_step.Log)
  show "keeps (queue_reaches rt) (count_nested :: ('w, unit) action)"
    unfolding keeps_def queue_reaches_def
  proof
    fix s :: "'w attempt"
    show "queue_run (rt_catalog rt) (rt_deadline rt) (at_queue s) (at_queue (snd (count_nested s)))"
      using count_nested_queue [of s] by (metis queue_closes rtranclp.rtrancl_refl)
  qed
qed (simp_all add: queue_reaches_def record_change_def)

text \<open>Between the calls the queue is at rest, and a rejected unit has closed it.\<close>

definition calm :: "queue \<Rightarrow> bool" where
  "calm q \<longleftrightarrow> settled q \<and> (terminal q = None \<longrightarrow> list_all (\<lambda>r. \<exists>x. r = Inr x) (results q))"

text \<open>The queue while it runs the one unit \<open>j\<close> that was enqueued in the state \<open>q\<close>.\<close>

definition runs_one :: "queue \<Rightarrow> job \<Rightarrow> queue \<Rightarrow> bool" where
  "runs_one q j x \<longleftrightarrow>
     pending x = [j] \<and> running x = Idle \<and> results x = results q \<and> terminal x = terminal q
   \<or> pending x = [] \<and> results x = results q \<and> terminal x = terminal q
       \<and> ((\<exists>r. running x = Check j (jstatements j) r)
          \<or> terminal q = None \<and> (\<exists>rest. running_part x = Some (j, rest)))
   \<or> settled x \<and> (\<exists>r. results x = results q @ [Inr r]) \<and> terminal x = terminal q
       \<and> (jstatements j \<noteq> [] \<longrightarrow> terminal q = None)
   \<or> settled x \<and> (\<exists>e. results x = results q @ [Inl e]) \<and> terminal x \<noteq> None"

lemma runs_one_fail:
  "pending x = [] \<Longrightarrow> results x = results q \<Longrightarrow> runs_one q j (fail_statement catalog j' raw x)"
  by (auto simp: runs_one_def fail_statement_def settle_def close_queue_def log_error_def settled_def
      split: prod.split option.split)

lemma runs_one_advance:
  assumes "runs_one q j x" "\<not> settled x"
  shows "runs_one q j (advance_queue catalog deadline now answer x)"
proof -
  consider (wait) "pending x = [j]" "running x = Idle" "results x = results q" "terminal x = terminal q"
    | (first) r where "pending x = []" "results x = results q" "terminal x = terminal q" "running x = Check j (jstatements j) r"
    | (later) rest where "pending x = []" "results x = results q" "terminal x = terminal q" "terminal q = None"
        "running_part x = Some (j, rest)"
    using assms by (auto simp: runs_one_def)
  then show ?thesis
  proof cases
    case wait
    then show ?thesis by (auto simp: advance_queue_def take_job_def runs_one_def)
  next
    case first
    then show ?thesis
      by (auto simp: advance_queue_def check_step_def settle_def close_queue_def runs_one_def settled_def Let_def
          running_part_def split: option.splits)
  next
    case later
    note fail = runs_one_fail [OF later(1,2)]
    show ?thesis
    proof (cases "running x")
      case (Check j' rest' r)
      then show ?thesis using later
        by (auto simp: advance_queue_def check_step_def settle_def close_queue_def runs_one_def settled_def Let_def
            running_part_def split: option.splits)
    next
      case (Limit j' rest' ms)
      then show ?thesis using later fail
        by (cases answer) (auto simp: advance_queue_def limit_step_def runs_one_def running_part_def)
    next
      case (Sent j' rest')
      then show ?thesis using later fail
        by (cases answer) (auto simp: advance_queue_def answer_step_def runs_one_def running_part_def)
    qed (use later in \<open>auto simp: advance_queue_def send_step_def runs_one_def running_part_def\<close>)
  qed
qed

lemma runs_one_run: "runs_one q j x \<Longrightarrow> runs_one q j (snd (run_queue P catalog deadline w x))"
proof (induction P catalog deadline w x rule: run_queue.induct)
  case (1 P catalog deadline w x)
  show ?case
  proof (cases "settled x")
    case False
    obtain now answer w' where m: "meet P x w = (now, answer, w')" by (cases "meet P x w")
    from 1 show ?thesis
      using False m runs_one_advance by (subst run_queue.simps) simp
  qed (use 1 in \<open>subst run_queue.simps, simp\<close>)
qed

text \<open>What a call of \<open>enqueue\<close> leaves, from a queue at rest.\<close>

lemma enqueue_at_rest:
  fixes rt statements phase claims s
  defines "q \<equiv> at_queue s" and "q' \<equiv> at_queue (snd (enqueue rt statements phase claims s))"
  assumes "settled q"
  shows "settled q'
    \<and> ((\<exists>r. results q' = results q @ [Inr r]) \<and> terminal q' = terminal q \<and> (statements \<noteq> [] \<longrightarrow> terminal q = None)
      \<or> (\<exists>e. results q' = results q @ [Inl e]) \<and> terminal q' \<noteq> None)"
proof -
  let ?j = "\<lparr>jstatements = statements, jphase = phase, jclaims = claims\<rparr>"
  have "runs_one q ?j (enqueue_job ?j q)"
    using assms(3) by (simp add: runs_one_def enqueue_job_def settled_def)
  then have "runs_one q ?j q'" unfolding q'_def enqueue_queue q_def by (rule runs_one_run)
  moreover have "settled q'" unfolding q'_def enqueue_queue by (rule run_queue_settled)
  ultimately show ?thesis by (auto simp: runs_one_def settled_def running_part_def)
qed

definition stays_calm :: "'w attempt \<Rightarrow> 'w attempt \<Rightarrow> bool" where
  "stays_calm s s' \<longleftrightarrow> (calm (at_queue s) \<longrightarrow> calm (at_queue s'))"

lemma calm_enqueue: "calm (at_queue s) \<Longrightarrow> calm (at_queue (snd (enqueue rt statements phase claims s)))"
  using enqueue_at_rest [of s rt statements phase claims] by (auto simp: calm_def)

lemma calm_close: "calm q \<Longrightarrow> calm (close_queue t q)"
  by (simp add: calm_def close_queue_def settled_def split: option.split)

lemma calm_log: "calm (log_error b q) = calm q"
  by (simp add: calm_def log_error_def settled_def)

interpretation rest: phase_relation rt stays_calm for rt :: "'w runtime"
proof
  show "keeps stays_calm (enqueue rt statements phase claims)" for statements phase claims
    by (simp add: keeps_def stays_calm_def calm_enqueue)
  show "keeps stays_calm (count_nested :: ('w, unit) action)"
    unfolding keeps_def stays_calm_def
  proof (intro allI impI)
    fix s :: "'w attempt" assume "calm (at_queue s)"
    then show "calm (at_queue (snd (count_nested s)))"
      using count_nested_queue [of s] calm_close by metis
  qed
qed (simp_all add: stays_calm_def close_attempt_def calm_close log_attempt_def calm_log record_change_def)

subsection \<open>What a committed command did\<close>

lemma keeps_claims:
  assumes "phase_relation rt R" "\<And>s w. R s (s\<lparr>at_world := w\<rparr>)"
  shows "keeps R (send_claims rt claims)"
proof -
  have "R s (snd (enqueue rt us phase c (s\<lparr>at_world := w\<rparr>)))" for s w us phase c
    using phase_relation.R_enqueue [OF assms(1)] assms(2)
    unfolding keeps_def by (blast intro: phase_relation.R_trans [OF assms(1)])
  then show ?thesis by (simp add: keeps_def send_claims_def Let_def split: prod.split)
qed

lemma keeps_take_user: "phase_relation rt R \<Longrightarrow> (\<And>s u. R s (s\<lparr>at_user := u\<rparr>)) \<Longrightarrow> keeps R (take_user r)"
  by (auto simp: take_user_def keeps_def [of _ "\<lambda>s. (Inr (), s\<lparr>at_user := u\<rparr>)" for u] Let_def
      intro: phase_relation.keeps_abort phase_relation.keeps_anomaly split: jval.split list.split)

lemma keeps_run_phases: "phase_relation rt R \<Longrightarrow> keeps R (run_phases rt full ps)"
  by (induction ps)
    (auto intro!: phase_relation.keeps_return phase_relation.keeps_bind phase_relation.keeps_top_phase)

lemma run_queue_accepted: "accepted (snd (run_queue P catalog deadline w q)) = accepted q"
proof (induction P catalog deadline w q rule: run_queue.induct)
  case (1 P catalog deadline w q)
  have "accepted (advance_queue catalog deadline now answer q) = accepted q" for now answer
    by (auto simp: queue_defs Let_def
        split: stage.splits list.splits sum.splits prod.splits option.splits if_splits)
  with 1 show ?case by (subst run_queue.simps) (auto split: prod.split)
qed

lemma bindT_Inr: "bindT m f s = (Inr y, s'') \<longleftrightarrow> (\<exists>x s'. m s = (Inr x, s') \<and> f x s' = (Inr y, s''))"
  by (auto simp: bindT_def split: prod.split sum.split)

lemma run_phases_length: "run_phases rt full ps s = (Inr rows, s') \<Longrightarrow> length rows = length ps"
  by (induction ps arbitrary: s s' rows) (auto simp: returnT_def bindT_Inr)

text \<open>The statements of the units that ran, when none was rejected.\<close>

lemma all_units_ran:
  assumes "queue_run catalog deadline empty_queue q" "calm q" "terminal q = None"
  shows "works (sent q) = concat (map jstatements (accepted q))"
proof -
  obtain ds cur where d: "in_order (serial_of q) ds cur" using in_order_reachable [OF assms(1)] by blast
  have idle: "running_part q = None" "pending q = []"
    using assms(2) by (simp_all add: calm_def settled_def running_part_def)
  have "list_all (\<lambda>r. \<exists>x. r = Inr x) (results q)" using assms(2,3) by (simp add: calm_def)
  then have "snd (snd x) = jstatements (fst x)" if "x \<in> set ds" for x
    using d that by (force simp: in_order_def serial_of_def list_all_iff unit_ran_def)
  then have "concat (map (\<lambda>x. snd (snd x)) ds) = concat (map jstatements (map fst ds))"
    by (simp add: comp_def cong: map_cong)
  then show ?thesis using d idle by (auto simp: in_order_def serial_of_def)
qed

lemma attempt_body_end:
  assumes "attempt_body rt claims full ops s = (Inr (rows, tag), s')"
  shows "\<exists>x r. enqueue rt [commit_statement] None None x = (Inr r, s') \<and> queue_reaches rt s x
    \<and> stays_calm s x \<and> length rows = length ops \<and> tag = qcommand r"
proof -
  obtain s1 s2 s3 s4 s5 x r a b c u where run:
    "enqueue rt [begin_statement] None None s = (Inr a, s1)" "send_claims rt claims s1 = (Inr b, s2)"
    "enqueue rt [command_role] None None s2 = (Inr c, s3)" "enqueue rt [current_user] None None s3 = (Inr u, s4)"
    "take_user u s4 = (Inr (), s5)" "run_phases rt full ops s5 = (Inr rows, x)"
    "enqueue rt [commit_statement] None None x = (Inr r, s')" "tag = qcommand r"
    using assms by (auto simp: attempt_body_def bindT_Inr returnT_def)
  have "R s x" if "phase_relation rt R" "\<And>s w. R s (s\<lparr>at_world := w\<rparr>)" "\<And>s u. R s (s\<lparr>at_user := u\<rparr>)" for R
    using phase_relation.R_enqueue [OF that(1)] keeps_claims [OF that(1,2)] keeps_take_user [OF that(1,3)]
      keeps_run_phases [OF that(1)] phase_relation.R_trans [OF that(1)] run
    unfolding keeps_def by (metis snd_conv)
  note kept = this
  have "queue_reaches rt s x"
    by (rule kept [OF reach.phase_relation_axioms]) (simp_all add: queue_reaches_def)
  moreover have "stays_calm s x"
    by (rule kept [OF rest.phase_relation_axioms]) (simp_all add: stays_calm_def)
  ultimately show ?thesis using run(7,8) run_phases_length [OF run(6)] by blast
qed


text \<open>A port that answers every statement with one row and the tag of a commit.\<close>

definition sample_port :: "unit port" where
  "sample_port =
     \<lparr>rp_connect = (\<lambda>w. (Inr (), w)),
      rp_query = (\<lambda>_ w. (Inr \<lparr>qrows = [[(js ''user_id'', JStr (js ''u1''))]], qcommand = js ''COMMIT''\<rparr>, w)),
      rp_release = (\<lambda>_ w. w), rp_now = (\<lambda>w. (0, w)), rp_random = (\<lambda>w. (0, w)), rp_wait = (\<lambda>_ w. w),
      rp_uuid = (\<lambda>w. (js ''id'', w))\<rparr>"

definition sample_runtime :: "unit runtime" where
  "sample_runtime =
     \<lparr>rt_port = sample_port, rt_catalog = [], rt_modules = (\<lambda>_. None), rt_max_attempts = 3, rt_max_depth = 8,
      rt_budget = 30000, rt_lock = 5000, rt_deadline = 30000\<rparr>"

definition sample_body :: "(exn + row list \<times> jstr) \<times> unit attempt" where
  "sample_body = attempt_body sample_runtime [] False [] (new_attempt None ())"

lemma sample_body_returns: "fst sample_body = Inr ([], js ''COMMIT'')"
  by (simp add: sample_body_def new_attempt_def empty_queue_def attempt_body_def bindT_def returnT_def send_claims_def
      take_user_def get_def enqueue_def sample_runtime_def sample_port_def enqueue_job_def run_queue.simps settled_def
      advance_queue_def take_job_def check_step_def limit_step_def send_step_def answer_step_def settle_def meet_def
      Let_def timeout_ms_def statement_ceiling_def)


end
