(* ===== verification/Connections.thy ===== *)
theory Connections
  imports Commands
begin

section \<open>Connections of a command\<close>

text \<open>
  What the port of the database sees of a command. The port of a runtime is wrapped so that its
  world records the calls of \<open>connect\<close>, \<open>query\<close> and \<open>release\<close>; the record is then compared with
  the protocol of a pool.
\<close>

subsection \<open>The protocol\<close>

datatype port_event = Refused | Connected | Queried statement bool | Released bool

text \<open>
  Outside a connection, or inside one with the statement that was answered last; a failed
  statement leaves none. A connection may return to the pool only after the end of its
  transaction was answered, otherwise it is destroyed.
\<close>

datatype conn = Outside | Inside "statement option"

fun conn_step :: "conn \<Rightarrow> port_event \<Rightarrow> conn option" where
  "conn_step Outside Refused = Some Outside"
| "conn_step Outside Connected = Some (Inside None)"
| "conn_step (Inside _) (Queried st ok) = Some (Inside (if ok then Some st else None))"
| "conn_step (Inside answered) (Released destroy) =
     (if destroy \<or> answered = Some commit_statement \<or> answered = Some rollback_statement then Some Outside else None)"
| "conn_step _ _ = None"

fun conn_run :: "conn \<Rightarrow> port_event list \<Rightarrow> conn option" where
  "conn_run c [] = Some c"
| "conn_run c (x # xs) = Option.bind (conn_step c x) (\<lambda>c. conn_run c xs)"

definition is_connect :: "port_event \<Rightarrow> bool" where
  "is_connect x \<longleftrightarrow> x = Refused \<or> x = Connected"

definition is_query :: "port_event \<Rightarrow> bool" where
  "is_query x = (case x of Queried _ _ \<Rightarrow> True | _ \<Rightarrow> False)"

lemma conn_run_append: "conn_run c (xs @ ys) = Option.bind (conn_run c xs) (\<lambda>c. conn_run c ys)"
  by (induction xs arbitrary: c) (simp_all split: bind_split)

text \<open>Queries alone stay inside, and the last one decides what was answered.\<close>

definition answered_by :: "statement option \<Rightarrow> port_event list \<Rightarrow> statement option" where
  "answered_by x qs = (if qs = [] then x else case List.last qs of Queried st True \<Rightarrow> Some st | _ \<Rightarrow> None)"

lemma conn_run_queries: "list_all is_query qs \<Longrightarrow> conn_run (Inside x) qs = Some (Inside (answered_by x qs))"
proof (induction qs arbitrary: x)
  case (Cons q qs)
  then obtain st ok where "q = Queried st ok" by (auto simp: is_query_def split: port_event.splits)
  with Cons show ?case by (auto simp: answered_by_def)
qed (simp add: answered_by_def)

lemma queries_connect: "list_all is_query qs \<Longrightarrow> filter is_connect qs = []"
  by (induction qs) (auto simp: is_query_def is_connect_def split: port_event.splits)

subsection \<open>The recorded port\<close>

type_synonym 'w traced = "'w \<times> port_event list"

definition record_call :: "('w \<Rightarrow> 'a \<times> 'w) \<Rightarrow> ('a \<Rightarrow> port_event list) \<Rightarrow> 'w traced \<Rightarrow> 'a \<times> 'w traced" where
  "record_call call events wh = (case call (fst wh) of (r, w) \<Rightarrow> (r, (w, snd wh @ events r)))"

definition traced :: "'w port \<Rightarrow> 'w traced port" where
  "traced P =
     \<lparr>rp_connect = record_call (rp_connect P) (\<lambda>r. [if isl r then Refused else Connected]),
      rp_query = (\<lambda>st. record_call (rp_query P st) (\<lambda>r. [Queried st (\<not> isl r)])),
      rp_release = (\<lambda>b wh. (rp_release P b (fst wh), snd wh @ [Released b])),
      rp_now = record_call (rp_now P) (\<lambda>_. []),
      rp_random = record_call (rp_random P) (\<lambda>_. []),
      rp_wait = (\<lambda>t wh. (rp_wait P t (fst wh), snd wh)),
      rp_uuid = record_call (rp_uuid P) (\<lambda>_. [])\<rparr>"

lemmas traced_simps = traced_def record_call_def split_beta

text \<open>The recorded calls between two states are queries.\<close>

definition only_queries :: "'w traced \<Rightarrow> 'w traced \<Rightarrow> bool" where
  "only_queries w w' \<longleftrightarrow> (\<exists>qs. snd w' = snd w @ qs \<and> list_all is_query qs)"

lemma only_queries_refl [simp]: "only_queries w w"
  by (simp add: only_queries_def)

lemma only_queries_trans: "only_queries w w' \<Longrightarrow> only_queries w' w'' \<Longrightarrow> only_queries w w''"
  by (auto simp: only_queries_def)

lemma meet_queries: "meet (traced P) q w = (now, answer, w') \<Longrightarrow> only_queries w w'"
  by (auto simp: meet_def traced_simps only_queries_def is_query_def Let_def split: stage.splits if_splits)

lemma run_queue_queries: "only_queries w (fst (run_queue (traced P) catalog deadline w q))"
proof (induction "traced P" catalog deadline w q rule: run_queue.induct)
  case (1 catalog deadline w q)
  show ?case
  proof (cases "settled q")
    case False
    obtain now answer w' where m: "meet (traced P) q w = (now, answer, w')" by (cases "meet (traced P) q w")
    from only_queries_trans [OF meet_queries [OF m] 1 [OF False m [symmetric] refl]] show ?thesis
      using False m by (subst run_queue.simps) simp
  qed (subst run_queue.simps, simp)
qed

lemma prepare_queries:
  assumes "rt_port rt = traced P"
  shows "only_queries w (snd (prepare_operation rt op w))"
proof -
  have "snd (snd (fresh_id rt w)) = snd w" for w
    using assms by (simp add: fresh_id_def traced_simps)
  then have "snd (snd (root_input rt e op w)) = snd w" for e
    by (auto simp: root_input_def Let_def split_beta split: operation.split option.split sum.split)
  then show ?thesis
    by (auto simp: prepare_operation_def only_queries_def Let_def split_beta split: sum.split option.split prod.split)
qed

definition queries_only :: "'w traced attempt \<Rightarrow> 'w traced attempt \<Rightarrow> bool" where
  "queries_only s s' \<longleftrightarrow> only_queries (at_world s) (at_world s')"

lemma count_nested_world: "at_world (snd (count_nested s)) = at_world s"
  by (simp add: count_nested_def abort_def close_attempt_def Let_def)

lemma enqueue_world:
  "at_world (snd (enqueue rt statements phase claims s)) =
     fst (run_queue (rt_port rt) (rt_catalog rt) (rt_deadline rt) (at_world s)
       (enqueue_job \<lparr>jstatements = statements, jphase = phase, jclaims = claims\<rparr> (at_queue s)))"
  by (auto simp: enqueue_def Let_def split: prod.split sum.split)

interpretation recorded: phase_relation "rt\<lparr>rt_port := traced P\<rparr>" queries_only for rt :: "'w traced runtime" and P :: "'w port"
proof
  fix s s' s'' :: "'w traced attempt" and x
  show "queries_only s s''" if "queries_only s s'" "queries_only s' s''"
    using that unfolding queries_only_def by (rule only_queries_trans)
  show "queries_only s (s\<lparr>at_world := snd (prepare_operation (rt\<lparr>rt_port := traced P\<rparr>) x (at_world s))\<rparr>)"
    using prepare_queries [of "rt\<lparr>rt_port := traced P\<rparr>" P] by (simp add: queries_only_def)
qed (simp_all add: keeps_def queries_only_def enqueue_world run_queue_queries close_attempt_def log_attempt_def
       record_change_def count_nested_world)

subsection \<open>The answer to \<open>COMMIT\<close>\<close>

definition commit_job :: job where
  "commit_job = \<lparr>jstatements = [commit_statement], jphase = None, jclaims = None\<rparr>"

text \<open>The queue while it runs the last unit: a result other than a rejection has the answer behind it.\<close>

definition committing :: "port_event list \<Rightarrow> queue \<Rightarrow> bool" where
  "committing h q \<longleftrightarrow>
     pending q = [commit_job] \<and> running q = Idle
   \<or> pending q = [] \<and>
      ((\<exists>r. running q = Check commit_job [commit_statement] r)
       \<or> (\<exists>ms. running q = Limit commit_job [commit_statement] ms)
       \<or> running q = Ready commit_job [commit_statement]
       \<or> running q = Sent commit_job [] \<and> sent q \<noteq> [] \<and> List.last (sent q) = Work commit_statement
       \<or> (\<exists>r before. running q = Check commit_job [] r \<and> h = before @ [Queried commit_statement True])
       \<or> running q = Idle \<and> ((\<exists>x. List.last (results q) = Inl x) \<or> (\<exists>before. h = before @ [Queried commit_statement True])))"

lemma committing_fail:
  "pending q = [] \<Longrightarrow> committing h (fail_statement catalog j raw q)"
  by (auto simp: committing_def fail_statement_def settle_def close_queue_def log_error_def split: prod.split)

lemma committing_advance:
  assumes "committing (snd w) q" "\<not> settled q" "meet (traced P) q w = (now, answer, w')"
  shows "committing (snd w') (advance_queue catalog deadline now answer q)"
proof (cases "running q")
  case Idle
  then show ?thesis using assms
    by (auto simp: advance_queue_def take_job_def committing_def settled_def commit_job_def)
next
  case (Check j rest r)
  then show ?thesis using assms
    by (auto simp: advance_queue_def check_step_def settle_def close_queue_def committing_def meet_def traced_simps Let_def
        commit_job_def split: option.splits if_splits)
next
  case (Limit j rest ms)
  then have "pending q = []" using assms(1) by (auto simp: committing_def)
  from committing_fail [OF this] show ?thesis using assms(1) Limit
    by (cases answer) (auto simp: advance_queue_def limit_step_def committing_def)
next
  case (Ready j rest)
  then show ?thesis using assms by (auto simp: advance_queue_def send_step_def committing_def)
next
  case (Sent j rest)
  then have q: "pending q = []" "j = commit_job" "rest = []" "sent q \<noteq> []" "List.last (sent q) = Work commit_statement"
    using assms(1) by (auto simp: committing_def)
  then have "snd w' = snd w @ [Queried commit_statement (\<not> isl answer)]"
    using assms(3) Sent by (auto simp: meet_def traced_simps sent_query_def)
  moreover note committing_fail [OF q(1)]
  ultimately show ?thesis
    using Sent q by (cases answer) (simp_all add: advance_queue_def answer_step_def, simp add: committing_def)
qed

lemma committing_run:
  "committing (snd w) q \<Longrightarrow>
   committing (snd (fst (run_queue (traced P) catalog deadline w q))) (snd (run_queue (traced P) catalog deadline w q))"
proof (induction "traced P" catalog deadline w q rule: run_queue.induct)
  case (1 catalog deadline w q)
  show ?case
  proof (cases "settled q")
    case False
    obtain now answer w' where m: "meet (traced P) q w = (now, answer, w')" by (cases "meet (traced P) q w")
    from 1(1) [OF False m [symmetric] refl committing_advance [OF 1(2) False m]] show ?thesis
      using False m by (subst (1 2) run_queue.simps) simp
  qed (use 1 in \<open>subst (1 2) run_queue.simps, simp\<close>)
qed

lemma commit_answered:
  assumes "rt_port rt = traced P" "settled (at_queue s)" "enqueue rt [commit_statement] None None s = (Inr r, s')"
  shows "\<exists>before. snd (at_world s') = before @ [Queried commit_statement True]"
proof -
  obtain w q where run: "run_queue (traced P) (rt_catalog rt) (rt_deadline rt) (at_world s) (enqueue_job commit_job (at_queue s)) = (w, q)"
    by fastforce
  have s': "at_world s' = w" "List.last (results q) = Inr r"
    using assms run by (auto simp: enqueue_def Let_def commit_job_def split: sum.splits)
  have "committing (snd (at_world s)) (enqueue_job commit_job (at_queue s))"
    using assms(2) by (simp add: committing_def enqueue_job_def settled_def)
  from committing_run [OF this] have "committing (snd w) q" using run by (metis fst_conv snd_conv)
  moreover have "settled q" using run_queue_settled run by (metis snd_conv)
  ultimately show ?thesis using s' by (auto simp: committing_def settled_def)
qed

subsection \<open>Every attempt gives its connection back\<close>

lemma body_queries:
  fixes P :: "'w port"
  assumes "rt_port rt = traced P"
  shows "keeps queries_only (attempt_body rt claims full ops)"
proof -
  have rt: "rt\<lparr>rt_port := traced P\<rparr> = rt" using assms by simp
  note R = recorded.phase_relation_axioms [of P rt, unfolded rt]
  have now: "queries_only s (s\<lparr>at_world := snd (rp_now (rt_port rt) (at_world s))\<rparr>)" for s
    using assms by (simp add: queries_only_def only_queries_def traced_simps)
  have "keeps queries_only (send_claims rt claims)"
    unfolding keeps_def
  proof
    fix s
    show "queries_only s (snd (send_claims rt claims s))"
      using phase_relation.R_trans [OF R now] phase_relation.R_enqueue [OF R]
      by (simp add: keeps_def send_claims_def Let_def split_beta)
  qed
  moreover have "keeps queries_only (take_user r :: ('w traced, unit) action)" for r
    by (rule keeps_take_user [OF R]) (simp add: queries_only_def)
  ultimately show ?thesis
    unfolding attempt_body_def
    by (intro phase_relation.keeps_bind [OF R] phase_relation.R_enqueue [OF R] keeps_run_phases [OF R]
        phase_relation.keeps_return [OF R])
qed

text \<open>The record of one attempt: one \<open>connect\<close>, and the protocol is followed to its end.\<close>

definition attempt_record :: "'w traced \<Rightarrow> 'w traced \<Rightarrow> port_event list \<Rightarrow> bool" where
  "attempt_record w w' es \<longleftrightarrow>
     snd w' = snd w @ es \<and> conn_run Outside es = Some Outside \<and> length (filter is_connect es) = 1"

lemma attempt_record_inside:
  assumes "list_all is_query qs" "destroy \<or> answered_by None qs \<in> {Some commit_statement, Some rollback_statement}"
  shows "conn_run Outside (Connected # qs @ [Released destroy]) = Some Outside"
    "length (filter is_connect (Connected # qs @ [Released destroy])) = 1"
  using assms by (auto simp: conn_run_append conn_run_queries queries_connect is_connect_def)

lemma end_failed_record:
  assumes "list_all is_query qs" "snd w = h @ Connected # qs"
  shows "\<exists>es. snd (end_failed (traced P) destroy w) = h @ es \<and> conn_run Outside es = Some Outside
    \<and> length (filter is_connect es) = 1"
proof (cases destroy)
  case True
  then show ?thesis
    using attempt_record_inside [OF assms(1), of True] assms(2)
    by (intro exI [of _ "Connected # qs @ [Released True]"]) (simp add: end_failed_def traced_simps)
next
  case False
  obtain r w' where r: "rp_query P rollback_statement (fst w) = (r, w')" by fastforce
  let ?qs = "qs @ [Queried rollback_statement (\<not> isl r)]"
  have qs: "list_all is_query ?qs" using assms(1) by (simp add: is_query_def)
  have "isl r \<or> answered_by None ?qs \<in> {Some commit_statement, Some rollback_statement}"
    by (cases r) (simp_all add: answered_by_def)
  from attempt_record_inside [OF qs this] show ?thesis
    using False r assms(2)
    by (intro exI [of _ "Connected # ?qs @ [Released (isl r)]"]) (cases r, simp_all add: end_failed_def traced_simps)
qed

lemma attempt_connection:
  assumes "rt_port rt = traced P"
  shows "\<exists>es. attempt_record w (snd (run_attempt rt claims act full ops w)) es"
proof -
  obtain r w1 where c: "rp_connect P (fst w) = (r, w1)" by fastforce
  show ?thesis
  proof (cases r)
    case (Inl raw)
    then have "attempt_record w (snd (run_attempt rt claims act full ops w)) [Refused]"
      using c assms by (simp add: attempt_record_def run_attempt_def traced_simps is_connect_def)
    then show ?thesis by blast
  next
    case (Inr u)
    let ?s = "new_attempt act (w1, snd w @ [Connected])"
    obtain res s where body: "attempt_body rt claims full ops ?s = (res, s)" by fastforce
    then have "queries_only ?s s" using body_queries [OF assms] by (metis keeps_def snd_conv)
    then obtain qs where qs: "snd (at_world s) = snd w @ Connected # qs" "list_all is_query qs"
      by (auto simp: queries_only_def only_queries_def new_attempt_def)
    have connect: "rp_connect (rt_port rt) w = (Inr u, (w1, snd w @ [Connected]))"
      using c Inr assms by (simp add: traced_simps)
    show ?thesis
    proof (cases res)
      case (Inl x)
      let ?d = "tdestroy (the (terminal (at_queue (close_exception x s))))"
      have "at_world (close_exception x s) = at_world s"
        by (simp add: close_exception_def close_raw_def close_attempt_def log_attempt_def split: exn.split)
      then have "snd (run_attempt rt claims act full ops w) = end_failed (traced P) ?d (at_world s)"
        using connect body Inl assms by (simp add: run_attempt_def Let_def)
      with end_failed_record [OF qs(2,1)] show ?thesis by (auto simp: attempt_record_def)
    next
      case (Inr y)
      obtain rows tag where y: "y = (rows, tag)" by (cases y)
      obtain x r where x: "enqueue rt [commit_statement] None None x = (Inr r, s)" "stays_calm ?s x"
        using attempt_body_end body Inr y by blast
      have "calm (at_queue ?s)" by (simp add: new_attempt_def calm_def settled_def empty_queue_def)
      then have "settled (at_queue x)" using x(2) by (simp add: stays_calm_def calm_def)
      from commit_answered [OF assms this x(1)] obtain before
        where "snd (at_world s) = before @ [Queried commit_statement True]" by blast
      then have "answered_by None qs = Some commit_statement"
        using qs(1) by (cases qs rule: rev_cases) (auto simp: answered_by_def)
      then have "attempt_record w (rp_release (traced P) False (at_world s)) (Connected # qs @ [Released False])"
        using attempt_record_inside [OF qs(2), of False] qs(1) by (simp add: attempt_record_def traced_simps)
      moreover have "snd (run_attempt rt claims act full ops w) = rp_release (traced P) False (at_world s)"
        using connect body Inr y assms by (simp add: run_attempt_def Let_def)
      ultimately show ?thesis by metis
    qed
  qed
qed

lemma attempt_records:
  assumes "attempt_record w w' es" "snd w'' = snd w'"
    and "\<exists>es. snd v = snd w'' @ es \<and> conn_run Outside es = Some Outside \<and> length (filter is_connect es) \<le> n"
  shows "\<exists>es. snd v = snd w @ es \<and> conn_run Outside es = Some Outside \<and> length (filter is_connect es) \<le> Suc n"
proof -
  from assms(3) obtain es' where es': "snd v = snd w'' @ es'" "conn_run Outside es' = Some Outside" "length (filter is_connect es') \<le> n"
    by blast
  show ?thesis
    using assms(1,2) es' by (intro exI [of _ "es @ es'"]) (simp add: attempt_record_def conn_run_append)
qed

lemma attempts_connections:
  assumes "rt_port rt = traced P"
  shows "\<exists>es. snd (snd (attempts rt claims act full ops left n w)) = snd w @ es
    \<and> conn_run Outside es = Some Outside \<and> length (filter is_connect es) \<le> Suc left"
proof (induction left arbitrary: n w)
  case 0
  then show ?case using attempt_connection [OF assms] by (fastforce simp: attempt_record_def)
next
  case (Suc left)
  obtain es where es: "attempt_record w (snd (run_attempt rt claims act full ops w)) es" using attempt_connection [OF assms] by blast
  have stop: ?case if "snd (attempts rt claims act full ops (Suc left) n w) = w'"
      "snd w' = snd (snd (run_attempt rt claims act full ops w))" for w'
    using es that by (auto simp: attempt_record_def intro!: exI [of _ es])
  have go: ?case if "snd (attempts rt claims act full ops (Suc left) n w) = snd (attempts rt claims act full ops left (n + 1) w')"
      "snd w' = snd (snd (run_attempt rt claims act full ops w))" for w'
    using attempt_records [OF es that(2) Suc.IH] that(1) by simp
  have quiet: "snd (snd (rp_random (rt_port rt) v)) = snd v" "snd (snd (rp_now (rt_port rt) v)) = snd v"
    "snd (rp_wait (rt_port rt) t v) = snd v" for v t
    using assms by (simp_all add: traced_simps)
  obtain o' w1 where a: "run_attempt rt claims act full ops w = (o', w1)" by (cases "run_attempt rt claims act full ops w")
  show ?case
  proof (cases o')
    case (Failed t)
    obtain random w2 where r: "rp_random (rt_port rt) w1 = (random, w2)"
      by (cases "rp_random (rt_port rt) w1")
    obtain now w3 where now: "rp_now (rt_port rt) w2 = (now, w3)"
      by (cases "rp_now (rt_port rt) w2")
    have w: "snd w2 = snd w1" "snd w3 = snd w1" using quiet r now by (metis snd_conv)+
    show ?thesis
      using stop go a Failed r now w quiet(3) by (auto simp: Let_def split: if_splits)
  qed (use stop a in auto)
qed

text \<open>
  C3. Connections of a command. Over all its attempts a command follows the protocol of the pool:
  it queries only inside a connection; every connection that it took is given back exactly once;
  it goes back to the pool only when its last answered statement was a \<open>COMMIT\<close> or a
  \<open>ROLLBACK\<close>, and is destroyed otherwise; and there are at most as many connections as attempts.
  Hooks cannot change that.
\<close>

theorem connections_given_back:
  "\<exists>es. snd (snd (attempts (rt\<lparr>rt_port := traced P\<rparr>) claims act full ops left n w)) = snd w @ es
    \<and> conn_run Outside es = Some Outside \<and> length (filter is_connect es) \<le> Suc left"
  by (rule attempts_connections) simp

end
