(* ===== verification/Runtime.thy ===== *)
theory Runtime
  imports Connections ReadSafety
begin

section \<open>The runtime and its reads\<close>

text \<open>
  \<open>server/runtime.ts\<close>: the creation of a runtime with its check of the database, and the reads of
  the server. The state of both is the world of the port with the number of entries in the log;
  the log of the host cannot break a refusal, so only their number is kept.
\<close>

type_synonym 'w logged = "'w \<times> nat"

definition log_entry :: "bool \<Rightarrow> 'w logged \<Rightarrow> 'w logged" where
  "log_entry b s = (fst s, if b then snd s + 1 else snd s)"

subsection \<open>Options\<close>

datatype database_provider = Supabase
datatype request_purpose = UserRequest | AnonymousRequest

record api_roles =
  user_role :: jstr
  anonymous_role :: jstr
  service_role :: jstr

definition provider_api_roles :: "database_provider \<Rightarrow> api_roles" where
  "provider_api_roles p =
     (case p of Supabase \<Rightarrow>
        \<lparr>user_role = js ''authenticated'', anonymous_role = js ''anon'', service_role = js ''service_role''\<rparr>)"

definition login_role_purposes :: "database_provider \<Rightarrow> request_purpose list" where
  "login_role_purposes p = (case p of Supabase \<Rightarrow> [UserRequest])"

text \<open>\<open>readRoleOf\<close>; the tables are its parameters, as in the code.\<close>

definition read_role_of ::
  "database_provider \<Rightarrow> (database_provider \<Rightarrow> request_purpose list) \<Rightarrow> (database_provider \<Rightarrow> api_roles) \<Rightarrow> jstr option"
where
  "read_role_of p purposes roles = (if UserRequest \<in> set (purposes p) then Some (user_role (roles p)) else None)"

record runtime_catalog =
  rc_hash :: jstr
  rc_provider :: database_provider
  rc_objects :: "entry list"

text \<open>
  The module of an object as the host wrote it: its keys, each with whether it holds a function,
  and what those functions do.
\<close>

record 'w module_source =
  ms_keys :: "(jstr \<times> bool) list"
  ms_hooks :: "'w object_module"

definition object_module_keys :: "jstr list" where
  "object_module_keys = [js ''beforeWrite'', js ''onWrite'']"

text \<open>\<open>checkModules\<close>: the message of the \<open>Error\<close> it throws, if it throws one.\<close>

fun check_hooks :: "jstr \<Rightarrow> (jstr \<times> bool) list \<Rightarrow> jstr option" where
  "check_hooks name [] = None"
| "check_hooks name ((key, callable) # ks) =
     (if key \<notin> set object_module_keys \<or> \<not> callable
      then Some (js ''objectModules: unknown hook '' @ 34 # name @ 46 # key @ [34])
      else check_hooks name ks)"

fun check_modules :: "entry list \<Rightarrow> (jstr \<times> 'w module_source) list \<Rightarrow> jstr option" where
  "check_modules catalog [] = None"
| "check_modules catalog ((name, m) # ms) =
     (if \<not> list_ex (\<lambda>e. ref_key (entry_ref e) = name) catalog
      then Some (js ''objectModules: unknown object '' @ 34 # name @ [34])
      else case check_hooks name (ms_keys m) of
        Some t \<Rightarrow> Some t
      | None \<Rightarrow> check_modules catalog ms)"

text \<open>\<open>limitSchema\<close> and \<open>budgetSchema\<close> with the default of an option that is absent.\<close>

definition limit_of :: "int \<Rightarrow> int \<Rightarrow> jval \<Rightarrow> int option" where
  "limit_of low standard v =
     (case v of
        JUndef \<Rightarrow> Some standard
      | JNum n \<Rightarrow>
          (if safe_integer n then (case num_int n of Some k \<Rightarrow> if low \<le> k then Some k else None | None \<Rightarrow> None)
           else None)
      | _ \<Rightarrow> None)"

subsection \<open>The check of the database\<close>

definition begin_read_only :: statement where
  "begin_read_only = plain_statement (js ''BEGIN ISOLATION LEVEL READ COMMITTED READ ONLY'')"

definition member_statement :: "jstr \<Rightarrow> statement" where
  "member_statement role =
     \<lparr>stext = js ''SELECT pg_has_role(session_user, $1, '' @ sql_literal (js ''SET'') @ js '') AS member'',
      sparams = [Some role]\<rparr>"

definition applied_hash_statement :: statement where
  "applied_hash_statement =
     plain_statement (js ''SELECT '' @ ident (js ''simetra'') @ 46 # ident (js ''applied_snapshot_hash'') @ js ''() AS hash'')"

text \<open>\<open>rows[0]?.k\<close>\<close>

definition first_field :: "query_result \<Rightarrow> jstr \<Rightarrow> jval" where
  "first_field r k = (case qrows r of [] \<Rightarrow> JUndef | x # _ \<Rightarrow> get x k)"

text \<open>A statement of the check; a failure keeps the statement it came from, the variable \<open>step\<close>.\<close>

definition ask :: "'w port \<Rightarrow> statement \<Rightarrow> 'w logged \<Rightarrow> (statement \<times> thrown + query_result) \<times> 'w logged" where
  "ask P st s =
     (case rp_query P st (fst s) of
        (Inl raw, w) \<Rightarrow> (Inl (st, raw), (w, snd s))
      | (Inr r, w) \<Rightarrow> (Inr r, (w, snd s)))"

definition bindL :: "('s \<Rightarrow> ('x + 'a) \<times> 's) \<Rightarrow> ('a \<Rightarrow> 's \<Rightarrow> ('x + 'b) \<times> 's) \<Rightarrow> 's \<Rightarrow> ('x + 'b) \<times> 's" where
  "bindL m f s = (case m s of (Inl x, s) \<Rightarrow> (Inl x, s) | (Inr y, s) \<Rightarrow> f y s)"

definition returnL :: "'a \<Rightarrow> 's \<Rightarrow> ('x + 'a) \<times> 's" where
  "returnL x s = (Inr x, s)"

definition inspect_body ::
  "'w port \<Rightarrow> jstr option \<Rightarrow> 'w logged \<Rightarrow> (statement \<times> thrown + bool \<times> jval \<times> jstr) \<times> 'w logged"
where
  "inspect_body P role =
     bindL (ask P begin_read_only) (\<lambda>_.
     bindL (case role of
              None \<Rightarrow> returnL True
            | Some r \<Rightarrow> bindL (ask P (member_statement r)) (\<lambda>a. returnL (first_field a (js ''member'') = JStr (js ''t''))))
       (\<lambda>member.
     bindL (ask P command_role) (\<lambda>_.
     bindL (ask P applied_hash_statement) (\<lambda>a.
     bindL (ask P commit_statement) (\<lambda>c. returnL (member, first_field a (js ''hash''), qcommand c))))))"

definition mismatch :: "runtime_catalog \<Rightarrow> jstr option \<Rightarrow> command_error" where
  "mismatch C applied = (error_of ''command.model-mismatch'')\<lparr>ehashes := Some (rc_hash C, applied)\<rparr>"

definition inspect_failure :: "database_error \<Rightarrow> 'w logged \<Rightarrow> command_error \<times> 'w logged" where
  "inspect_failure e s =
     (let mapped = error_of (if dlost e then ''command.unavailable'' else ''command.internal'')
      in (mapped, log_entry (logs_database_error e mapped) s))"

text \<open>
  One connection of \<open>inspect\<close>. \<open>again\<close> is what follows when the request role is missing in the
  database; the call there passes no role, so there is at most one further connection.
\<close>

definition inspect_with ::
  "('w logged \<Rightarrow> (command_error + bool \<times> jstr option) \<times> 'w logged) \<Rightarrow> 'w port \<Rightarrow> runtime_catalog \<Rightarrow> jstr option \<Rightarrow>
   'w logged \<Rightarrow> (command_error + bool \<times> jstr option) \<times> 'w logged"
where
  "inspect_with again P C role s =
     (case rp_connect P (fst s) of
        (Inl raw, w) \<Rightarrow> (case inspect_failure (normalize_error raw) (w, snd s) of (x, s) \<Rightarrow> (Inl x, s))
      | (Inr _, w) \<Rightarrow>
          (case inspect_body P role (w, snd s) of
             (Inr (member, hash, tag), s) \<Rightarrow>
               (let s = (rp_release P False (fst s), snd s)
                in if tag \<noteq> js ''COMMIT'' \<or> string_of hash = None \<and> hash \<noteq> JNull
                   then (Inl internal_error, log_entry True s)
                   else (Inr (member, string_of hash), s))
           | (Inl (st, raw), s) \<Rightarrow>
               (let e = normalize_error raw; s = (end_failed P (dlost e) (fst s), snd s)
                in if st = applied_hash_statement \<and> dcode e \<in> {Some (js ''42883''), Some (js ''3F000'')}
                   then (Inl (mismatch C None), s)
                   else if role \<noteq> None \<and> st = member_statement (the role) \<and> dcode e = Some (js ''42704'')
                   then (case again s of
                           (Inl x, s) \<Rightarrow> (Inl x, s)
                         | (Inr (_, applied), s) \<Rightarrow> (Inr (False, applied), s))
                   else (case inspect_failure e s of (x, s) \<Rightarrow> (Inl x, s)))))"

primrec inspect ::
  "'w port \<Rightarrow> runtime_catalog \<Rightarrow> jstr option \<Rightarrow> 'w logged \<Rightarrow> (command_error + bool \<times> jstr option) \<times> 'w logged"
where
  "inspect P C None = inspect_with (\<lambda>s. (Inl internal_error, s)) P C None"
| "inspect P C (Some role) =
     inspect_with (inspect_with (\<lambda>s. (Inl internal_error, s)) P C None) P C (Some role)"

subsection \<open>Creation\<close>

text \<open>What the schema of the catalog made of the option is the catalog, or nothing when it threw.\<close>

record 'w runtime_options =
  ro_port :: "'w port"
  ro_catalog :: "runtime_catalog option"
  ro_modules :: "(jstr \<times> 'w module_source) list"
  ro_fallback :: bool
  ro_max_attempts :: jval
  ro_max_depth :: jval
  ro_read_timeout :: jval
  ro_budget :: jval
  ro_lock_timeout :: jval

text \<open>A created runtime: what commands read, and what reads need beyond it.\<close>

record 'w host =
  h_runtime :: "'w runtime"
  h_read_timeout :: int
  h_read_role :: "jstr option"

text \<open>The options checked before any call of the database; \<open>None\<close> is an exception.\<close>

definition checked_host :: "'w runtime_options \<Rightarrow> (runtime_catalog \<times> 'w host) option" where
  "checked_host opts =
     Option.bind (ro_catalog opts) (\<lambda>C.
     if check_modules (rc_objects C) (ro_modules opts) \<noteq> None then None
     else
       Option.bind (limit_of 1 3 (ro_max_attempts opts)) (\<lambda>tries.
       Option.bind (limit_of 1 8 (ro_max_depth opts)) (\<lambda>depth.
       Option.bind (limit_of 1 15000 (ro_read_timeout opts)) (\<lambda>read_timeout.
       Option.bind (limit_of 1000 60000 (ro_budget opts)) (\<lambda>budget.
       Option.bind (limit_of 1 5000 (ro_lock_timeout opts)) (\<lambda>lock.
         Some (C,
           \<lparr>h_runtime =
              \<lparr>rt_port = ro_port opts, rt_catalog = rc_objects C,
               rt_modules = (\<lambda>name. map_option ms_hooks (map_of (ro_modules opts) name)),
               rt_max_attempts = nat tries, rt_max_depth = nat depth, rt_budget = budget, rt_lock = lock,
               rt_deadline = 0\<rparr>,
            h_read_timeout = read_timeout, h_read_role = None\<rparr>)))))))"

text \<open>\<open>createCommandRuntime\<close>\<close>

definition create_runtime :: "'w runtime_options \<Rightarrow> 'w logged \<Rightarrow> (exn + 'w host) \<times> 'w logged" where
  "create_runtime opts s =
     (case checked_host opts of
        None \<Rightarrow> (Inl RawException, s)
      | Some (C, h) \<Rightarrow>
          (let role = read_role_of (rc_provider C) login_role_purposes provider_api_roles
           in case inspect (ro_port opts) C role s of
                (Inl x, s) \<Rightarrow> (Inl (Failure x), s)
              | (Inr (member, applied), s) \<Rightarrow>
                  (if applied \<noteq> Some (rc_hash C) then Inl (Failure (mismatch C applied))
                   else if role \<noteq> None \<and> \<not> member \<and> \<not> ro_fallback opts
                   then Inl (Failure ((error_of ''command.read-role-missing'')\<lparr>erole := role\<rparr>))
                   else Inr (h\<lparr>h_read_role := if member then role else None\<rparr>), s)))"

subsection \<open>Reads of the server\<close>

text \<open>The exceptions of a read: a refusal of the database, mapped, or an answer of the wrong shape.\<close>

datatype read_exception = RefusedBy command_error bool | Malformed

text \<open>\<open>fail\<close>\<close>

definition read_failure ::
  "entry list \<Rightarrow> error_phase option \<Rightarrow> thrown \<Rightarrow> 'w logged \<Rightarrow> command_error \<times> bool \<times> 'w logged"
where
  "read_failure catalog phase raw s =
     (let e = normalize_error raw; mapped = map_database_error catalog phase e
      in (mapped, dlost e, log_entry (logs_database_error e mapped) s))"

text \<open>\<open>send\<close>\<close>

definition send_read ::
  "'w host \<Rightarrow> error_phase option \<Rightarrow> statement \<Rightarrow> 'w logged \<Rightarrow> (read_exception + query_result) \<times> 'w logged"
where
  "send_read h phase st s =
     (case rp_query (rt_port (h_runtime h)) st (fst s) of
        (Inl raw, w) \<Rightarrow>
          (case read_failure (rt_catalog (h_runtime h)) phase raw (w, snd s) of
             (x, destroy, s) \<Rightarrow> (Inl (RefusedBy x destroy), s))
      | (Inr r, w) \<Rightarrow> (Inr r, (w, snd s)))"

definition read_timeout_statement :: "'w host \<Rightarrow> statement" where
  "read_timeout_statement h =
     \<lparr>stext = js ''SELECT set_config('' @ sql_literal (js ''statement_timeout'') @ js '', $1, true)'',
      sparams = [Some (show_int (h_read_timeout h))]\<rparr>"

text \<open>\<open>claimsStatement\<close>: the claims, the time zone and the format of bytes.\<close>

definition read_claims_statement :: "jstr \<Rightarrow> statement" where
  "read_claims_statement claims = \<lparr>stext = claims_text, sparams = [Some claims]\<rparr>"

definition read_role_statement :: "'w host \<Rightarrow> statement" where
  "read_role_statement h =
     (case h_read_role h of
        None \<Rightarrow> command_role
      | Some r \<Rightarrow> plain_statement (js ''SET LOCAL ROLE '' @ ident r))"

definition read_setup :: "'w host \<Rightarrow> jstr \<Rightarrow> statement list" where
  "read_setup h claims = [begin_read_only, read_timeout_statement h, read_claims_statement claims, read_role_statement h]"

primrec send_setup ::
  "'w host \<Rightarrow> statement list \<Rightarrow> 'w logged \<Rightarrow> (read_exception + unit) \<times> 'w logged"
where
  "send_setup h [] = returnL ()"
| "send_setup h (st # sts) = bindL (send_read h None st) (\<lambda>_. send_setup h sts)"

definition run_read_statement :: "'w host \<Rightarrow> ('w logged, read_exception) runner" where
  "run_read_statement h st e = bindL (send_read h (Some (ReadPhase e)) st) (\<lambda>r. returnL (qrows r))"

definition read_transaction ::
  "'w host \<Rightarrow> jstr \<Rightarrow> entry \<Rightarrow> read_plan \<Rightarrow> 'w logged \<Rightarrow>
   (read_exception + (command_error + read_result) \<times> jstr) \<times> 'w logged"
where
  "read_transaction h claims e plan =
     bindL (send_setup h (read_setup h claims)) (\<lambda>_.
     bindL (execute_read (run_read_statement h) Malformed e plan) (\<lambda>result.
     bindL (send_read h None commit_statement) (\<lambda>r. returnL (result, qcommand r))))"

text \<open>
  \<open>readRows\<close>, outside every command. The session is \<open>None\<close> when its schema refused it, otherwise
  its text, which \<open>JSON.stringify\<close> may refuse to give.
\<close>

definition server_read ::
  "'w host \<Rightarrow> jstr option option \<Rightarrow> schema_query \<Rightarrow> 'w logged \<Rightarrow> (command_error + read_result) \<times> 'w logged"
where
  "server_read h session parsed s =
     (let rt = h_runtime h; P = rt_port rt
      in case session of
           None \<Rightarrow> (Inl (error_of ''command.unauthenticated''), s)
         | Some None \<Rightarrow> (Inl internal_error, s)
         | Some (Some claims) \<Rightarrow>
             (case prepare_read (rt_catalog rt) parsed of
                Inl x \<Rightarrow> (Inl x, s)
              | Inr (e, plan) \<Rightarrow>
                  (case rp_connect P (fst s) of
                     (Inl raw, w) \<Rightarrow>
                       (case read_failure (rt_catalog rt) None raw (w, snd s) of (x, _, s) \<Rightarrow> (Inl x, s))
                   | (Inr _, w) \<Rightarrow>
                       (case read_transaction h claims e plan (w, snd s) of
                          (Inl (RefusedBy x destroy), s) \<Rightarrow> (Inl x, (end_failed P destroy (fst s), snd s))
                        | (Inl Malformed, s) \<Rightarrow>
                            (case log_entry True s of (w, n) \<Rightarrow> (Inl internal_error, (end_failed P False w, n)))
                        | (Inr (result, tag), s) \<Rightarrow>
                            (let s = (rp_release P False (fst s), snd s)
                             in if tag \<noteq> js ''COMMIT'' then (Inl internal_error, log_entry True s) else (result, s))))))"

subsection \<open>What a read asks the port\<close>

definition answered :: "statement \<Rightarrow> port_event" where
  "answered st = Queried st True"

definition port_log :: "'w traced logged \<Rightarrow> port_event list" where
  "port_log s = snd (fst s)"

lemma port_log_simps [simp]: "port_log ((w, h), n) = h" "port_log (log_entry b s) = port_log s"
  by (simp_all add: port_log_def log_entry_def)

text \<open>
  An action that only asks: its statements were answered, except that a failed action may have one
  more that was not.
\<close>

definition asks :: "('w traced logged \<Rightarrow> ('x + 'a) \<times> 'w traced logged) \<Rightarrow> bool" where
  "asks m \<longleftrightarrow>
     (\<forall>s. \<exists>sts rest. port_log (snd (m s)) = port_log s @ map answered sts @ rest
        \<and> (rest = [] \<or> isl (fst (m s)) \<and> (\<exists>st. rest = [Queried st False])))"

lemma asks_return: "asks (returnL x)"
  by (auto simp: asks_def returnL_def intro: exI [of _ "[]"])

lemma asks_bind:
  assumes "asks m" "\<And>x. asks (f x)"
  shows "asks (bindL m f)"
  unfolding asks_def
proof
  fix s
  obtain r s' where m: "m s = (r, s')" by (cases "m s")
  from assms(1) obtain sts rest where a: "port_log s' = port_log s @ map answered sts @ rest"
    "rest = [] \<or> isl r \<and> (\<exists>st. rest = [Queried st False])"
    using m unfolding asks_def by (metis fst_conv snd_conv)
  show "\<exists>sts rest. port_log (snd (bindL m f s)) = port_log s @ map answered sts @ rest
      \<and> (rest = [] \<or> isl (fst (bindL m f s)) \<and> (\<exists>st. rest = [Queried st False]))"
  proof (cases r)
    case (Inl x)
    then show ?thesis using a m by (auto simp: bindL_def)
  next
    case (Inr y)
    from assms(2) [of y] obtain sts' rest' where b: "port_log (snd (f y s')) = port_log s' @ map answered sts' @ rest'"
      "rest' = [] \<or> isl (fst (f y s')) \<and> (\<exists>st. rest' = [Queried st False])"
      unfolding asks_def by blast
    then show ?thesis using a m Inr by (intro exI [of _ "sts @ sts'"] exI [of _ rest']) (auto simp: bindL_def)
  qed
qed

lemma asks_one:
  assumes "\<And>s. port_log (snd (m s)) = port_log s @ [Queried st (\<not> isl (fst (m s)))]"
  shows "asks m"
  unfolding asks_def
proof
  fix s
  show "\<exists>sts rest. port_log (snd (m s)) = port_log s @ map answered sts @ rest
      \<and> (rest = [] \<or> isl (fst (m s)) \<and> (\<exists>st. rest = [Queried st False]))"
  proof (cases "isl (fst (m s))")
    case True
    then show ?thesis using assms by (intro exI [of _ "[]"] exI [of _ "[Queried st False]"]) simp
  next
    case False
    then show ?thesis using assms by (intro exI [of _ "[st]"] exI [of _ "[]"]) (simp add: answered_def)
  qed
qed

lemma send_log:
  assumes "rt_port (h_runtime h) = traced P"
  shows "port_log (snd (send_read h phase st s)) = port_log s @ [Queried st (\<not> isl (fst (send_read h phase st s)))]"
  using assms by (cases "rp_query P st (fst (fst s))"; cases "fst (rp_query P st (fst (fst s)))")
    (simp_all add: send_read_def traced_simps read_failure_def Let_def log_entry_def port_log_def)

lemma ask_log: "port_log (snd (ask (traced P) st s)) = port_log s @ [Queried st (\<not> isl (fst (ask (traced P) st s)))]"
  by (cases "rp_query P st (fst (fst s))"; cases "fst (rp_query P st (fst (fst s)))")
    (simp_all add: ask_def traced_simps port_log_def)

lemmas asks_ask = asks_one [OF ask_log]
lemmas asks_send = asks_one [OF send_log]

text \<open>The set-up is answered in order, or stops at the first refusal.\<close>

lemma setup_log:
  assumes "rt_port (h_runtime h) = traced P"
  shows "fst (send_setup h sts s) = Inr () \<and> port_log (snd (send_setup h sts s)) = port_log s @ map answered sts
    \<or> isl (fst (send_setup h sts s))
      \<and> (\<exists>before st later. sts = before @ st # later
          \<and> port_log (snd (send_setup h sts s)) = port_log s @ map answered before @ [Queried st False])"
proof (induction sts arbitrary: s)
  case (Cons st sts)
  obtain r s' where m: "send_read h None st s = (r, s')" by (cases "send_read h None st s")
  with send_log [OF assms, of None st s] have log: "port_log s' = port_log s @ [Queried st (\<not> isl r)]" by simp
  show ?case
  proof (cases r)
    case (Inl x)
    then have "port_log (snd (send_setup h (st # sts) s)) = port_log s @ map answered [] @ [Queried st False]"
      "isl (fst (send_setup h (st # sts) s))" using m log by (simp_all add: bindL_def)
    then show ?thesis by blast
  next
    case (Inr y)
    then have go_on: "send_setup h (st # sts) s = send_setup h sts s'" using m by (simp add: bindL_def)
    from Cons [of s'] show ?thesis
    proof
      assume "isl (fst (send_setup h sts s')) \<and> (\<exists>before x later. sts = before @ x # later
          \<and> port_log (snd (send_setup h sts s')) = port_log s' @ map answered before @ [Queried x False])"
      then obtain before x later where "isl (fst (send_setup h sts s'))" "sts = before @ x # later"
        "port_log (snd (send_setup h sts s')) = port_log s' @ map answered before @ [Queried x False]" by blast
      then have "isl (fst (send_setup h (st # sts) s))" "st # sts = (st # before) @ x # later"
        "port_log (snd (send_setup h (st # sts) s)) = port_log s @ map answered (st # before) @ [Queried x False]"
        using log Inr unfolding go_on by (simp_all add: answered_def)
      then show ?thesis by blast
    qed (use go_on log Inr in \<open>simp add: answered_def\<close>)
  qed
qed (simp add: returnL_def)

subsection \<open>The statements of a read\<close>

lemma asks_throw: "asks (\<lambda>s. (Inl x, s))"
  by (auto simp: asks_def intro: exI [of _ "[]"])

lemma asks_included:
  assumes "\<And>st e. asks (run st e)"
  shows "asks (read_included run raw rows steps out)"
proof (induction steps arbitrary: out)
  case Nil
  then show ?case using asks_return [unfolded returnL_def] by simp
next
  case (Cons step steps)
  have eq: "read_included run raw rows (step # steps) out =
     (case include_statement step rows of
        None \<Rightarrow> (\<lambda>s. (Inl raw, s))
      | Some None \<Rightarrow> read_included run raw rows steps (AList.update (ref_key (entry_ref (fst step))) [] out)
      | Some (Some st) \<Rightarrow>
          bindL (run st (fst step)) (\<lambda>answer.
            case decode_read_rows (fst step) answer of
              None \<Rightarrow> (\<lambda>s. (Inl raw, s))
            | Some rs \<Rightarrow> read_included run raw rows steps (AList.update (ref_key (entry_ref (fst step))) rs out)))"
    by (rule ext) (simp add: bindL_def split: option.split sum.split prod.split)
  show ?case
    unfolding eq by (auto split: option.split intro!: asks_throw asks_bind assms Cons)
qed

text \<open>A read is its first statement and then those of the included objects.\<close>

definition after_first ::
  "('s, 'x) runner \<Rightarrow> 'x \<Rightarrow> entry \<Rightarrow> read_plan \<Rightarrow> row list \<Rightarrow> 's \<Rightarrow> ('x + (command_error + read_result)) \<times> 's"
where
  "after_first run raw e plan answer =
     (case read_result_of e plan answer of
        None \<Rightarrow> (\<lambda>s. (Inl raw, s))
      | Some (Inr (ResultRows rows _ version)) \<Rightarrow>
          (case pl_include plan of
             None \<Rightarrow> returnL (Inr (ResultRows rows None version))
           | Some steps \<Rightarrow>
               bindL (read_included run raw rows steps []) (\<lambda>included.
                 returnL (Inr (ResultRows rows (Some included) version))))
      | Some r \<Rightarrow> returnL r)"

lemma execute_read_first:
  "execute_read run raw e plan = bindL (run (read_statement plan) e) (after_first run raw e plan)"
  by (rule ext) (simp add: execute_read_def after_first_def bindL_def returnL_def
      split: option.split sum.split prod.split read_result.split)

lemma asks_after_first:
  assumes "\<And>st e. asks (run st e)"
  shows "asks (after_first run raw e plan answer)"
  using assms by (auto simp: after_first_def split: option.split sum.split read_result.split
      intro!: asks_throw asks_return asks_bind asks_included)

lemma asks_run: "rt_port (h_runtime h) = traced P \<Longrightarrow> asks (run_read_statement h st e)"
  unfolding run_read_statement_def by (intro asks_bind asks_return asks_send)

lemma asks_result:
  assumes "asks m" "m s = (r, s')"
  obtains sts rest where "port_log s' = port_log s @ map answered sts @ rest"
    "rest = [] \<or> isl r \<and> (\<exists>st. rest = [Queried st False])"
  using assms unfolding asks_def by (metis fst_conv snd_conv)

text \<open>
  The statements of a transaction: the set-up, answered whole before anything else is sent, and
  when the read has a result, its first statement, those of the included objects and \<open>COMMIT\<close>.
\<close>

lemma transaction_log:
  assumes "rt_port (h_runtime h) = traced P" "read_transaction h claims e plan s = (r, s')"
  shows "\<exists>qs. port_log s' = port_log s @ qs \<and> list_all is_query qs
    \<and> (set qs \<subseteq> (\<lambda>(st, b). Queried st b) ` (set (read_setup h claims) \<times> UNIV)
       \<or> (\<exists>rest. qs = map answered (read_setup h claims) @ rest))
    \<and> (\<not> isl r \<longrightarrow> (\<exists>sts. qs = map answered (read_setup h claims @ read_statement plan # sts @ [commit_statement])))"
proof -
  obtain r1 s1 where m1: "send_setup h (read_setup h claims) s = (r1, s1)" by (cases "send_setup h (read_setup h claims) s")
  show ?thesis
  proof (cases r1)
    case (Inl x)
    with setup_log [OF assms(1), of "read_setup h claims" s] m1 obtain before st later
      where b: "read_setup h claims = before @ st # later"
        "port_log s1 = port_log s @ map answered before @ [Queried st False]" by auto
    have "s' = s1" "isl r" using assms(2) m1 Inl by (auto simp: read_transaction_def bindL_def)
    then show ?thesis using b
      by (intro exI [of _ "map answered before @ [Queried st False]"])
        (auto simp: answered_def is_query_def list_all_iff)
  next
    case (Inr y)
    with setup_log [OF assms(1), of "read_setup h claims" s] m1
    have l1: "port_log s1 = port_log s @ map answered (read_setup h claims)" by simp
    let ?run = "run_read_statement h" and ?front = "map answered (read_setup h claims)"
    obtain r2 s2 where m2: "send_read h (Some (ReadPhase e)) (read_statement plan) s1 = (r2, s2)"
      by (cases "send_read h (Some (ReadPhase e)) (read_statement plan) s1")
    with send_log [OF assms(1)] have l2: "port_log s2 = port_log s1 @ [Queried (read_statement plan) (\<not> isl r2)]"
      by (metis fst_conv snd_conv)
    show ?thesis
    proof (cases r2)
      case (Inl x)
      then have "s' = s2" "isl r"
        using assms(2) m1 m2 \<open>r1 = Inr y\<close>
        by (auto simp: read_transaction_def bindL_def execute_read_first run_read_statement_def)
      then show ?thesis using l1 l2
        by (intro exI [of _ "?front @ [Queried (read_statement plan) (\<not> isl r2)]"])
          (auto simp: answered_def is_query_def list_all_iff)
    next
      case (Inr q)
      obtain r3 s3 where m3: "after_first ?run Malformed e plan (qrows q) s2 = (r3, s3)"
        by (cases "after_first ?run Malformed e plan (qrows q) s2")
      from asks_result [OF asks_after_first [OF asks_run [OF assms(1)]] m3] obtain sts rest
        where l3: "port_log s3 = port_log s2 @ map answered sts @ rest" "rest = [] \<or> isl r3 \<and> (\<exists>st. rest = [Queried st False])" .
      let ?qs = "?front @ answered (read_statement plan) # map answered sts"
      have log3: "port_log s3 = port_log s @ ?qs @ rest" using l1 l2 l3(1) Inr by (simp add: answered_def)
      show ?thesis
      proof (cases r3)
        case (Inl x)
        then have "s' = s3" "isl r"
          using assms(2) m1 m2 m3 \<open>r1 = Inr y\<close> \<open>r2 = Inr q\<close>
          by (auto simp: read_transaction_def bindL_def returnL_def execute_read_first run_read_statement_def)
        then show ?thesis using log3 l3(2)
          by (intro exI [of _ "?qs @ rest"]) (auto simp: answered_def is_query_def list_all_iff)
      next
        case (Inr result)
        obtain r4 s4 where m4: "send_read h None commit_statement s3 = (r4, s4)"
          by (cases "send_read h None commit_statement s3")
        with send_log [OF assms(1)] have l4: "port_log s4 = port_log s3 @ [Queried commit_statement (\<not> isl r4)]"
          by (metis fst_conv snd_conv)
        have "s' = s4" "isl r = isl r4"
          using assms(2) m1 m2 m3 m4 \<open>r1 = Inr y\<close> \<open>r2 = Inr q\<close> Inr
          by (auto simp: read_transaction_def bindL_def returnL_def execute_read_first run_read_statement_def
              split: sum.splits)
        then show ?thesis using log3 l3(2) l4 Inr
          by (intro exI [of _ "?qs @ [Queried commit_statement (\<not> isl r4)]"])
            (auto simp: answered_def is_query_def list_all_iff)
      qed
    qed
  qed
qed

text \<open>
  Statements outside the set-up, a \<open>ROLLBACK\<close> aside, are sent only when the whole set-up was
  answered.
\<close>

definition setup_first :: "statement list \<Rightarrow> port_event list \<Rightarrow> bool" where
  "setup_first front es \<longleftrightarrow>
     (\<forall>before st ok later. es = before @ Queried st ok # later \<longrightarrow>
        st \<in> set front \<or> st = rollback_statement
        \<or> (\<exists>sent. before = Connected # map answered front @ sent))"

lemma setup_first_front:
  assumes "es = Connected # map answered front @ rest"
  shows "setup_first front es"
  unfolding setup_first_def
proof (intro allI impI)
  fix before st ok later
  assume es: "es = before @ Queried st ok # later"
  let ?front = "Connected # map answered front"
  have split: "before @ Queried st ok # later = ?front @ rest" using assms es by simp
  show "st \<in> set front \<or> st = rollback_statement \<or> (\<exists>sent. before = Connected # map answered front @ sent)"
  proof (cases "length before < length ?front")
    case True
    then have "Queried st ok = ?front ! length before" using split by (metis nth_append nth_append_length)
    then have "Queried st ok \<in> set ?front" using True by (metis nth_mem)
    then show ?thesis by (auto simp: answered_def)
  next
    case False
    then have "take (length ?front) before = ?front" using split
      by (metis append_eq_conv_conj append_eq_append_conv_if le_less_linear)
    then show ?thesis by (metis append_Cons append_take_drop_id)
  qed
qed

lemma setup_first_queries:
  assumes "\<And>st ok. Queried st ok \<in> set es \<Longrightarrow> st \<in> set front \<or> st = rollback_statement"
  shows "setup_first front es"
  unfolding setup_first_def using assms by (metis in_set_conv_decomp)

lemma end_failed_log:
  "\<exists>ends. snd (end_failed (traced P) d w) = snd w @ ends
     \<and> (\<forall>st ok. Queried st ok \<in> set ends \<longrightarrow> st = rollback_statement)"
  by (cases "rp_query P rollback_statement (fst w)"; cases "fst (rp_query P rollback_statement (fst w))")
    (auto simp: end_failed_def traced_simps)

text \<open>The record of a read whose transaction was begun on a connection.\<close>

definition read_record :: "statement list \<Rightarrow> port_event list \<Rightarrow> bool" where
  "read_record front es \<longleftrightarrow>
     conn_run Outside es = Some Outside \<and> length (filter is_connect es) \<le> 1 \<and> setup_first front es"

lemma failed_record:
  assumes "list_all is_query qs" "snd w = h @ Connected # qs"
    and "set qs \<subseteq> (\<lambda>(st, b). Queried st b) ` (set front \<times> UNIV) \<or> (\<exists>rest. qs = map answered front @ rest)"
  shows "\<exists>es. snd (end_failed (traced P) d w) = h @ es \<and> read_record front es"
proof -
  obtain es where es: "snd (end_failed (traced P) d w) = h @ es" "conn_run Outside es = Some Outside"
    "length (filter is_connect es) = 1"
    using end_failed_record [OF assms(1,2)] by blast
  obtain ends where ends: "snd (end_failed (traced P) d w) = snd w @ ends"
    "\<And>st ok. Queried st ok \<in> set ends \<Longrightarrow> st = rollback_statement"
    using end_failed_log by blast
  then have all: "es = Connected # qs @ ends" using es(1) assms(2) by simp
  have "setup_first front es" using assms(3)
  proof
    assume "set qs \<subseteq> (\<lambda>(st, b). Queried st b) ` (set front \<times> UNIV)"
    then show ?thesis using ends(2) all by (intro setup_first_queries) auto
  qed (use all in \<open>auto intro: setup_first_front\<close>)
  then show ?thesis using es by (auto simp: read_record_def)
qed

lemma server_read_log:
  assumes "rt_port (h_runtime h) = traced P"
  shows "\<exists>es. port_log (snd (server_read h (Some (Some claims)) parsed s)) = port_log s @ es
    \<and> read_record (read_setup h claims) es
    \<and> (\<not> isl (fst (server_read h (Some (Some claims)) parsed s)) \<longrightarrow>
        (\<exists>e plan sts. prepare_read (rt_catalog (h_runtime h)) parsed = Inr (e, plan)
          \<and> es = Connected # map answered (read_setup h claims @ read_statement plan # sts @ [commit_statement]) @ [Released False]))"
proof (cases "prepare_read (rt_catalog (h_runtime h)) parsed")
  case (Inl x)
  then show ?thesis by (intro exI [of _ "[]"]) (simp add: server_read_def read_record_def setup_first_def)
next
  case (Inr ep)
  obtain e plan where ep: "ep = (e, plan)" by (cases ep)
  obtain r w1 where c: "rp_connect P (fst (fst s)) = (r, w1)" by (cases "rp_connect P (fst (fst s))")
  show ?thesis
  proof (cases r)
    case (Inl raw)
    then have "port_log (snd (server_read h (Some (Some claims)) parsed s)) = port_log s @ [Refused]"
      "isl (fst (server_read h (Some (Some claims)) parsed s))"
      using c Inr ep assms
      by (simp_all add: server_read_def traced_simps read_failure_def Let_def log_entry_def port_log_def)
    then show ?thesis
      by (intro exI [of _ "[Refused]"]) (simp add: read_record_def setup_first_def is_connect_def Cons_eq_append_conv)
  next
    case (Inr u)
    let ?s = "((w1, port_log s @ [Connected]), snd s)"
    have connect: "rp_connect (rt_port (h_runtime h)) (fst s) = (Inr u, fst ?s)"
      using c Inr assms by (simp add: traced_simps port_log_def)
    obtain r s' where t: "read_transaction h claims e plan ?s = (r, s')" by (cases "read_transaction h claims e plan ?s")
    from transaction_log [OF assms t] obtain qs where qs: "port_log s' = port_log s @ Connected # qs" "list_all is_query qs"
      "set qs \<subseteq> (\<lambda>(st, b). Queried st b) ` (set (read_setup h claims) \<times> UNIV)
         \<or> (\<exists>rest. qs = map answered (read_setup h claims) @ rest)"
      "\<not> isl r \<longrightarrow> (\<exists>sts. qs = map answered (read_setup h claims @ read_statement plan # sts @ [commit_statement]))"
      by auto
    note failed = failed_record [OF qs(2) qs(1) [unfolded port_log_def [of s']] qs(3)]
    note read = \<open>prepare_read _ _ = _\<close> ep connect t assms
    show ?thesis
    proof (cases r)
      case (Inl x)
      then have "\<exists>d. fst (snd (server_read h (Some (Some claims)) parsed s)) = end_failed (traced P) d (fst s')"
        "isl (fst (server_read h (Some (Some claims)) parsed s))"
        using read by (cases x; auto simp: server_read_def Let_def log_entry_def)+
      then show ?thesis using failed by (auto simp: port_log_def)
    next
      case (Inr y)
      obtain result tag where y: "y = (result, tag)" by (cases y)
      obtain sts where sts: "qs = map answered (read_setup h claims @ read_statement plan # sts @ [commit_statement])"
        using qs(4) Inr by auto
      let ?es = "Connected # qs @ [Released False]"
      have "port_log (snd (server_read h (Some (Some claims)) parsed s)) = port_log s @ ?es"
        using read Inr y qs(1) by (simp add: server_read_def Let_def log_entry_def port_log_def traced_simps)
      moreover have "answered_by None qs = Some commit_statement" using sts by (simp add: answered_by_def answered_def)
      then have "read_record (read_setup h claims) ?es"
        using attempt_record_inside [OF qs(2), of False] setup_first_front [of ?es "read_setup h claims"] sts
        by (simp add: read_record_def)
      ultimately show ?thesis using sts read by (intro exI [of _ ?es]) auto
    qed
  qed
qed


text \<open>A port that answers every statement without rows.\<close>

definition empty_port :: "unit port" where
  "empty_port = sample_port\<lparr>rp_query := (\<lambda>_ w. (Inr \<lparr>qrows = [], qcommand = js ''COMMIT''\<rparr>, w))\<rparr>"

definition sample_host :: "unit traced host" where
  "sample_host =
     \<lparr>h_runtime = \<lparr>rt_port = traced empty_port, rt_catalog = [product_entry], rt_modules = (\<lambda>_. None), rt_max_attempts = 3,
        rt_max_depth = 8, rt_budget = 60000, rt_lock = 5000, rt_deadline = 0\<rparr>,
      h_read_timeout = 15000, h_read_role = Some (js ''authenticated'')\<rparr>"

definition sample_read :: "(command_error + read_result) \<times> unit traced logged" where
  "sample_read = server_read sample_host (Some (Some [])) (Inr (packing_query sample_owner 5)) (((), []), 0)"

lemma sample_read_returns: "fst sample_read = Inr (ResultRows [] None None)"
  by code_simp


subsection \<open>A created runtime\<close>

lemma inspect_body_answers:
  assumes "inspect_body P role s = (Inr (member, hash, tag), s')"
  shows "\<exists>w r w'. rp_query P applied_hash_statement w = (Inr r, w') \<and> first_field r (js ''hash'') = hash"
    and "case role of None \<Rightarrow> True
      | Some m \<Rightarrow> \<exists>w r w'. rp_query P (member_statement m) w = (Inr r, w')
          \<and> member = (first_field r (js ''member'') = JStr (js ''t''))"
  using assms
  by (auto simp: inspect_body_def bindL_def returnL_def ask_def split: prod.splits sum.splits option.splits)

lemma inspect_with_answers:
  assumes "inspect_with again P C role s = (Inr (member, applied), s')"
    and "\<And>m a t t'. again t = (Inr (m, a), t') \<Longrightarrow> a = Some hash \<Longrightarrow>
      \<exists>w r w'. rp_query P applied_hash_statement w = (Inr r, w') \<and> first_field r (js ''hash'') = JStr hash"
    and "applied = Some hash"
  shows "\<exists>w r w'. rp_query P applied_hash_statement w = (Inr r, w') \<and> first_field r (js ''hash'') = JStr hash"
    and "member \<Longrightarrow> role = Some m \<Longrightarrow>
      \<exists>w r w'. rp_query P (member_statement m) w = (Inr r, w') \<and> first_field r (js ''member'') = JStr (js ''t'')"
proof -
  obtain u w where "rp_connect P (fst s) = (Inr u, w)"
    using assms(1) by (auto simp: inspect_with_def inspect_failure_def Let_def split: prod.splits sum.splits)
  note c = this
  obtain r s1 where b: "inspect_body P role (w, snd s) = (r, s1)" by (cases "inspect_body P role (w, snd s)")
  show "\<exists>w r w'. rp_query P applied_hash_statement w = (Inr r, w') \<and> first_field r (js ''hash'') = JStr hash"
  proof (cases r)
    case (Inl x)
    then obtain st raw where "r = Inl (st, raw)" by (cases x) auto
    then obtain m t t' where "again t = (Inr (m, applied), t')"
      using assms(1) c b by (auto simp: inspect_with_def inspect_failure_def Let_def split: prod.splits sum.splits if_splits)
    then show ?thesis using assms(2,3) by blast
  next
    case (Inr y)
    obtain m h tag where y: "y = (m, h, tag)" by (cases y)
    then have "applied = string_of h"
      using assms(1) c b Inr by (auto simp: inspect_with_def Let_def split: if_splits)
    then have "h = JStr hash" using assms(3) by (auto simp: string_of_def split: jval.splits)
    then show ?thesis using inspect_body_answers(1) b Inr y by blast
  qed
  assume "member" "role = Some m"
  show "\<exists>w r w'. rp_query P (member_statement m) w = (Inr r, w') \<and> first_field r (js ''member'') = JStr (js ''t'')"
  proof (cases r)
    case (Inl x)
    then obtain st raw where "r = Inl (st, raw)" by (cases x) auto
    then show ?thesis using assms(1) c b \<open>member\<close>
      by (auto simp: inspect_with_def inspect_failure_def Let_def split: prod.splits sum.splits if_splits)
  next
    case (Inr y)
    obtain m' h tag where y: "y = (m', h, tag)" by (cases y)
    then have "m'" using assms(1) c b Inr \<open>member\<close> by (auto simp: inspect_with_def Let_def split: if_splits)
    from inspect_body_answers(2) [OF b [unfolded Inr y]] this show ?thesis by (simp add: \<open>role = Some m\<close>)
  qed
qed

lemma inspect_answers:
  assumes "inspect P C role s = (Inr (member, Some hash), s')"
  shows "\<exists>w r w'. rp_query P applied_hash_statement w = (Inr r, w') \<and> first_field r (js ''hash'') = JStr hash"
    and "member \<Longrightarrow> role = Some m \<Longrightarrow>
      \<exists>w r w'. rp_query P (member_statement m) w = (Inr r, w') \<and> first_field r (js ''member'') = JStr (js ''t'')"
proof -
  let ?none = "inspect_with (\<lambda>s. (Inl internal_error, s)) P C None"
  have none: "\<exists>w r w'. rp_query P applied_hash_statement w = (Inr r, w') \<and> first_field r (js ''hash'') = JStr hash"
    if "?none t = (Inr (m, a), t')" "a = Some hash" for m a t t'
    by (rule inspect_with_answers(1) [OF that(1) _ that(2)]) simp
  have "\<exists>again. inspect_with again P C role s = (Inr (member, Some hash), s')
      \<and> (\<forall>m t t'. again t = (Inr (m, Some hash), t') \<longrightarrow>
        (\<exists>w r w'. rp_query P applied_hash_statement w = (Inr r, w') \<and> first_field r (js ''hash'') = JStr hash))"
    using assms none by (cases role) (fastforce intro: exI [of _ "\<lambda>s. (Inl internal_error, s)"])+
  then obtain again where again: "inspect_with again P C role s = (Inr (member, Some hash), s')"
    "\<And>m a t t'. again t = (Inr (m, a), t') \<Longrightarrow> a = Some hash \<Longrightarrow>
        \<exists>w r w'. rp_query P applied_hash_statement w = (Inr r, w') \<and> first_field r (js ''hash'') = JStr hash"
    by blast
  show "\<exists>w r w'. rp_query P applied_hash_statement w = (Inr r, w') \<and> first_field r (js ''hash'') = JStr hash"
    by (rule inspect_with_answers(1) [OF again refl])
  show "\<exists>w r w'. rp_query P (member_statement m) w = (Inr r, w') \<and> first_field r (js ''member'') = JStr (js ''t'')"
    if "member" "role = Some m"
    by (rule inspect_with_answers(2) [OF again refl that])
qed

lemma check_hooks_None: "check_hooks name ks = None \<Longrightarrow> (key, callable) \<in> set ks \<Longrightarrow> key \<in> set object_module_keys \<and> callable"
  by (induction name ks rule: check_hooks.induct) (auto split: if_splits)

lemma check_modules_None:
  "check_modules catalog ms = None \<Longrightarrow> (name, m) \<in> set ms \<Longrightarrow>
     (\<exists>e \<in> set catalog. ref_key (entry_ref e) = name)
     \<and> (\<forall>(key, callable) \<in> set (ms_keys m). key \<in> set object_module_keys \<and> callable)"
  by (induction catalog ms rule: check_modules.induct)
    (auto simp: list_ex_iff split: if_splits option.splits dest: check_hooks_None)

lemma limit_of_bound: "limit_of low standard v = Some n \<Longrightarrow> low \<le> standard \<Longrightarrow> low \<le> n"
  by (auto simp: limit_of_def split: jval.splits if_splits option.splits)

text \<open>The limits of a created runtime.\<close>

definition limits_hold :: "'w host \<Rightarrow> bool" where
  "limits_hold h \<longleftrightarrow>
     1 \<le> rt_max_attempts (h_runtime h) \<and> 1 \<le> rt_max_depth (h_runtime h)
     \<and> 1000 \<le> rt_budget (h_runtime h) \<and> 1 \<le> rt_lock (h_runtime h) \<and> 1 \<le> h_read_timeout h"

lemma checked_host_sound:
  assumes "checked_host opts = Some (C, h)"
  shows "ro_catalog opts = Some C" "check_modules (rc_objects C) (ro_modules opts) = None" "limits_hold h"
  using assms
  by (auto simp: checked_host_def limits_hold_def bind_eq_Some_conv split: if_splits dest!: limit_of_bound)

text \<open>
  C7. A created runtime. Its catalog passed its schema and its modules name objects of the catalog
  with known hooks only; the database answered the hash of this very catalog; a role for reads is
  the role of the provider, and the database said that the login may take it, otherwise
  the host asked for the fallback; and every limit is in its range.
\<close>

theorem created_checked:
  assumes "create_runtime opts s = (Inr h, s')"
  shows "\<exists>C. ro_catalog opts = Some C
    \<and> (\<forall>(name, m) \<in> set (ro_modules opts).
          (\<exists>e \<in> set (rc_objects C). ref_key (entry_ref e) = name)
          \<and> (\<forall>(key, callable) \<in> set (ms_keys m). key \<in> set object_module_keys \<and> callable))
    \<and> (\<exists>w r w'. rp_query (ro_port opts) applied_hash_statement w = (Inr r, w')
          \<and> first_field r (js ''hash'') = JStr (rc_hash C))
    \<and> (case h_read_role h of
         None \<Rightarrow> ro_fallback opts
       | Some role \<Rightarrow> role = user_role (provider_api_roles (rc_provider C))
           \<and> (\<exists>w r w'. rp_query (ro_port opts) (member_statement role) w = (Inr r, w')
                 \<and> first_field r (js ''member'') = JStr (js ''t'')))
    \<and> limits_hold h"
proof -
  obtain C h0 where c: "checked_host opts = Some (C, h0)"
    using assms by (auto simp: create_runtime_def split: option.splits)
  let ?role = "user_role (provider_api_roles (rc_provider C))"
  have role: "read_role_of (rc_provider C) login_role_purposes provider_api_roles = Some ?role"
    by (cases "rc_provider C") (simp add: read_role_of_def login_role_purposes_def)
  obtain answer t where a: "inspect (ro_port opts) C (Some ?role) s = (answer, t)"
    by (cases "inspect (ro_port opts) C (Some ?role) s")
  note created = assms [unfolded create_runtime_def c option.case prod.case Let_def role a]
  obtain member applied where x: "answer = Inr (member, applied)" using created by (cases answer) auto
  then have i: "inspect (ro_port opts) C (Some ?role) s = (Inr (member, Some (rc_hash C)), t)"
    "h = h0\<lparr>h_read_role := if member then Some ?role else None\<rparr>" "\<not> member \<longrightarrow> ro_fallback opts"
    using created a by (auto split: if_splits)
  note answers = inspect_answers [OF i(1)]
  show ?thesis
  proof (intro exI [of _ C] conjI)
    show "limits_hold h" using checked_host_sound(3) [OF c] i(2) by (simp add: limits_hold_def)
  next
    show "\<forall>(name, m) \<in> set (ro_modules opts). (\<exists>e \<in> set (rc_objects C). ref_key (entry_ref e) = name)
          \<and> (\<forall>(key, callable) \<in> set (ms_keys m). key \<in> set object_module_keys \<and> callable)"
      using check_modules_None [OF checked_host_sound(2) [OF c]] by blast
  qed (use checked_host_sound(1) [OF c] answers i in \<open>auto split: option.split\<close>)
qed

subsection \<open>The connections of the creation\<close>

lemma bindL_assoc: "bindL (bindL m f) g = bindL m (\<lambda>x. bindL (f x) g)"
  by (rule ext) (simp add: bindL_def split: prod.split sum.split)

lemma bindL_return: "bindL (returnL x) f = f x"
  by (rule ext) (simp add: bindL_def returnL_def)

definition inspect_questions :: "'w port \<Rightarrow> jstr option \<Rightarrow> 'w logged \<Rightarrow> (statement \<times> thrown + bool \<times> jval) \<times> 'w logged" where
  "inspect_questions P role =
     bindL (ask P begin_read_only) (\<lambda>_.
     bindL (case role of
              None \<Rightarrow> returnL True
            | Some r \<Rightarrow> bindL (ask P (member_statement r)) (\<lambda>a. returnL (first_field a (js ''member'') = JStr (js ''t''))))
       (\<lambda>member.
     bindL (ask P command_role) (\<lambda>_.
     bindL (ask P applied_hash_statement) (\<lambda>a. returnL (member, first_field a (js ''hash''))))))"

lemma inspect_body_commit:
  "inspect_body P role =
     bindL (inspect_questions P role)
       (\<lambda>x. bindL (ask P commit_statement) (\<lambda>c. returnL (fst x, snd x, qcommand c)))"
  by (simp add: inspect_body_def inspect_questions_def bindL_assoc bindL_return)

lemma asks_questions: "asks (inspect_questions (traced P) role)"
  unfolding inspect_questions_def by (auto intro!: asks_bind asks_return asks_ask split: option.split)

lemma inspect_body_log:
  assumes "inspect_body (traced P) role s = (r, s')"
  shows "\<exists>qs. port_log s' = port_log s @ qs \<and> list_all is_query qs
    \<and> (isl r \<or> answered_by None qs = Some commit_statement)"
proof -
  obtain r1 s1 where m1: "inspect_questions (traced P) role s = (r1, s1)" by (cases "inspect_questions (traced P) role s")
  from asks_result [OF asks_questions m1] obtain sts rest where l1: "port_log s1 = port_log s @ map answered sts @ rest"
    "rest = [] \<or> isl r1 \<and> (\<exists>st. rest = [Queried st False])" .
  show ?thesis
  proof (cases r1)
    case (Inl x)
    then have "s' = s1" "isl r" using assms m1 by (auto simp: inspect_body_commit bindL_def)
    then show ?thesis using l1
      by (intro exI [of _ "map answered sts @ rest"]) (auto simp: answered_def is_query_def list_all_iff)
  next
    case (Inr y)
    obtain r2 s2 where m2: "ask (traced P) commit_statement s1 = (r2, s2)" by (cases "ask (traced P) commit_statement s1")
    with ask_log have l2: "port_log s2 = port_log s1 @ [Queried commit_statement (\<not> isl r2)]" by (metis fst_conv snd_conv)
    have "s' = s2" "isl r = isl r2"
      using assms m1 m2 Inr by (auto simp: inspect_body_commit bindL_def returnL_def split: sum.splits)
    then show ?thesis using l1 l2 Inr
      by (intro exI [of _ "map answered sts @ [Queried commit_statement (\<not> isl r2)]"])
        (auto simp: answered_def is_query_def list_all_iff answered_by_def)
  qed
qed

definition inspected :: "nat \<Rightarrow> 'w traced logged \<Rightarrow> 'w traced logged \<Rightarrow> bool" where
  "inspected n s s' \<longleftrightarrow>
     (\<exists>es. port_log s' = port_log s @ es \<and> conn_run Outside es = Some Outside \<and> length (filter is_connect es) \<le> n)"

lemma inspected_refl [simp]: "inspected n s s"
  by (auto simp: inspected_def)

lemma inspected_trans: "inspected m s t \<Longrightarrow> inspected n t u \<Longrightarrow> inspected (m + n) s u"
  unfolding inspected_def by (fastforce simp: conn_run_append intro: exI [of _ "_ @ _"])

lemma inspected_more: "inspected m s t \<Longrightarrow> m \<le> n \<Longrightarrow> inspected n s t"
  by (auto simp: inspected_def)

lemma inspected_log [simp]: "inspected n s (log_entry b t) = inspected n s t"
  by (simp add: inspected_def)

lemma snd_inspect_failure: "snd (inspect_failure e s) = log_entry (logs_database_error e (fst (inspect_failure e s))) s"
  by (simp add: inspect_failure_def Let_def)

lemma inspect_with_log:
  assumes "\<And>s. inspected n s (snd (again s))"
  shows "inspected (Suc n) s (snd (inspect_with again (traced P) C role s))"
proof -
  obtain r w1 where c: "rp_connect P (fst (fst s)) = (r, w1)" by (cases "rp_connect P (fst (fst s))")
  show ?thesis
  proof (cases r)
    case (Inl raw)
    then have "port_log (snd (inspect_with again (traced P) C role s)) = port_log s @ [Refused]"
      using c by (simp add: inspect_with_def traced_simps inspect_failure_def Let_def port_log_def log_entry_def)
    then show ?thesis by (auto simp: inspected_def is_connect_def)
  next
    case (Inr u)
    let ?s = "((w1, port_log s @ [Connected]), snd s)"
    have connect: "rp_connect (traced P) (fst s) = (Inr u, fst ?s)" using c Inr by (simp add: traced_simps port_log_def)
    obtain r s' where b: "inspect_body (traced P) role ?s = (r, s')" by (cases "inspect_body (traced P) role ?s")
    from inspect_body_log [OF b] obtain qs where qs: "port_log s' = port_log s @ Connected # qs" "list_all is_query qs"
      "isl r \<or> answered_by None qs = Some commit_statement" by auto
    show ?thesis
    proof (cases r)
      case (Inl x)
      obtain st raw where x: "x = (st, raw)" by (cases x)
      define t where "t = (end_failed (traced P) (dlost (normalize_error raw)) (fst s'), snd s')"
      have "inspected 1 s t"
        using end_failed_record [OF qs(2) qs(1) [unfolded port_log_def [of s']], of P "dlost (normalize_error raw)"]
        unfolding inspected_def t_def port_log_def by (metis fst_conv order_refl)
      from this inspected_trans [OF this assms] have "inspected (Suc n) s t" "inspected (Suc n) s (snd (again t))"
        by (auto intro: inspected_more)
      moreover obtain answer t' where again: "again t = (answer, t')" by (cases "again t")
      have "snd (inspect_with again (traced P) C role s) \<in> {t, t'} \<union> range (\<lambda>b. log_entry b t)"
        using connect b Inl x again
        by (cases answer) (simp_all add: inspect_with_def Let_def inspect_failure_def t_def [symmetric] split: prod.split)
      ultimately show ?thesis using again by auto
    next
      case (Inr y)
      have "inspected 1 s (rp_release (traced P) False (fst s'), n')" for n'
        using attempt_record_inside [OF qs(2), of False] qs(1,3) Inr
        by (auto simp: inspected_def port_log_def traced_simps intro!: exI [of _ "Connected # qs @ [Released False]"])
      then have "inspected (Suc n) s (rp_release (traced P) False (fst s'), n')" for n'
        by (rule inspected_more) simp
      then show ?thesis using connect b Inr by (simp add: inspect_with_def Let_def split: prod.split)
    qed
  qed
qed

lemma inspect_log: "inspected 2 s (snd (inspect (traced P) C role s))"
proof -
  have "inspected 1 s (snd (inspect_with (\<lambda>s. (Inl internal_error, s)) (traced P) C None s))" for s
    using inspect_with_log [of 0 "\<lambda>s. (Inl internal_error, s)"] by simp
  from inspected_more [OF this] inspect_with_log [OF this] show ?thesis
    by (cases role) (simp_all add: numeral_2_eq_2)
qed

text \<open>
  Connections of the creation. Nothing reaches the database when the options are invalid; otherwise
  there are at most two connections, each given back exactly once, to the pool only after its
  transaction ended.
\<close>

theorem creation_connections:
  "\<exists>es. port_log (snd (create_runtime (opts\<lparr>ro_port := traced P\<rparr>) s)) = port_log s @ es
    \<and> conn_run Outside es = Some Outside
    \<and> length (filter is_connect es) \<le> (if checked_host (opts\<lparr>ro_port := traced P\<rparr>) = None then 0 else 2)"
proof (cases "checked_host (opts\<lparr>ro_port := traced P\<rparr>)")
  case (Some x)
  obtain C h where x: "x = (C, h)" by (cases x)
  let ?role = "read_role_of (rc_provider C) login_role_purposes provider_api_roles"
  have "snd (create_runtime (opts\<lparr>ro_port := traced P\<rparr>) s) = snd (inspect (traced P) C ?role s)"
    using Some x by (cases "inspect (traced P) C ?role s") (simp add: create_runtime_def Let_def split: sum.split prod.split)
  then show ?thesis using Some inspect_log [of s P C ?role] by (simp add: inspected_def)
qed (auto simp: create_runtime_def)

definition hash_port :: "unit port" where
  "hash_port = sample_port\<lparr>rp_query :=
     (\<lambda>_ w. (Inr \<lparr>qrows = [[(js ''hash'', JStr (js ''h1'')), (js ''member'', JStr (js ''t''))]], qcommand = js ''COMMIT''\<rparr>, w))\<rparr>"

definition sample_options :: "unit runtime_options" where
  "sample_options =
     \<lparr>ro_port = hash_port, ro_catalog = Some \<lparr>rc_hash = js ''h1'', rc_provider = Supabase, rc_objects = [product_entry]\<rparr>,
      ro_modules = [(ref_key (entry_ref product_entry),
        \<lparr>ms_keys = [(js ''onWrite'', True)], ms_hooks = \<lparr>before_write = None, on_write = None\<rparr>\<rparr>)],
      ro_fallback = False, ro_max_attempts = JUndef, ro_max_depth = JNum (Dec 5 0), ro_read_timeout = JUndef,
      ro_budget = JUndef, ro_lock_timeout = JUndef\<rparr>"

definition sample_created :: "(exn + unit host) \<times> unit logged" where
  "sample_created = create_runtime sample_options ((), 0)"

lemma sample_created_returns: "\<not> isl (fst sample_created)"
  by code_simp

lemma sample_created_role: "h_read_role (projr (fst sample_created)) = Some (js ''authenticated'')"
  by code_simp

lemma created_checked_witness:
  "limits_hold (projr (fst sample_created))
   \<and> (\<exists>r w'. rp_query hash_port (member_statement (js ''authenticated'')) () = (Inr r, w')
        \<and> first_field r (js ''member'') = JStr (js ''t''))"
proof -
  have "create_runtime sample_options ((), 0) = (Inr (projr (fst sample_created)), snd sample_created)"
    using sample_created_returns unfolding sample_created_def by (metis prod.collapse sum.collapse(2))
  from created_checked [OF this] show ?thesis
    by (auto simp: sample_created_role sample_options_def)
qed

end
