(* ===== verification/CreationOrder.thy ===== *)
theory CreationOrder
  imports Catalog "HOL-Library.Product_Lexorder" "HOL-Library.While_Combinator"
begin

section \<open>The order in which a database is created\<close>

text \<open>
  \<open>compiler/sql/dependencies.ts\<close>: the tables and types of a model and the units of its SQL files
  become the nodes of a graph, the references of each the edges, and the nodes are emitted in a
  topological order with a fixed tie-break; a cycle is reported and broken. The references that
  the parser of PostgreSQL finds in a text or a tree are parameters: \<open>refs_of\<close> for a text, a
  field of a unit for its tree.
\<close>

subsection \<open>Nodes and units\<close>

datatype creation_node = EnumNode jstr jstr | TableNode jstr jstr | UnitNode jstr

datatype pg_space = RelSpace | ProcSpace | TypeSpace

record sql_reference =
  rf_space :: pg_space
  rf_names :: "jstr list"

text \<open>
  A unit with what the code reads from its tree: the references of the statement, the targets of a
  comment or a grant among them, the unit a comment belongs to, whether a grant grants and what
  it is on, the schemas of default privileges.
\<close>

record sql_unit =
  su_class :: jstr
  su_identity :: jstr
  su_schema :: jstr
  su_name :: jstr
  su_refs :: "sql_reference list"
  su_comment_class :: "jstr option"
  su_grant :: "(bool \<times> jstr list) option"
  su_default_schemas :: "jstr list"
  su_requires :: "creation_node list"

record physical_column =
  pc_type :: jstr
  pc_default :: "jstr option"
  pc_generated :: "jstr option"
  pc_sequence :: "jstr option"

record physical_index =
  pi_name :: jstr
  pi_where :: "jstr option"
  pi_expressions :: "jstr list"

record physical_table =
  pt_schema :: jstr
  pt_name :: jstr
  pt_columns :: "physical_column list"
  pt_primary_key :: "jstr option"
  pt_uniques :: "jstr list"
  pt_checks :: "jstr list"
  pt_indexes :: "physical_index list"

record graph_node =
  gn_label :: jstr
  gn_node :: creation_node
  gn_schema :: jstr
  gn_key :: jstr
  gn_unit :: "sql_unit option"

text \<open>\<open>labelOf\<close>\<close>

definition label_of :: "creation_node \<Rightarrow> jstr" where
  "label_of n =
     (case n of
        UnitNode i \<Rightarrow> i
      | EnumNode s m \<Rightarrow> js ''enumType:'' @ s @ 46 # m
      | TableNode s m \<Rightarrow> js ''table:'' @ s @ 46 # m)"

text \<open>\<open>TYPE_ORDER\<close> and \<open>compareNodes\<close>: the key by which nodes are compared.\<close>

definition type_order :: "creation_node \<Rightarrow> nat" where
  "type_order n = (case n of EnumNode _ _ \<Rightarrow> 0 | TableNode _ _ \<Rightarrow> 1 | UnitNode _ \<Rightarrow> 2)"

definition node_order :: "graph_node \<Rightarrow> nat \<times> jstr \<times> jstr" where
  "node_order n = (type_order (gn_node n), gn_schema n, gn_key n)"

definition unit_class :: "graph_node \<Rightarrow> jstr option" where
  "unit_class n = map_option su_class (gn_unit n)"

definition is_extension :: "graph_node \<Rightarrow> bool" where
  "is_extension n \<longleftrightarrow> unit_class n = Some (js ''extension'')"

subsection \<open>The graph\<close>

record graph =
  g_nodes :: "(jstr \<times> graph_node) list"
  g_deps :: "(jstr \<times> jstr list) list"
  g_index :: "pg_space \<Rightarrow> (jstr \<times> jstr list) list"

definition empty_graph :: graph where
  "empty_graph = \<lparr>g_nodes = [], g_deps = [], g_index = (\<lambda>_. [])\<rparr>"

text \<open>\<open>add\<close> and \<open>register\<close>; a name is registered with its schema and bare.\<close>

definition add_node :: "creation_node \<Rightarrow> jstr \<Rightarrow> sql_unit option \<Rightarrow> graph \<Rightarrow> graph" where
  "add_node n key u g =
     (let label = label_of n;
          schema = (case n of UnitNode _ \<Rightarrow> (case u of None \<Rightarrow> [] | Some x \<Rightarrow> su_schema x) | EnumNode s _ \<Rightarrow> s | TableNode s _ \<Rightarrow> s)
      in g\<lparr>g_nodes := AList.update label \<lparr>gn_label = label, gn_node = n, gn_schema = schema, gn_key = key, gn_unit = u\<rparr> (g_nodes g),
           g_deps := AList.update label [] (g_deps g)\<rparr>)"

definition lookup_labels :: "(jstr \<times> jstr list) list \<Rightarrow> jstr \<Rightarrow> jstr list" where
  "lookup_labels m k = (case map_of m k of None \<Rightarrow> [] | Some ls \<Rightarrow> ls)"

definition push_label :: "jstr \<Rightarrow> jstr \<Rightarrow> (jstr \<times> jstr list) list \<Rightarrow> (jstr \<times> jstr list) list" where
  "push_label label k m = AList.update k (lookup_labels m k @ [label]) m"

definition register :: "jstr \<Rightarrow> pg_space \<times> jstr \<times> jstr \<Rightarrow> graph \<Rightarrow> graph" where
  "register label x g =
     (case x of (space, schema, name) \<Rightarrow>
        g\<lparr>g_index := (g_index g)(space := push_label label name (push_label label (schema @ 46 # name) (g_index g space)))\<rparr>)"

definition register_all :: "(pg_space \<times> jstr \<times> jstr) list \<Rightarrow> jstr \<Rightarrow> graph \<Rightarrow> graph" where
  "register_all names label g = fold (register label) names g"

text \<open>\<open>pgNamespaceKeys\<close>: the names that a table and a unit take in the name spaces of PostgreSQL.\<close>

definition table_names :: "physical_table \<Rightarrow> (pg_space \<times> jstr \<times> jstr) list" where
  "table_names t =
     (RelSpace, pt_schema t, pt_name t) # (TypeSpace, pt_schema t, pt_name t)
     # map (\<lambda>n. (RelSpace, pt_schema t, n))
         (map pi_name (pt_indexes t) @ (case pt_primary_key t of None \<Rightarrow> [] | Some n \<Rightarrow> [n]) @ pt_uniques t
          @ List.map_filter pc_sequence (pt_columns t))"

definition function_classes :: "jstr list" where
  "function_classes = [js ''function'', js ''procedure'', js ''aggregate'', js ''movementQuery'']"

definition unit_names :: "sql_unit \<Rightarrow> (pg_space \<times> jstr \<times> jstr) list" where
  "unit_names u =
     (if su_class u \<in> set function_classes then [(ProcSpace, su_schema u, su_name u)]
      else if su_class u = js ''view'' \<or> su_class u = js ''materializedView''
      then [(RelSpace, su_schema u, su_name u), (TypeSpace, su_schema u, su_name u)]
      else if su_class u = js ''sequence'' then [(RelSpace, su_schema u, su_name u)]
      else if su_class u = js ''domain'' then [(TypeSpace, su_schema u, su_name u)]
      else [])"

definition add_enum :: "jstr \<times> jstr \<Rightarrow> graph \<Rightarrow> graph" where
  "add_enum x g =
     (let n = EnumNode (fst x) (snd x)
      in register_all [(TypeSpace, fst x, snd x)] (label_of n) (add_node n (snd x) None g))"

definition add_table :: "physical_table \<Rightarrow> graph \<Rightarrow> graph" where
  "add_table t g =
     (let n = TableNode (pt_schema t) (pt_name t)
      in register_all (table_names t) (label_of n) (add_node n (pt_name t) None g))"

definition add_unit :: "sql_unit \<Rightarrow> graph \<Rightarrow> graph" where
  "add_unit u g =
     (let n = UnitNode (su_identity u)
      in register_all (unit_names u) (label_of n) (add_node n (su_identity u) (Some u) g))"

subsection \<open>Edges\<close>

text \<open>\<open>resolve\<close>: an unqualified name refers to every object of that name.\<close>

definition resolve_reference :: "graph \<Rightarrow> sql_reference \<Rightarrow> jstr list" where
  "resolve_reference g r =
     (case rev (rf_names r) of
        [] \<Rightarrow> []
      | name # outer \<Rightarrow>
          if name = [] then []
          else lookup_labels (g_index g (rf_space r)) (case outer of [] \<Rightarrow> name | schema # _ \<Rightarrow> schema @ 46 # name))"

text \<open>\<open>edge\<close>: the dependencies of a node are a set in the order of their insertion.\<close>

definition add_edge :: "jstr \<Rightarrow> jstr \<Rightarrow> graph \<Rightarrow> graph" where
  "add_edge user dependency g =
     (if user = dependency then g
      else let ds = lookup_labels (g_deps g) user
           in if dependency \<in> set ds then g
              else g\<lparr>g_deps := AList.update user (ds @ [dependency]) (g_deps g)\<rparr>)"

definition add_edges :: "jstr \<Rightarrow> sql_reference list \<Rightarrow> graph \<Rightarrow> graph" where
  "add_edges user refs g =
     fold (\<lambda>r g. fold (add_edge user) (resolve_reference g r) g) refs g"

text \<open>\<open>tableEdges\<close>: types of columns first, then the expressions in their order.\<close>

definition table_texts :: "physical_table \<Rightarrow> jstr list" where
  "table_texts t =
     concat (map (\<lambda>c. List.map_filter id [pc_default c, pc_generated c]) (pt_columns t)) @ pt_checks t
     @ concat (map (\<lambda>i. (case pi_where i of None \<Rightarrow> [] | Some w \<Rightarrow> [w]) @ pi_expressions i) (pt_indexes t))"

definition table_edges :: "(jstr \<Rightarrow> sql_reference list) \<Rightarrow> physical_table \<Rightarrow> graph \<Rightarrow> graph" where
  "table_edges refs_of t g =
     (let label = label_of (TableNode (pt_schema t) (pt_name t))
      in fold (\<lambda>x. add_edges label (refs_of (js ''SELECT ('' @ x @ js '')''))) (table_texts t)
           (fold (\<lambda>c. add_edges label (refs_of (js ''SELECT NULL::'' @ pc_type c))) (pt_columns t) g))"

text \<open>\<open>collectRevokes\<close>: the units that revoke on a target.\<close>

definition revokes_on :: "sql_unit list \<Rightarrow> jstr \<Rightarrow> jstr list" where
  "revokes_on us key =
     concat (map (\<lambda>u. case su_grant u of
        Some (False, keys) \<Rightarrow> map (\<lambda>_. su_identity u) (filter ((=) key) keys)
      | _ \<Rightarrow> []) us)"

text \<open>\<open>unitEdges\<close>\<close>

definition unit_edges :: "sql_unit list \<Rightarrow> sql_unit \<Rightarrow> graph \<Rightarrow> graph" where
  "unit_edges us u g =
     (if su_class u = js ''extension'' then g
      else
        let g = add_edges (su_identity u) (su_refs u) g;
            g = (case su_comment_class u of
                   None \<Rightarrow> g
                 | Some c \<Rightarrow>
                     (let target = c @ 58 # su_name u
                      in if has_key (g_nodes g) target then add_edge (su_identity u) target g else g))
        in case su_grant u of
             Some (True, keys) \<Rightarrow> fold (add_edge (su_identity u)) (concat (map (revokes_on us) keys)) g
           | _ \<Rightarrow> g)"

text \<open>\<open>requiredEdges\<close>: a node that is not in the model is an internal error, here \<open>None\<close>.\<close>

fun required_edges :: "jstr \<Rightarrow> creation_node list \<Rightarrow> graph \<Rightarrow> graph option" where
  "required_edges label [] g = Some g"
| "required_edges label (n # ns) g =
     (if has_key (g_nodes g) (label_of n) then required_edges label ns (add_edge label (label_of n) g) else None)"

fun all_required :: "sql_unit list \<Rightarrow> graph \<Rightarrow> graph option" where
  "all_required [] g = Some g"
| "all_required (u # us) g = Option.bind (required_edges (su_identity u) (su_requires u) g) (all_required us)"

text \<open>\<open>defaultPrivilegeEdges\<close>: default privileges come before what they apply to.\<close>

definition default_privilege_edges :: "sql_unit \<Rightarrow> graph \<Rightarrow> graph" where
  "default_privilege_edges u g =
     fold (\<lambda>(_, n) g.
       if unit_class n \<in> {Some (js ''defaultPrivileges''), Some (js ''extension'')} then g
       else if su_default_schemas u = [] \<or> gn_schema n \<in> set (su_default_schemas u)
       then add_edge (gn_label n) (su_identity u) g else g)
     (g_nodes g) g"

text \<open>The constructor of \<open>Graph\<close>.\<close>

definition build_graph ::
  "(jstr \<Rightarrow> sql_reference list) \<Rightarrow> (jstr \<times> jstr) list \<Rightarrow> physical_table list \<Rightarrow> sql_unit list \<Rightarrow> graph option"
where
  "build_graph refs_of enums tables us =
     (let g = fold add_unit us (fold add_table tables (fold add_enum enums empty_graph));
          g = fold (unit_edges us) us (fold (table_edges refs_of) tables g)
      in map_option (fold default_privilege_edges (filter (\<lambda>u. su_class u = js ''defaultPrivileges'') us)) (all_required us g))"

subsection \<open>The sort\<close>

definition node_of :: "graph \<Rightarrow> jstr \<Rightarrow> graph_node option" where
  "node_of g label = map_of (g_nodes g) label"

definition deps_of :: "graph \<Rightarrow> jstr \<Rightarrow> jstr list" where
  "deps_of g label = lookup_labels (g_deps g) label"

text \<open>The nodes in the order of the tie-break; extensions come first and are left out of the sort.\<close>

definition sorted_nodes :: "graph \<Rightarrow> graph_node list" where
  "sorted_nodes g = sort_key node_order (map snd (g_nodes g))"

definition extensions :: "graph \<Rightarrow> graph_node list" where
  "extensions g = filter is_extension (sorted_nodes g)"

definition sortable_nodes :: "graph \<Rightarrow> graph_node list" where
  "sortable_nodes g = filter (\<lambda>n. \<not> is_extension n) (sorted_nodes g)"

text \<open>
  The state of the loop: the labels emitted, the order so far, the cycles found, the nodes that
  are ready and the number of dependencies each node waits for.
\<close>

record order_state =
  os_emitted :: "jstr list"
  os_order :: "graph_node list"
  os_cycles :: "graph_node list list"
  os_ready :: "graph_node list"
  os_pending :: "jstr \<Rightarrow> int"

definition waits_for :: "graph \<Rightarrow> jstr list \<Rightarrow> jstr \<Rightarrow> jstr list" where
  "waits_for g emitted label = filter (\<lambda>d. d \<notin> set emitted) (deps_of g label)"

text \<open>\<open>dependents\<close>: built once, from the dependencies that are not extensions.\<close>

definition users_of :: "graph \<Rightarrow> jstr \<Rightarrow> jstr list" where
  "users_of g d =
     (if d \<in> gn_label ` set (extensions g) then []
      else map gn_label (filter (\<lambda>n. d \<in> set (deps_of g (gn_label n))) (sortable_nodes g)))"

definition initial_state :: "graph \<Rightarrow> order_state" where
  "initial_state g =
     (let emitted = map gn_label (extensions g)
      in \<lparr>os_emitted = emitted, os_order = extensions g, os_cycles = [],
          os_ready = filter (\<lambda>n. waits_for g emitted (gn_label n) = []) (sortable_nodes g),
          os_pending = (\<lambda>label. int (length (waits_for g emitted label)))\<rparr>)"

text \<open>\<open>insertSorted\<close>: a binary search for the first node that is not smaller.\<close>

function search_position :: "graph_node list \<Rightarrow> graph_node \<Rightarrow> nat \<Rightarrow> nat \<Rightarrow> nat" where
  "search_position ns n low high =
     (if low < high then
        (let middle = (low + high) div 2
         in if node_order (ns ! middle) < node_order n then search_position ns n (middle + 1) high
            else search_position ns n low middle)
      else low)"
  by pat_completeness auto
termination by (relation "measure (\<lambda>(_, _, low, high). high - low)") auto

definition insert_sorted :: "graph_node \<Rightarrow> graph_node list \<Rightarrow> graph_node list" where
  "insert_sorted n ns = (let i = search_position ns n 0 (length ns) in take i ns @ n # drop i ns)"

text \<open>\<open>emit\<close>: the users of the node wait for one dependency less; \<open>None\<close> is a node that does not exist.\<close>

fun release_users :: "graph \<Rightarrow> jstr list \<Rightarrow> order_state \<Rightarrow> order_state option" where
  "release_users g [] s = Some s"
| "release_users g (u # us) s =
     (let left = os_pending s u - 1;
          s = s\<lparr>os_pending := (os_pending s)(u := left)\<rparr>
      in if left = 0 \<and> u \<notin> set (os_emitted s) then
           (case node_of g u of
              None \<Rightarrow> None
            | Some n \<Rightarrow> release_users g us (s\<lparr>os_ready := insert_sorted n (os_ready s)\<rparr>))
         else release_users g us s)"

definition emit_node :: "graph \<Rightarrow> graph_node \<Rightarrow> order_state \<Rightarrow> order_state option" where
  "emit_node g n s =
     release_users g (users_of g (gn_label n))
       (s\<lparr>os_emitted := gn_label n # os_emitted s, os_order := os_order s @ [n]\<rparr>)"

text \<open>
  \<open>findCycle\<close>: the walk from a node to its first dependency that is not emitted, until a node
  comes again. The walk ends because it never leaves the nodes of the graph; \<open>None\<close> is a node
  without such a dependency, which the caller excludes.
\<close>

definition first_dependency :: "graph \<Rightarrow> jstr list \<Rightarrow> jstr \<Rightarrow> graph_node option" where
  "first_dependency g emitted label =
     (case map (node_of g) (waits_for g emitted label) of
        [] \<Rightarrow> None
      | ns \<Rightarrow> if None \<in> set ns then None else Some (hd (sort_key node_order (map the ns))))"

function walk_back :: "graph \<Rightarrow> jstr list \<Rightarrow> graph_node list \<Rightarrow> graph_node \<Rightarrow> graph_node list option" where
  "walk_back g emitted path current =
     (if gn_label current \<in> gn_label ` set path
      then Some (dropWhile (\<lambda>n. gn_label n \<noteq> gn_label current) path)
      else if \<not> has_key (g_nodes g) (gn_label current) then None
      else (case first_dependency g emitted (gn_label current) of
              None \<Rightarrow> None
            | Some next \<Rightarrow> walk_back g emitted (path @ [current]) next))"
  by pat_completeness auto
termination
proof (relation "measure (\<lambda>(g, _, path, _). card (fst ` set (g_nodes g) - gn_label ` set path))")
  fix g emitted and path :: "graph_node list" and current x :: graph_node
  assume a: "gn_label current \<notin> gn_label ` set path" "\<not> \<not> has_key (g_nodes g) (gn_label current)"
  then have "fst ` set (g_nodes g) - gn_label ` set (path @ [current]) \<subset> fst ` set (g_nodes g) - gn_label ` set path"
    by (auto simp: has_key_iff)
  then show "((g, emitted, path @ [current], x), g, emitted, path, current)
      \<in> measure (\<lambda>(g, _, path, _). card (fst ` set (g_nodes g) - gn_label ` set path))"
    by (simp add: psubset_card_mono)
qed simp

text \<open>The cycle starts at its first unit in the order, or where the walk met it.\<close>

definition is_unit :: "graph_node \<Rightarrow> bool" where
  "is_unit n \<longleftrightarrow> gn_unit n \<noteq> None"

definition rotate_cycle :: "graph_node list \<Rightarrow> graph_node list" where
  "rotate_cycle cycle =
     (case sort_key node_order (filter is_unit cycle) of
        [] \<Rightarrow> cycle
      | u # _ \<Rightarrow> dropWhile (\<lambda>n. n \<noteq> u) cycle @ takeWhile (\<lambda>n. n \<noteq> u) cycle)"

definition find_cycle :: "graph \<Rightarrow> jstr list \<Rightarrow> graph_node \<Rightarrow> graph_node list option" where
  "find_cycle g emitted start = map_option rotate_cycle (walk_back g emitted [] start)"

text \<open>One round of the loop.\<close>

definition order_step :: "graph \<Rightarrow> order_state \<Rightarrow> order_state option" where
  "order_step g s =
     (case os_ready s of
        n # ready \<Rightarrow>
          (let s = s\<lparr>os_ready := ready\<rparr>
           in if gn_label n \<in> set (os_emitted s) then Some s else emit_node g n s)
      | [] \<Rightarrow>
          Option.bind (find (\<lambda>n. gn_label n \<notin> set (os_emitted s)) (sortable_nodes g)) (\<lambda>start.
          Option.bind (find_cycle g (os_emitted s) start) (\<lambda>cycle.
            case cycle of
              [] \<Rightarrow> None
            | n # _ \<Rightarrow> emit_node g n (s\<lparr>os_cycles := os_cycles s @ [cycle]\<rparr>))))"

text \<open>
  \<open>sort\<close>: rounds until as many labels were emitted as there are nodes. The loop may in principle
  run forever or throw; \<open>None\<close> stands for both, and \<open>creation_order_complete\<close> shows that it does
  neither.
\<close>

definition order_loop :: "graph \<Rightarrow> order_state option \<Rightarrow> order_state option option" where
  "order_loop g =
     while_option (\<lambda>s. case s of None \<Rightarrow> False | Some s \<Rightarrow> card (set (os_emitted s)) < length (g_nodes g))
       (\<lambda>s. Option.bind s (order_step g))"

definition sort_graph :: "graph \<Rightarrow> (graph_node list \<times> graph_node list list) option" where
  "sort_graph g =
     (case order_loop g (Some (initial_state g)) of
        Some (Some s) \<Rightarrow> Some (os_order s, os_cycles s)
      | _ \<Rightarrow> None)"

text \<open>\<open>creationOrder\<close>: the order of the nodes and the cycles that the diagnostics name.\<close>

definition creation_order ::
  "(jstr \<Rightarrow> sql_reference list) \<Rightarrow> (jstr \<times> jstr) list \<Rightarrow> physical_table list \<Rightarrow> sql_unit list \<Rightarrow>
   (creation_node list \<times> jstr list list) option"
where
  "creation_order refs_of enums tables us =
     Option.bind (build_graph refs_of enums tables us) (\<lambda>g.
       map_option (\<lambda>(order, cycles). (map gn_node order, map (\<lambda>c. map gn_label (c @ [hd c])) cycles)) (sort_graph g))"

end
