(* ===== verification/CreationGraph.thy ===== *)
theory CreationGraph
  imports CreationOrder
begin

section \<open>The graph of a model\<close>

text \<open>
  What the constructor of the graph in \<open>compiler/sql/dependencies.ts\<close> promises to its sort: one node
  for each label, dependencies that are nodes, without repetitions and without a loop.
\<close>

subsection \<open>Graphs that the constructor builds\<close>

definition labels :: "graph \<Rightarrow> jstr set" where
  "labels g = fst ` set (g_nodes g)"

definition index_labels :: "(jstr \<times> jstr list) list \<Rightarrow> jstr set" where
  "index_labels m = \<Union> (set ` snd ` set m)"

definition graph_ok :: "graph \<Rightarrow> bool" where
  "graph_ok g \<longleftrightarrow>
     distinct (map fst (g_nodes g)) \<and> (\<forall>l n. node_of g l = Some n \<longrightarrow> gn_label n = l \<and> label_of (gn_node n) = l)
     \<and> (\<forall>l. set (deps_of g l) \<subseteq> labels g \<and> l \<notin> set (deps_of g l) \<and> distinct (deps_of g l))
     \<and> (\<forall>space k. set (lookup_labels (g_index g space) k) \<subseteq> labels g)"

lemma has_key_labels: "has_key (g_nodes g) l \<longleftrightarrow> l \<in> labels g"
  by (simp add: labels_def has_key_iff)

lemma lookup_update [simp]:
  "lookup_labels (AList.update k v m) k' = (if k' = k then v else lookup_labels m k')"
  by (simp add: lookup_labels_def update_conv)

lemma graph_ok_empty: "graph_ok empty_graph"
  by (simp add: graph_ok_def empty_graph_def deps_of_def node_of_def lookup_labels_def)

lemma labels_add_node [simp]: "labels (add_node n k u g) = insert (label_of n) (labels g)"
  by (auto simp: labels_def add_node_def Let_def dom_update)

lemma graph_ok_add_node: "graph_ok g \<Longrightarrow> graph_ok (add_node n k u g)"
proof -
  assume ok: "graph_ok g"
  have "g_index (add_node n k u g) = g_index g" by (simp add: add_node_def Let_def)
  moreover have "deps_of (add_node n k u g) l = (if l = label_of n then [] else deps_of g l)" for l
    by (simp add: deps_of_def add_node_def Let_def)
  moreover have "distinct (map fst (g_nodes (add_node n k u g)))"
    using ok by (simp add: graph_ok_def add_node_def Let_def distinct_update)
  moreover have "\<forall>l x. node_of (add_node n k u g) l = Some x \<longrightarrow> gn_label x = l \<and> label_of (gn_node x) = l"
    using ok by (auto simp: graph_ok_def node_of_def add_node_def Let_def update_conv)
  ultimately show ?thesis using ok unfolding graph_ok_def labels_add_node by (simp, blast)
qed

lemma lookup_push:
  "set (lookup_labels (push_label l k m) k') \<subseteq> insert l (set (lookup_labels m k'))"
  by (auto simp: push_label_def)

lemma register_fields [simp]:
  "g_nodes (register l x g) = g_nodes g" "g_deps (register l x g) = g_deps g"
  "labels (register l x g) = labels g" "deps_of (register l x g) l' = deps_of g l'" "node_of (register l x g) l' = node_of g l'"
  by (cases x; simp add: register_def labels_def deps_of_def node_of_def)+

lemma graph_ok_register:
  assumes "graph_ok g" "l \<in> labels g"
  shows "graph_ok (register l x g)"
proof -
  obtain space schema name where x: "x = (space, schema, name)" by (cases x)
  have "set (lookup_labels (g_index (register l x g) space') k) \<subseteq> insert l (set (lookup_labels (g_index g space') k))" for space' k
  proof (cases "space' = space")
    case True
    then show ?thesis
      using lookup_push [of l name "push_label l (schema @ 46 # name) (g_index g space)" k]
        lookup_push [of l "schema @ 46 # name" "g_index g space" k]
      by (auto simp: x register_def)
  qed (auto simp: x register_def)
  then show ?thesis using assms by (fastforce simp: graph_ok_def)
qed

lemma graph_ok_register_all: "graph_ok g \<Longrightarrow> l \<in> labels g \<Longrightarrow> graph_ok (register_all xs l g)"
  unfolding register_all_def by (induction xs arbitrary: g) (simp_all add: graph_ok_register)

lemma labels_register_all [simp]: "labels (register_all xs l g) = labels g"
  unfolding register_all_def by (induction xs arbitrary: g) auto

lemma graph_ok_adds:
  "graph_ok g \<Longrightarrow> graph_ok (add_enum x g)" "graph_ok g \<Longrightarrow> graph_ok (add_table t g)" "graph_ok g \<Longrightarrow> graph_ok (add_unit u g)"
  by (simp_all add: add_enum_def add_table_def add_unit_def Let_def graph_ok_register_all graph_ok_add_node)

lemma labels_adds [simp]:
  "labels (add_enum x g) = insert (label_of (EnumNode (fst x) (snd x))) (labels g)"
  "labels (add_table t g) = insert (label_of (TableNode (pt_schema t) (pt_name t))) (labels g)"
  "labels (add_unit u g) = insert (su_identity u) (labels g)"
  by (simp_all add: add_enum_def add_table_def add_unit_def Let_def label_of_def)

text \<open>Edges between nodes keep the graph.\<close>

lemma add_edge_fields [simp]:
  "g_nodes (add_edge a b g) = g_nodes g" "labels (add_edge a b g) = labels g" "g_index (add_edge a b g) = g_index g"
  "node_of (add_edge a b g) l = node_of g l"
  by (simp_all add: add_edge_def Let_def labels_def node_of_def)

lemma deps_add_edge:
  "deps_of (add_edge a b g) l = (if l = a \<and> a \<noteq> b \<and> b \<notin> set (deps_of g a) then deps_of g a @ [b] else deps_of g l)"
  by (simp add: add_edge_def Let_def deps_of_def)

lemma graph_ok_add_edge: "graph_ok g \<Longrightarrow> b \<in> labels g \<Longrightarrow> graph_ok (add_edge a b g)"
  by (auto simp: graph_ok_def deps_add_edge)

lemma resolve_labels: "graph_ok g \<Longrightarrow> set (resolve_reference g r) \<subseteq> labels g"
  unfolding graph_ok_def resolve_reference_def by (cases "rev (rf_names r)") (auto split: list.split)

text \<open>A graph with the same nodes and more dependencies: what every kind of edges gives.\<close>

definition grown :: "graph \<Rightarrow> graph \<Rightarrow> bool" where
  "grown g g' \<longleftrightarrow>
     graph_ok g' \<and> g_nodes g' = g_nodes g \<and> g_index g' = g_index g
     \<and> (\<forall>l. set (deps_of g l) \<subseteq> set (deps_of g' l))"

lemma grown_refl: "graph_ok g \<Longrightarrow> grown g g"
  by (simp add: grown_def)

lemma grown_trans: "grown g g' \<Longrightarrow> grown g' g'' \<Longrightarrow> grown g g''"
  unfolding grown_def by (metis order_trans)

lemma grown_deps: "l \<in> set (deps_of g a) \<Longrightarrow> grown g g' \<Longrightarrow> l \<in> set (deps_of g' a)"
  by (auto simp: grown_def)

lemma grown_resolve: "grown g g' \<Longrightarrow> resolve_reference g' r = resolve_reference g r"
  by (simp add: grown_def resolve_reference_def split: list.split)

lemma grown_labels: "grown g g' \<Longrightarrow> labels g' = labels g"
  by (simp add: grown_def labels_def)

lemma grown_ok: "grown g g' \<Longrightarrow> graph_ok g'"
  by (simp add: grown_def)

lemma grown_fold:
  assumes "graph_ok g" "\<And>x h. x \<in> set xs \<Longrightarrow> grown g h \<Longrightarrow> grown h (f x h)"
  shows "grown g (fold f xs g)"
proof -
  have "set ys \<subseteq> set xs \<Longrightarrow> grown g h \<Longrightarrow> grown g (fold f ys h)" for ys h
  proof (induction ys arbitrary: h)
    case (Cons y ys)
    then have "grown g (f y h)" using assms(2) grown_trans by auto
    then show ?case using Cons by simp
  qed simp
  then show ?thesis using grown_refl [OF assms(1)] by simp
qed

lemma grown_edge: "graph_ok g \<Longrightarrow> b \<in> labels g \<Longrightarrow> grown g (add_edge a b g)"
  by (simp add: grown_def graph_ok_add_edge) (auto simp: deps_add_edge)

text \<open>What one element of a fold gives stays.\<close>

lemma grown_reach:
  assumes ok: "graph_ok g" and step: "\<And>x h. x \<in> set xs \<Longrightarrow> grown g h \<Longrightarrow> grown h (f x h)" and x: "x \<in> set xs"
    and gives: "\<And>h. grown g h \<Longrightarrow> l \<in> set (deps_of (f x h) a)"
  shows "l \<in> set (deps_of (fold f xs g) a)"
proof -
  obtain ys zs where xs: "xs = ys @ x # zs" using split_list [OF x] by blast
  let ?h = "fold f ys g"
  have h: "grown g ?h" by (rule grown_fold [OF ok]) (simp add: step xs)
  then have hx: "grown g (f x ?h)" using step [of x ?h] xs grown_trans by auto
  have "grown (f x ?h) (fold f zs (f x ?h))"
    by (rule grown_fold [OF grown_ok [OF hx]]) (use step grown_trans [OF hx] in \<open>auto simp: xs\<close>)
  from grown_deps [OF gives [OF h] this] show ?thesis by (simp add: xs)
qed

lemma grown_fold_edges: "graph_ok g \<Longrightarrow> set bs \<subseteq> labels g \<Longrightarrow> grown g (fold (add_edge a) bs g)"
  by (rule grown_fold) (auto intro!: grown_edge simp: grown_ok grown_labels)

lemma grown_edges: "graph_ok g \<Longrightarrow> grown g (add_edges a refs g)"
  unfolding add_edges_def
  by (rule grown_fold) (auto intro!: grown_fold_edges resolve_labels simp: grown_ok)

lemma edges_reach:
  assumes "graph_ok g" "r \<in> set refs" "l \<in> set (resolve_reference g r)" "l \<noteq> a"
  shows "l \<in> set (deps_of (add_edges a refs g) a)"
  unfolding add_edges_def
proof (rule grown_reach [where f = "\<lambda>r g. fold (add_edge a) (resolve_reference g r) g", OF assms(1) _ assms(2)])
  fix h
  assume h: "grown g h"
  have labels: "set (resolve_reference h r) \<subseteq> labels h" by (rule resolve_labels [OF grown_ok [OF h]])
  show "l \<in> set (deps_of (fold (add_edge a) (resolve_reference h r) h) a)"
    by (rule grown_reach [where f = "add_edge a" and x = l, OF grown_ok [OF h]])
      (use labels grown_resolve [OF h] assms(3,4) in \<open>auto intro!: grown_edge simp: grown_ok grown_labels deps_add_edge\<close>)
qed (auto intro!: grown_fold_edges resolve_labels simp: grown_ok)

lemma grown_table: "graph_ok g \<Longrightarrow> grown g (table_edges refs_of t g)"
proof -
  assume ok: "graph_ok g"
  let ?a = "label_of (TableNode (pt_schema t) (pt_name t))"
  have "grown g (fold (\<lambda>c. add_edges ?a (refs_of (js ''SELECT NULL::'' @ pc_type c))) (pt_columns t) g)" (is "grown g ?h")
    using ok by (rule grown_fold) (auto intro: grown_edges grown_ok)
  moreover have "grown ?h (fold (\<lambda>x. add_edges ?a (refs_of (js ''SELECT ('' @ x @ js '')''))) (table_texts t) ?h)"
    using grown_ok [OF calculation] by (rule grown_fold) (auto intro: grown_edges grown_ok)
  ultimately show ?thesis unfolding table_edges_def Let_def by (rule grown_trans)
qed

lemma revokes_units: "set (revokes_on us k) \<subseteq> su_identity ` set us"
  by (auto simp: revokes_on_def split: option.splits bool.splits prod.splits)

lemma grown_unit:
  assumes ok: "graph_ok g" and us: "su_identity ` set us \<subseteq> labels g"
  shows "grown g (unit_edges us u g)
    \<and> (su_class u \<noteq> js ''extension'' \<longrightarrow> grown (add_edges (su_identity u) (su_refs u) g) (unit_edges us u g))"
proof (cases "su_class u = js ''extension''")
  case True
  then show ?thesis using ok by (simp add: unit_edges_def grown_refl)
next
  case False
  define g1 where "g1 = add_edges (su_identity u) (su_refs u) g"
  define g2 where "g2 = (case su_comment_class u of
      None \<Rightarrow> g1
    | Some c \<Rightarrow> (let target = c @ 58 # su_name u
        in if has_key (g_nodes g1) target then add_edge (su_identity u) target g1 else g1))"
  have g1: "grown g g1" unfolding g1_def by (rule grown_edges [OF ok])
  have "grown g1 g2"
    using grown_ok [OF g1] unfolding g2_def
    by (auto simp: Let_def has_key_labels intro: grown_refl grown_edge split: option.split)
  then have g12: "grown g1 g2" .
  with g1 have g2: "grown g g2" by (rule grown_trans)
  have "set (concat (map (revokes_on us) ks)) \<subseteq> labels g2" for ks
    using us revokes_units grown_labels [OF g2] by fastforce
  then have "grown g2 (fold (add_edge (su_identity u)) (concat (map (revokes_on us) ks)) g2)" for ks
    using grown_ok [OF g2] by (intro grown_fold_edges)
  then have "grown g (fold (add_edge (su_identity u)) (concat (map (revokes_on us) ks)) g2)
      \<and> grown g1 (fold (add_edge (su_identity u)) (concat (map (revokes_on us) ks)) g2)" for ks
    using g2 g12 grown_trans by blast
  moreover have "unit_edges us u g = (case su_grant u of
      Some (True, ks) \<Rightarrow> fold (add_edge (su_identity u)) (concat (map (revokes_on us) ks)) g2
    | _ \<Rightarrow> g2)"
    using False unfolding unit_edges_def g2_def g1_def by (simp add: Let_def)
  ultimately show ?thesis using g2 g12 unfolding g1_def [symmetric] by (simp split: option.split prod.split bool.split)
qed

lemma unit_reach:
  assumes ok: "graph_ok g" and us: "su_identity ` set us \<subseteq> labels g" and u: "u \<in> set us" "su_class u \<noteq> js ''extension''"
    and r: "r \<in> set (su_refs u)" "l \<in> set (resolve_reference g r)" "l \<noteq> su_identity u"
  shows "l \<in> set (deps_of (fold (unit_edges us) us g) (su_identity u))"
proof (rule grown_reach [where f = "unit_edges us", OF ok _ u(1)])
  fix h
  assume h: "grown g h"
  then have units: "su_identity ` set us \<subseteq> labels h" using us by (simp add: grown_labels)
  have "l \<in> set (deps_of (add_edges (su_identity u) (su_refs u) h) (su_identity u))"
    using edges_reach [OF grown_ok [OF h] r(1) _ r(3)] r(2) grown_resolve [OF h] by simp
  then show "l \<in> set (deps_of (unit_edges us u h) (su_identity u))"
    using grown_unit [OF grown_ok [OF h] units, of u] u(2) grown_deps by blast
qed (use us in \<open>auto simp: grown_labels grown_ok intro!: conjunct1 [OF grown_unit]\<close>)

lemma grown_required: "graph_ok g \<Longrightarrow> required_edges l ns g = Some g' \<Longrightarrow> grown g g'"
proof (induction l ns g rule: required_edges.induct)
  case (2 l n ns g)
  then have "grown g (add_edge l (label_of n) g)"
    by (intro grown_edge) (auto simp: has_key_labels split: if_splits)
  with 2 show ?case by (auto split: if_splits intro: grown_trans grown_ok)
qed (simp add: grown_refl)

lemma grown_all_required: "graph_ok g \<Longrightarrow> all_required us g = Some g' \<Longrightarrow> grown g g'"
proof (induction us arbitrary: g)
  case (Cons u us)
  then obtain h where h: "required_edges (su_identity u) (su_requires u) g = Some h" "all_required us h = Some g'"
    by (auto simp: bind_eq_Some_conv)
  note one = grown_required [OF Cons(2) h(1)]
  from grown_trans [OF one Cons(1) [OF grown_ok [OF one] h(2)]] show ?case .
qed (simp add: grown_refl)

lemma grown_default:
  assumes "graph_ok g" "su_identity u \<in> labels g"
  shows "grown g (default_privilege_edges u g)"
  unfolding default_privilege_edges_def
  using assms(1) by (rule grown_fold) (use assms(2) in \<open>auto intro: grown_refl grown_edge simp: grown_ok grown_labels split: prod.split\<close>)

text \<open>What the constructor gives: a graph, and a node for every unit.\<close>

lemma fold_adds:
  assumes "\<And>x g. graph_ok g \<Longrightarrow> graph_ok (f x g) \<and> labels (f x g) = insert (l x) (labels g)" "graph_ok g"
  shows "graph_ok (fold f xs g) \<and> labels (fold f xs g) = l ` set xs \<union> labels g"
  using assms(2) by (induction xs arbitrary: g) (auto simp: assms(1))

lemma build_graph_grown:
  assumes "build_graph refs_of enums tables us = Some g"
  shows "\<exists>h. graph_ok h \<and> su_identity ` set us \<subseteq> labels h \<and> grown (fold (unit_edges us) us h) g \<and> grown h g"
proof -
  define g1 where "g1 = fold add_unit us (fold add_table tables (fold add_enum enums empty_graph))"
  have "graph_ok (fold add_table tables (fold add_enum enums empty_graph))"
    using fold_adds [where f = add_table and l = "\<lambda>t. label_of (TableNode (pt_schema t) (pt_name t))"]
      fold_adds [where f = add_enum and l = "\<lambda>x. label_of (EnumNode (fst x) (snd x))"] graph_ok_empty
    by (auto simp: graph_ok_adds)
  from fold_adds [where f = add_unit and l = su_identity, OF _ this]
  have g1: "graph_ok g1" "su_identity ` set us \<subseteq> labels g1" by (auto simp: g1_def graph_ok_adds)
  define g2 where "g2 = fold (table_edges refs_of) tables g1"
  have g2: "grown g1 g2" unfolding g2_def by (rule grown_fold [OF g1(1)]) (auto intro: grown_table grown_ok)
  define g3 where "g3 = fold (unit_edges us) us g2"
  have "grown g2 g3" unfolding g3_def
    using g1(2) grown_labels [OF g2] by (intro grown_fold grown_ok [OF g2]) (auto intro!: conjunct1 [OF grown_unit] grown_ok simp: grown_labels)
  with g2 have g3: "grown g1 g3" by (rule grown_trans)
  obtain g4 where g4: "all_required us g3 = Some g4"
      "g = fold default_privilege_edges (filter (\<lambda>u. su_class u = js ''defaultPrivileges'') us) g4"
    using assms by (auto simp: build_graph_def g1_def [symmetric] g2_def [symmetric] g3_def [symmetric] Let_def)
  have "grown g1 g4" using g3 grown_all_required [OF grown_ok [OF g3] g4(1)] by (rule grown_trans)
  then have "grown g4 g" unfolding g4(2)
    using g1(2) by (intro grown_fold) (auto intro!: grown_default grown_ok simp: grown_labels)
  with grown_all_required [OF grown_ok [OF g3] g4(1)] have g: "grown g3 g" by (rule grown_trans)
  have "grown g2 g" using \<open>grown g2 g3\<close> g by (rule grown_trans)
  then show ?thesis using g g1(2) grown_ok [OF g2] grown_labels [OF g2] unfolding g3_def by blast
qed

lemma build_graph_ok: "build_graph refs_of enums tables us = Some g \<Longrightarrow> graph_ok g"
  using build_graph_grown grown_ok by blast

text \<open>What a unit refers to is among its dependencies.\<close>

lemma build_graph_reference:
  assumes g: "build_graph refs_of enums tables us = Some g" and u: "u \<in> set us" "su_class u \<noteq> js ''extension''"
    and r: "r \<in> set (su_refs u)" "l \<in> set (resolve_reference g r)" "l \<noteq> su_identity u"
  shows "l \<in> set (deps_of g (su_identity u))"
proof -
  obtain h where h: "graph_ok h" "su_identity ` set us \<subseteq> labels h" "grown (fold (unit_edges us) us h) g" "grown h g"
    using build_graph_grown [OF g] by blast
  have "l \<in> set (resolve_reference h r)" using r(2) grown_resolve [OF h(4)] by simp
  from grown_deps [OF unit_reach [OF h(1,2) u r(1) this r(3)] h(3)] show ?thesis .
qed

subsection \<open>Nodes of a graph\<close>

lemma node_entry: "graph_ok g \<Longrightarrow> node_of g l = Some n \<longleftrightarrow> (l, n) \<in> set (g_nodes g)"
  by (simp add: graph_ok_def node_of_def)

lemma entry_label: "graph_ok g \<Longrightarrow> (l, n) \<in> set (g_nodes g) \<Longrightarrow> gn_label n = l"
  unfolding node_entry [symmetric] by (simp add: graph_ok_def)

lemma node_of_label:
  assumes "graph_ok g" "l \<in> labels g"
  shows "\<exists>n. node_of g l = Some n \<and> gn_label n = l"
proof -
  obtain n where "(l, n) \<in> set (g_nodes g)" using assms(2) by (auto simp: labels_def)
  then show ?thesis using node_entry [OF assms(1)] entry_label [OF assms(1)] by blast
qed

lemma graph_nodes:
  assumes "graph_ok g"
  shows "n \<in> snd ` set (g_nodes g) \<longleftrightarrow> (gn_label n, n) \<in> set (g_nodes g)"
proof
  assume "n \<in> snd ` set (g_nodes g)"
  then obtain l where "(l, n) \<in> set (g_nodes g)" by auto
  with entry_label [OF assms this] show "(gn_label n, n) \<in> set (g_nodes g)" by simp
next
  assume "(gn_label n, n) \<in> set (g_nodes g)"
  then show "n \<in> snd ` set (g_nodes g)" by (rule image_eqI [rotated]) simp
qed

lemma map_labels: "graph_ok g \<Longrightarrow> map gn_label (map snd (g_nodes g)) = map fst (g_nodes g)"
  unfolding map_map comp_def by (rule map_cong [OF refl]) (metis entry_label prod.collapse)

lemma sorted_nodes_set [simp]: "set (sorted_nodes g) = snd ` set (g_nodes g)"
  by (simp add: sorted_nodes_def)

lemma distinct_labels: "graph_ok g \<Longrightarrow> distinct (map gn_label (sorted_nodes g))"
proof -
  assume ok: "graph_ok g"
  then have "distinct (map gn_label (map snd (g_nodes g)))" unfolding map_labels [OF ok] by (simp add: graph_ok_def)
  then have "distinct (map snd (g_nodes g)) \<and> inj_on gn_label (set (map snd (g_nodes g)))"
    by (rule distinct_map [THEN iffD1])
  then show ?thesis by (simp add: sorted_nodes_def distinct_map [of gn_label])
qed

lemma labels_sorted: "graph_ok g \<Longrightarrow> gn_label ` set (sorted_nodes g) = labels g"
  unfolding labels_def using arg_cong [OF map_labels, of g set] by (simp add: image_image)

lemma sorted_label_inj:
  "graph_ok g \<Longrightarrow> n \<in> set (sorted_nodes g) \<Longrightarrow> m \<in> set (sorted_nodes g) \<Longrightarrow> gn_label n = gn_label m \<Longrightarrow> n = m"
  using distinct_labels unfolding distinct_map inj_on_def by blast

lemma nodes_split:
  "set (sorted_nodes g) = set (extensions g) \<union> set (sortable_nodes g)" "set (extensions g) \<inter> set (sortable_nodes g) = {}"
  unfolding extensions_def sortable_nodes_def by auto

lemma sortable_not_extension:
  assumes "graph_ok g" "n \<in> set (sortable_nodes g)"
  shows "gn_label n \<notin> gn_label ` set (extensions g)"
proof
  assume "gn_label n \<in> gn_label ` set (extensions g)"
  then obtain m where "m \<in> set (extensions g)" "gn_label n = gn_label m" by blast
  then have "n = m" using sorted_label_inj [OF assms(1)] assms(2) nodes_split(1) by blast
  then show False using nodes_split(2) \<open>m \<in> _\<close> assms(2) by blast
qed

lemma sortable_label:
  assumes "graph_ok g" "l \<in> labels g" "l \<notin> gn_label ` set (extensions g)"
  shows "\<exists>n. node_of g l = Some n \<and> gn_label n = l \<and> n \<in> set (sortable_nodes g)"
proof -
  obtain n where n: "node_of g l = Some n" "gn_label n = l" using node_of_label [OF assms(1,2)] by blast
  then have "n \<in> set (sorted_nodes g)" using node_entry [OF assms(1)] by force
  then show ?thesis using n assms(3) nodes_split(1) by blast
qed

lemma length_nodes: "graph_ok g \<Longrightarrow> card (labels g) = length (g_nodes g)"
  unfolding labels_def graph_ok_def by (metis distinct_card length_map list.set_map)

end
