(* ===== verification/CreationSafe.thy ===== *)
theory CreationSafe
  imports CreationGraph
begin

section \<open>The order of creation is right\<close>

text \<open>
  The sort of \<open>CreationOrder\<close> always ends with every node emitted once; it reports a cycle exactly
  when the dependencies have one, and then a real one; without one every node comes after all it
  depends on.
\<close>

subsection \<open>Cycles\<close>

definition is_cycle :: "graph \<Rightarrow> graph_node list \<Rightarrow> bool" where
  "is_cycle g c \<longleftrightarrow>
     c \<noteq> [] \<and> set c \<subseteq> set (sortable_nodes g)
     \<and> (\<forall>i < length c. gn_label (c ! (Suc i mod length c)) \<in> set (deps_of g (gn_label (c ! i))))"

lemma is_cycle_rotate: "is_cycle g c \<Longrightarrow> is_cycle g (rotate k c)"
proof -
  assume c: "is_cycle g c"
  have "gn_label (rotate k c ! (Suc i mod length c)) \<in> set (deps_of g (gn_label (rotate k c ! i)))" if "i < length c" for i
  proof -
    have "0 < length c" using that by linarith
    then have "rotate k c ! (Suc i mod length c) = c ! (Suc ((k + i) mod length c) mod length c)"
      by (simp add: nth_rotate mod_simps)
    moreover have "rotate k c ! i = c ! ((k + i) mod length c)" using that by (simp add: nth_rotate)
    moreover have "(k + i) mod length c < length c" using \<open>0 < length c\<close> by simp
    ultimately show ?thesis using c unfolding is_cycle_def by metis
  qed
  then show ?thesis using c by (simp add: is_cycle_def)
qed

lemma is_cycle_rotate_cycle: "is_cycle g c \<Longrightarrow> is_cycle g (rotate_cycle c) \<and> set (rotate_cycle c) = set c"
proof -
  assume c: "is_cycle g c"
  show ?thesis
  proof (cases "sort_key node_order (filter is_unit c)")
    case Nil
    then show ?thesis using c by (simp add: rotate_cycle_def)
  next
    case (Cons u us)
    have "u \<in> set (sort_key node_order (filter is_unit c))" unfolding Cons by simp
    then have "u \<in> set c" by simp
    then have "dropWhile (\<lambda>n. n \<noteq> u) c @ takeWhile (\<lambda>n. n \<noteq> u) c = rotate (length (takeWhile (\<lambda>n. n \<noteq> u) c)) c"
      by (metis rotate_append takeWhile_dropWhile_id)
    then have "rotate_cycle c = rotate (length (takeWhile (\<lambda>n. n \<noteq> u) c)) c" using Cons by (simp add: rotate_cycle_def)
    then show ?thesis using is_cycle_rotate [OF c] by simp
  qed
qed

text \<open>The walk back from a node that waits, while every node that is left waits.\<close>

definition chain_to :: "graph \<Rightarrow> graph_node list \<Rightarrow> graph_node \<Rightarrow> bool" where
  "chain_to g path current \<longleftrightarrow>
     (\<forall>i < length path. gn_label ((path @ [current]) ! Suc i) \<in> set (deps_of g (gn_label (path ! i))))"

lemma chain_to_snoc:
  "chain_to g path current \<Longrightarrow> gn_label next \<in> set (deps_of g (gn_label current)) \<Longrightarrow> chain_to g (path @ [current]) next"
  unfolding chain_to_def
proof (intro allI impI)
  fix i
  assume chain: "\<forall>i < length path. gn_label ((path @ [current]) ! Suc i) \<in> set (deps_of g (gn_label (path ! i)))"
    and last: "gn_label next \<in> set (deps_of g (gn_label current))" and i: "i < length (path @ [current])"
  show "gn_label (((path @ [current]) @ [next]) ! Suc i) \<in> set (deps_of g (gn_label ((path @ [current]) ! i)))"
  proof (cases "i < length path")
    case True
    then have eqs: "((path @ [current]) @ [next]) ! Suc i = (path @ [current]) ! Suc i" "(path @ [current]) ! i = path ! i"
      by (simp_all only: nth_append length_append list.size, simp_all)
    show ?thesis using chain True unfolding eqs by blast
  next
    case False
    then have "i = length path" using i by simp
    then show ?thesis using last by (simp add: nth_append)
  qed
qed

lemma close_chain:
  assumes chain: "chain_to g path current" and met: "gn_label current \<in> gn_label ` set path"
    and nodes: "set path \<subseteq> set (sortable_nodes g)"
  shows "is_cycle g (dropWhile (\<lambda>n. gn_label n \<noteq> gn_label current) path)"
proof -
  let ?p = "\<lambda>n. gn_label n \<noteq> gn_label current"
  define k where "k = length (takeWhile ?p path)"
  have c: "dropWhile ?p path = drop k path" by (simp add: k_def dropWhile_eq_drop)
  have some: "dropWhile ?p path \<noteq> []" using met by (auto simp: dropWhile_eq_Nil_conv)
  then have k: "k < length path" unfolding c by simp
  have first: "gn_label (path ! k) = gn_label current"
    using hd_dropWhile [OF some] unfolding c hd_drop_conv_nth [OF k] by simp
  have "gn_label (drop k path ! (Suc i mod length (drop k path))) \<in> set (deps_of g (gn_label (drop k path ! i)))"
    if i: "i < length (drop k path)" for i
  proof (cases "Suc i < length (drop k path)")
    case True
    then have "(path @ [current]) ! Suc (k + i) = path ! Suc (k + i)" by (simp add: nth_append)
    with True chain [unfolded chain_to_def, rule_format, of "k + i"] show ?thesis by simp
  next
    case False
    then have last: "Suc i = length (drop k path)" "Suc (k + i) = length path" using i by simp_all
    then have "gn_label current \<in> set (deps_of g (gn_label (path ! (k + i))))"
      using chain [unfolded chain_to_def, rule_format, of "k + i"] by (simp add: nth_append)
    moreover have "drop k path ! (Suc i mod length (drop k path)) = path ! k" unfolding last(1) using k by simp
    moreover have "drop k path ! i = path ! (k + i)" using k by simp
    ultimately show ?thesis using first by simp
  qed
  then show ?thesis using some nodes unfolding c is_cycle_def by (auto dest: in_set_dropD)
qed

definition left_over :: "graph \<Rightarrow> jstr list \<Rightarrow> graph_node set" where
  "left_over g emitted = {n \<in> set (sortable_nodes g). gn_label n \<notin> set emitted}"

lemma first_dependency_some:
  assumes ok: "graph_ok g" and ext: "gn_label ` set (extensions g) \<subseteq> set emitted"
    and waits: "waits_for g emitted l \<noteq> []"
  shows "\<exists>m. first_dependency g emitted l = Some m \<and> m \<in> left_over g emitted \<and> gn_label m \<in> set (deps_of g l)"
proof -
  let ?ws = "waits_for g emitted l"
  have node: "\<exists>m. node_of g d = Some m \<and> gn_label m = d \<and> m \<in> left_over g emitted" if "d \<in> set ?ws" for d
  proof -
    have d: "d \<in> set (deps_of g l)" "d \<notin> set emitted" using that by (simp_all add: waits_for_def)
    then have "d \<in> labels g" "d \<notin> gn_label ` set (extensions g)" using ok ext unfolding graph_ok_def by blast+
    from sortable_label [OF ok this] d(2) show ?thesis by (auto simp: left_over_def)
  qed
  let ?ms = "map the (map (node_of g) ?ws)"
  have "None \<notin> set (map (node_of g) ?ws)" using node by fastforce
  then have found: "first_dependency g emitted l = Some (hd (sort_key node_order ?ms))"
    using waits by (cases ?ws) (simp_all add: first_dependency_def)
  have "sort_key node_order ?ms \<noteq> []" using waits by (metis length_0_conv length_map length_sort)
  then have "hd (sort_key node_order ?ms) \<in> set ?ms" using hd_in_set set_sort by metis
  then obtain d where "d \<in> set ?ws" "hd (sort_key node_order ?ms) = the (node_of g d)" by auto
  then show ?thesis using node [of d] found unfolding waits_for_def by auto
qed

lemma walk_back_cycle:
  assumes ok: "graph_ok g" and ext: "gn_label ` set (extensions g) \<subseteq> set emitted"
    and stuck: "\<And>n. n \<in> left_over g emitted \<Longrightarrow> waits_for g emitted (gn_label n) \<noteq> []"
  shows "set path \<subseteq> left_over g emitted \<Longrightarrow> current \<in> left_over g emitted \<Longrightarrow> chain_to g path current \<Longrightarrow>
    \<exists>c. walk_back g emitted path current = Some c \<and> is_cycle g c \<and> set c \<subseteq> left_over g emitted"
proof (induction "card (labels g - gn_label ` set path)" arbitrary: path current rule: less_induct)
  case less
  show ?case
  proof (cases "gn_label current \<in> gn_label ` set path")
    case True
    have "set path \<subseteq> set (sortable_nodes g)" using less(2) by (auto simp: left_over_def)
    from close_chain [OF less(4) True this] True less(2) show ?thesis by (auto dest: set_dropWhileD)
  next
    case False
    obtain m where m: "first_dependency g emitted (gn_label current) = Some m" "m \<in> left_over g emitted"
        "gn_label m \<in> set (deps_of g (gn_label current))"
      using first_dependency_some [OF ok ext stuck [OF less(3)]] by blast
    have node: "gn_label current \<in> labels g"
      using less(3) nodes_split(1) labels_sorted [OF ok] by (auto simp: left_over_def)
    have "labels g - gn_label ` set (path @ [current]) \<subset> labels g - gn_label ` set path" using False node by auto
    moreover have "finite (labels g)" by (simp add: labels_def)
    ultimately have "card (labels g - gn_label ` set (path @ [current])) < card (labels g - gn_label ` set path)"
      by (simp add: psubset_card_mono)
    from less(1) [OF this _ m(2) chain_to_snoc [OF less(4) m(3)]] less(2,3)
    show ?thesis using False node m(1) by (subst walk_back.simps) (simp add: has_key_labels)
  qed
qed

lemma find_cycle_some:
  assumes "graph_ok g" "gn_label ` set (extensions g) \<subseteq> set emitted"
    and "\<And>n. n \<in> left_over g emitted \<Longrightarrow> waits_for g emitted (gn_label n) \<noteq> []" "start \<in> left_over g emitted"
  shows "\<exists>c. find_cycle g emitted start = Some c \<and> is_cycle g c \<and> set c \<subseteq> left_over g emitted"
proof -
  have "chain_to g [] start" by (simp add: chain_to_def)
  with walk_back_cycle [OF assms(1-3), of "[]" start] assms(4) is_cycle_rotate_cycle
  show ?thesis unfolding find_cycle_def by fastforce
qed

subsection \<open>The nodes that are ready\<close>

declare search_position.simps [simp del]

lemma search_position_ok:
  assumes "sorted (map node_order ns)" "low \<le> high" "high \<le> length ns"
    and "\<And>i. i < low \<Longrightarrow> node_order (ns ! i) < node_order n" "\<And>i. high \<le> i \<Longrightarrow> i < length ns \<Longrightarrow> node_order n \<le> node_order (ns ! i)"
  shows "(\<forall>i < search_position ns n low high. node_order (ns ! i) < node_order n)
    \<and> (\<forall>i. search_position ns n low high \<le> i \<longrightarrow> i < length ns \<longrightarrow> node_order n \<le> node_order (ns ! i))
    \<and> search_position ns n low high \<le> length ns"
  using assms
proof (induction ns n low high rule: search_position.induct)
  case (1 ns n low high)
  show ?case
  proof (cases "low < high")
    case False
    then show ?thesis using "1.prems" by (subst (1 2 3) search_position.simps) (auto simp: not_less)
  next
    case True
    define middle where "middle = (low + high) div 2"
    have bounds: "low \<le> middle" "middle < high" using True by (simp_all add: middle_def)
    have mono: "node_order (ns ! i) \<le> node_order (ns ! j)" if "i \<le> j" "j < length ns" for i j
      using sorted_nth_mono [OF "1.prems"(1), of i j] that by simp
    show ?thesis
    proof (cases "node_order (ns ! middle) < node_order n")
      case up: True
      have less: "node_order (ns ! i) < node_order n" if "i < middle + 1" for i
      proof -
        have "i \<le> middle" "middle < length ns" using that bounds "1.prems"(3) by linarith+
        from mono [OF this] up show ?thesis by (rule le_less_trans)
      qed
      have go: "search_position ns n low high = search_position ns n (middle + 1) high"
        using True up by (subst search_position.simps) (simp add: middle_def [symmetric] Let_def)
      show ?thesis
        unfolding go using "1.IH"(1) [OF True middle_def up "1.prems"(1) _ "1.prems"(3) less "1.prems"(5)] bounds by simp
    next
      case down: False
      have above: "node_order n \<le> node_order (ns ! i)" if "middle \<le> i" "i < length ns" for i
      proof -
        have "node_order n \<le> node_order (ns ! middle)" using down by (simp add: not_less)
        also have "\<dots> \<le> node_order (ns ! i)" by (rule mono [OF that])
        finally show ?thesis .
      qed
      have go: "search_position ns n low high = search_position ns n low middle"
        using True down by (subst search_position.simps) (simp add: middle_def [symmetric] Let_def)
      show ?thesis
        unfolding go using "1.IH"(2) [OF True middle_def down "1.prems"(1) _ _ "1.prems"(4) above] bounds "1.prems"(3) by simp
    qed
  qed
qed

lemma insert_sorted_set [simp]: "set (insert_sorted n ns) = insert n (set ns)"
  unfolding insert_sorted_def Let_def using append_take_drop_id by (metis Un_insert_right list.simps(15) set_append)

lemma insert_sorted_distinct: "distinct ns \<Longrightarrow> n \<notin> set ns \<Longrightarrow> distinct (insert_sorted n ns)"
  unfolding insert_sorted_def Let_def by (auto simp: set_take_disj_set_drop_if_distinct dest: in_set_takeD in_set_dropD)

lemma insert_sorted_sorted:
  assumes "sorted (map node_order ns)"
  shows "sorted (map node_order (insert_sorted n ns))"
proof -
  define i where "i = search_position ns n 0 (length ns)"
  have i: "\<And>j. j < i \<Longrightarrow> node_order (ns ! j) < node_order n" "\<And>j. i \<le> j \<Longrightarrow> j < length ns \<Longrightarrow> node_order n \<le> node_order (ns ! j)" "i \<le> length ns"
    using search_position_ok [OF assms, of 0 "length ns" n] unfolding i_def by auto
  have "x \<in> set (take i ns) \<Longrightarrow> node_order x \<le> node_order n" for x
    using i(1,3) by (fastforce simp: in_set_conv_nth)
  moreover have "x \<in> set (drop i ns) \<Longrightarrow> node_order n \<le> node_order x" for x
    using i(2,3) by (fastforce simp: in_set_conv_nth)
  moreover have "sorted (map node_order (take i ns) @ map node_order (drop i ns))"
    using assms by (metis append_take_drop_id map_append)
  ultimately show ?thesis
    unfolding insert_sorted_def Let_def i_def [symmetric] by (fastforce simp: sorted_append)
qed

text \<open>The ready nodes and the counts, while the users \<open>us\<close> of the last node are still to be told.\<close>

definition ready_ok :: "graph \<Rightarrow> jstr list \<Rightarrow> order_state \<Rightarrow> bool" where
  "ready_ok g us s \<longleftrightarrow>
     (\<forall>n \<in> set (sortable_nodes g).
        os_pending s (gn_label n) = int (length (waits_for g (os_emitted s) (gn_label n))) + of_bool (gn_label n \<in> set us))
     \<and> set (os_ready s) = {n \<in> left_over g (os_emitted s). waits_for g (os_emitted s) (gn_label n) = [] \<and> gn_label n \<notin> set us}
     \<and> distinct (os_ready s) \<and> sorted (map node_order (os_ready s))"

lemma release_users_some:
  assumes ok: "graph_ok g"
  shows "distinct us \<Longrightarrow> set us \<subseteq> gn_label ` set (sortable_nodes g) \<Longrightarrow> ready_ok g us s \<Longrightarrow>
    \<exists>s'. release_users g us s = Some s' \<and> ready_ok g [] s' \<and> os_emitted s' = os_emitted s \<and> os_order s' = os_order s \<and> os_cycles s' = os_cycles s"
proof (induction us arbitrary: s)
  case (Cons u us)
  then obtain n where n: "n \<in> set (sortable_nodes g)" "u = gn_label n" by auto
  have node: "node_of g u = Some n"
    using n graph_nodes [OF ok, of n] node_entry [OF ok] nodes_split(1) [of g] by auto
  have others: "m = n" if "m \<in> set (sortable_nodes g)" "gn_label m = u" for m
    using sorted_label_inj [OF ok] that n nodes_split(1) by blast
  let ?left = "os_pending s u - 1"
  let ?s = "s\<lparr>os_pending := (os_pending s)(u := ?left)\<rparr>"
  have left: "?left = int (length (waits_for g (os_emitted s) u))"
    using Cons.prems(3) n by (auto simp: ready_ok_def)
  have pending: "\<forall>m \<in> set (sortable_nodes g). ((os_pending s)(u := ?left)) (gn_label m)
      = int (length (waits_for g (os_emitted s) (gn_label m))) + of_bool (gn_label m \<in> set us)"
    using Cons.prems(1,3) left by (auto simp: ready_ok_def)
  show ?case
  proof (cases "?left = 0 \<and> u \<notin> set (os_emitted s)")
    case True
    let ?t = "?s\<lparr>os_ready := insert_sorted n (os_ready s)\<rparr>"
    have "n \<in> left_over g (os_emitted s)" "waits_for g (os_emitted s) u = []"
      using True left n by (auto simp: left_over_def)
    moreover have "n \<notin> set (os_ready s)" using Cons.prems(3) n by (simp add: ready_ok_def)
    moreover have "insert n (set (os_ready s))
        = {m \<in> left_over g (os_emitted s). waits_for g (os_emitted s) (gn_label m) = [] \<and> gn_label m \<notin> set us}"
    proof (intro set_eqI iffI)
      fix m
      assume "m \<in> insert n (set (os_ready s))"
      then show "m \<in> {m \<in> left_over g (os_emitted s). waits_for g (os_emitted s) (gn_label m) = [] \<and> gn_label m \<notin> set us}"
        using calculation(1,2) Cons.prems(1,3) n unfolding ready_ok_def by auto
    next
      fix m
      assume m: "m \<in> {m \<in> left_over g (os_emitted s). waits_for g (os_emitted s) (gn_label m) = [] \<and> gn_label m \<notin> set us}"
      show "m \<in> insert n (set (os_ready s))"
      proof (cases "gn_label m = u")
        case True
        then show ?thesis using others m by (simp add: left_over_def)
      next
        case False
        then show ?thesis using m Cons.prems(3) unfolding ready_ok_def by simp
      qed
    qed
    ultimately have "ready_ok g us ?t"
      using Cons.prems(3) pending unfolding ready_ok_def
      by (simp add: insert_sorted_distinct insert_sorted_sorted)
    from Cons.IH [OF _ _ this] Cons.prems(1,2) True node show ?thesis by simp
  next
    case False
    have "n \<notin> left_over g (os_emitted s) \<or> waits_for g (os_emitted s) u \<noteq> []"
      using False left n by (auto simp: left_over_def)
    then have "gn_label m \<noteq> u" if "m \<in> left_over g (os_emitted s)" "waits_for g (os_emitted s) (gn_label m) = []" for m
      using others [of m] that n by (auto simp: left_over_def)
    then have "{m \<in> left_over g (os_emitted s). waits_for g (os_emitted s) (gn_label m) = [] \<and> gn_label m \<notin> set (u # us)}
        = {m \<in> left_over g (os_emitted s). waits_for g (os_emitted s) (gn_label m) = [] \<and> gn_label m \<notin> set us}"
      by auto
    then have "ready_ok g us ?s"
      using Cons.prems(3) pending unfolding ready_ok_def by simp
    from Cons.IH [OF _ _ this] Cons.prems(1,2) False show ?thesis by (simp add: Let_def) blast
  qed
qed simp

lemma users_of_ok:
  assumes ok: "graph_ok g" and l: "l \<notin> gn_label ` set (extensions g)"
  shows "distinct (users_of g l)" "set (users_of g l) \<subseteq> gn_label ` set (sortable_nodes g)"
    "\<And>n. n \<in> set (sortable_nodes g) \<Longrightarrow> gn_label n \<in> set (users_of g l) \<longleftrightarrow> l \<in> set (deps_of g (gn_label n))"
proof -
  have users: "users_of g l = map gn_label (filter (\<lambda>n. l \<in> set (deps_of g (gn_label n))) (sortable_nodes g))"
    using l by (simp add: users_of_def)
  show "distinct (users_of g l)"
    using distinct_labels [OF ok] unfolding users sortable_nodes_def by (intro distinct_map_filter)
  show "set (users_of g l) \<subseteq> gn_label ` set (sortable_nodes g)" unfolding users by auto
  fix n
  show "n \<in> set (sortable_nodes g) \<Longrightarrow> gn_label n \<in> set (users_of g l) \<longleftrightarrow> l \<in> set (deps_of g (gn_label n))"
    unfolding users by auto
qed

lemma length_without: "distinct xs \<Longrightarrow> length xs = length (filter (\<lambda>d. d \<noteq> l) xs) + of_bool (l \<in> set xs)"
proof (induction xs)
  case (Cons x xs)
  then show ?case using filter_id_conv [of "\<lambda>d. d \<noteq> l" xs] by (cases "x = l") auto
qed simp

lemma waits_for_emit:
  assumes "distinct (deps_of g k)" "l \<notin> set emitted"
  shows "length (waits_for g emitted k) = length (waits_for g (l # emitted) k) + of_bool (l \<in> set (deps_of g k))"
    "waits_for g emitted k = [] \<longleftrightarrow> waits_for g (l # emitted) k = [] \<and> l \<notin> set (deps_of g k)"
proof -
  have eq: "waits_for g (l # emitted) k = filter (\<lambda>d. d \<noteq> l) (waits_for g emitted k)"
    by (auto simp: waits_for_def intro: filter_cong)
  have "l \<in> set (waits_for g emitted k) \<longleftrightarrow> l \<in> set (deps_of g k)" using assms(2) by (simp add: waits_for_def)
  moreover have "distinct (waits_for g emitted k)" using assms(1) by (simp add: waits_for_def)
  ultimately show "length (waits_for g emitted k) = length (waits_for g (l # emitted) k) + of_bool (l \<in> set (deps_of g k))"
    unfolding eq using length_without [of "waits_for g emitted k" l] by simp
  show "waits_for g emitted k = [] \<longleftrightarrow> waits_for g (l # emitted) k = [] \<and> l \<notin> set (deps_of g k)"
    using assms(2) by (auto simp: waits_for_def filter_empty_conv)
qed

lemma emit_node_some:
  assumes ok: "graph_ok g" and n: "n \<in> left_over g (os_emitted s)" and ext: "gn_label ` set (extensions g) \<subseteq> set (os_emitted s)"
    and before: "ready_ok g [] s" and ready: "set ready = set (os_ready s) - {n}" "distinct ready" "sorted (map node_order ready)"
  shows "\<exists>s'. emit_node g n (s\<lparr>os_ready := ready, os_cycles := cs\<rparr>) = Some s' \<and> ready_ok g [] s' \<and> os_emitted s' = gn_label n # os_emitted s
    \<and> os_order s' = os_order s @ [n] \<and> os_cycles s' = cs"
proof -
  let ?l = "gn_label n" and ?e = "os_emitted s"
  let ?s = "s\<lparr>os_ready := ready, os_cycles := cs, os_emitted := ?l # ?e, os_order := os_order s @ [n]\<rparr>"
  have new: "?l \<notin> set ?e" "n \<in> set (sortable_nodes g)" using n by (simp_all add: left_over_def)
  then have l: "?l \<notin> gn_label ` set (extensions g)" using ext by blast
  note users = users_of_ok [OF ok l]
  have deps: "distinct (deps_of g k)" for k using ok by (simp add: graph_ok_def)
  note waits = waits_for_emit [OF deps new(1)]
  have "os_pending s (gn_label m) = int (length (waits_for g (?l # ?e) (gn_label m))) + of_bool (gn_label m \<in> set (users_of g ?l))"
    if "m \<in> set (sortable_nodes g)" for m
    using that before users(3) [OF that] waits(1) [of "gn_label m"] by (simp add: ready_ok_def)
  moreover have "set ready = {m \<in> left_over g (?l # ?e). waits_for g (?l # ?e) (gn_label m) = [] \<and> gn_label m \<notin> set (users_of g ?l)}"
  proof -
    have "gn_label m = ?l \<longleftrightarrow> m = n" if "m \<in> set (sortable_nodes g)" for m
      using sorted_label_inj [OF ok, of m n] that new(2) nodes_split(1) [of g] by auto
    then have "set (os_ready s) - {n} = {m \<in> left_over g (?l # ?e). waits_for g ?e (gn_label m) = []}"
      using before by (auto simp: ready_ok_def left_over_def)
    then show ?thesis using users(3) waits(2) unfolding ready(1) by (auto simp: left_over_def)
  qed
  ultimately have "ready_ok g (users_of g ?l) ?s" using ready(2,3) unfolding ready_ok_def by simp
  from release_users_some [OF ok users(1,2) this] show ?thesis unfolding emit_node_def by simp
qed

subsection \<open>The rounds of the sort\<close>

text \<open>
  \<open>settled\<close>: every node that is not an extension comes after all it depends on, and is the first in
  the tie-break of the nodes that could come at its place.
\<close>

definition settled :: "graph \<Rightarrow> graph_node list \<Rightarrow> bool" where
  "settled g order \<longleftrightarrow>
     (\<forall>i < length order. order ! i \<in> set (sortable_nodes g) \<longrightarrow>
        set (deps_of g (gn_label (order ! i))) \<subseteq> gn_label ` set (take i order)
        \<and> (\<forall>m \<in> set (sortable_nodes g) - set (take i order).
             set (deps_of g (gn_label m)) \<subseteq> gn_label ` set (take i order) \<longrightarrow> node_order (order ! i) \<le> node_order m))"

lemma settled_snoc:
  assumes "settled g order" "set (deps_of g (gn_label n)) \<subseteq> gn_label ` set order"
    and "\<And>m. m \<in> set (sortable_nodes g) - set order \<Longrightarrow> set (deps_of g (gn_label m)) \<subseteq> gn_label ` set order \<Longrightarrow> node_order n \<le> node_order m"
  shows "settled g (order @ [n])"
  unfolding settled_def
proof (intro allI impI)
  fix i
  assume i: "i < length (order @ [n])" and sortable: "(order @ [n]) ! i \<in> set (sortable_nodes g)"
  show "set (deps_of g (gn_label ((order @ [n]) ! i))) \<subseteq> gn_label ` set (take i (order @ [n]))
      \<and> (\<forall>m \<in> set (sortable_nodes g) - set (take i (order @ [n])).
           set (deps_of g (gn_label m)) \<subseteq> gn_label ` set (take i (order @ [n])) \<longrightarrow> node_order ((order @ [n]) ! i) \<le> node_order m)"
  proof (cases "i < length order")
    case True
    then have eqs: "(order @ [n]) ! i = order ! i" "take i (order @ [n]) = take i order" by (simp_all add: nth_append)
    show ?thesis using assms(1) True sortable unfolding settled_def eqs by blast
  next
    case False
    then have "i = length order" using i by simp
    then have eqs: "(order @ [n]) ! i = n" "take i (order @ [n]) = order" by simp_all
    show ?thesis using assms(2,3) unfolding eqs by blast
  qed
qed

definition order_ok :: "graph \<Rightarrow> order_state \<Rightarrow> bool" where
  "order_ok g s \<longleftrightarrow>
     set (os_emitted s) = gn_label ` set (os_order s) \<and> distinct (map gn_label (os_order s))
     \<and> set (os_order s) \<subseteq> set (sorted_nodes g) \<and> (\<exists>rest. os_order s = extensions g @ rest)
     \<and> (\<forall>c \<in> set (os_cycles s). is_cycle g c) \<and> (os_cycles s = [] \<longrightarrow> settled g (os_order s))"

lemma initial_ok:
  assumes ok: "graph_ok g"
  shows "order_ok g (initial_state g)" "ready_ok g [] (initial_state g)"
proof -
  have "distinct (map gn_label (extensions g))"
    using distinct_labels [OF ok] unfolding extensions_def by (rule distinct_map_filter)
  moreover have "settled g (extensions g)"
    unfolding settled_def using nodes_split(2) [of g] nth_mem by blast
  ultimately show "order_ok g (initial_state g)"
    using nodes_split(1) [of g] by (auto simp: order_ok_def initial_state_def Let_def)
  have "distinct (sortable_nodes g)"
    using distinct_labels [OF ok] unfolding sortable_nodes_def by (simp add: distinct_map)
  moreover have "sorted (map node_order (sortable_nodes g))"
    unfolding sortable_nodes_def sorted_nodes_def by (rule sorted_filter) simp
  ultimately show "ready_ok g [] (initial_state g)"
    using sortable_not_extension [OF ok]
    by (auto simp: ready_ok_def initial_state_def Let_def left_over_def intro!: sorted_filter)
qed

lemma extensions_emitted: "order_ok g s \<Longrightarrow> gn_label ` set (extensions g) \<subseteq> set (os_emitted s)"
  by (auto simp: order_ok_def)

lemma left_over_some:
  assumes ok: "graph_ok g" and s: "order_ok g s" and few: "card (set (os_emitted s)) < length (g_nodes g)"
  shows "\<exists>n. find (\<lambda>n. gn_label n \<notin> set (os_emitted s)) (sortable_nodes g) = Some n \<and> n \<in> left_over g (os_emitted s)"
proof -
  have "\<not> labels g \<subseteq> set (os_emitted s)"
    using few length_nodes [OF ok] card_mono [of "set (os_emitted s)" "labels g"] by auto
  then obtain l where "l \<in> labels g" "l \<notin> set (os_emitted s)" by blast
  with sortable_label [OF ok this(1)] extensions_emitted [OF s]
  have "\<exists>n \<in> set (sortable_nodes g). gn_label n \<notin> set (os_emitted s)" by blast
  then have "find (\<lambda>n. gn_label n \<notin> set (os_emitted s)) (sortable_nodes g) \<noteq> None"
    unfolding find_None_iff by blast
  then show ?thesis by (auto simp: find_Some_iff left_over_def)
qed

lemma order_ok_emit:
  assumes s: "order_ok g s" and n: "n \<in> left_over g (os_emitted s)"
    and s': "os_emitted s' = gn_label n # os_emitted s" "os_order s' = os_order s @ [n]" "\<forall>c \<in> set (os_cycles s'). is_cycle g c"
    and settled: "os_cycles s' = [] \<Longrightarrow> settled g (os_order s @ [n])"
  shows "order_ok g s'"
proof -
  have "n \<in> set (sorted_nodes g)" "gn_label n \<notin> gn_label ` set (os_order s)"
    using n s nodes_split(1) [of g] by (auto simp: left_over_def order_ok_def)
  then show ?thesis using s s' settled unfolding order_ok_def by auto
qed

text \<open>Every round emits one more node.\<close>

lemma order_step_some:
  assumes ok: "graph_ok g" and s: "order_ok g s" "ready_ok g [] s" and few: "card (set (os_emitted s)) < length (g_nodes g)"
  shows "\<exists>s'. order_step g s = Some s' \<and> order_ok g s' \<and> ready_ok g [] s'
    \<and> card (set (os_emitted s')) = Suc (card (set (os_emitted s)))"
proof (cases "os_ready s")
  case (Cons n rest)
  have mem: "m \<in> set (n # rest) \<longleftrightarrow> m \<in> left_over g (os_emitted s) \<and> waits_for g (os_emitted s) (gn_label m) = []" for m
    using s(2) unfolding ready_ok_def Cons by auto
  have n: "n \<in> left_over g (os_emitted s)" "waits_for g (os_emitted s) (gn_label n) = []" using mem [of n] by simp_all
  have rest: "set rest = set (os_ready s) - {n}" "distinct rest" "sorted (map node_order rest)"
      "\<And>m. m \<in> set rest \<Longrightarrow> node_order n \<le> node_order m"
    using s(2) unfolding ready_ok_def Cons by auto
  obtain s' where s': "emit_node g n (s\<lparr>os_ready := rest, os_cycles := os_cycles s\<rparr>) = Some s'" "ready_ok g [] s'"
      "os_emitted s' = gn_label n # os_emitted s" "os_order s' = os_order s @ [n]" "os_cycles s' = os_cycles s"
    using emit_node_some [OF ok n(1) extensions_emitted [OF s(1)] s(2) rest(1-3)] by blast
  have labels: "set (os_emitted s) = gn_label ` set (os_order s)" using s(1) by (simp add: order_ok_def)
  have "settled g (os_order s @ [n])" if "os_cycles s' = []"
  proof (rule settled_snoc)
    show "settled g (os_order s)" using s(1) that s'(5) by (simp add: order_ok_def)
    show "set (deps_of g (gn_label n)) \<subseteq> gn_label ` set (os_order s)"
      using n(2) unfolding labels [symmetric] by (auto simp: waits_for_def filter_empty_conv)
    fix m
    assume m: "m \<in> set (sortable_nodes g) - set (os_order s)" "set (deps_of g (gn_label m)) \<subseteq> gn_label ` set (os_order s)"
    have "gn_label m \<notin> set (os_emitted s)"
    proof
      assume "gn_label m \<in> set (os_emitted s)"
      then obtain m' where m': "m' \<in> set (os_order s)" "gn_label m = gn_label m'" unfolding labels by blast
      then have "m = m'" using sorted_label_inj [OF ok] m(1) s(1) nodes_split(1) [of g] unfolding order_ok_def by blast
      then show False using m' m(1) by blast
    qed
    then have "m \<in> set (n # rest)"
      using m unfolding mem labels [symmetric] by (auto simp: left_over_def waits_for_def filter_empty_conv)
    then show "node_order n \<le> node_order m" using rest(4) by auto
  qed
  then have "order_ok g s'"
    using order_ok_emit [OF s(1) n(1) s'(3,4)] s(1) s'(5) by (simp add: order_ok_def)
  moreover have "order_step g s = Some s'"
    using n(1) s'(1) by (simp add: order_step_def Cons left_over_def Let_def)
  ultimately show ?thesis using s'(2,3) n(1) by (simp add: left_over_def)
next
  case Nil
  have stuck: "waits_for g (os_emitted s) (gn_label n) \<noteq> []" if "n \<in> left_over g (os_emitted s)" for n
    using that s(2) unfolding ready_ok_def Nil by auto
  note ext = extensions_emitted [OF s(1)]
  obtain start where start: "find (\<lambda>n. gn_label n \<notin> set (os_emitted s)) (sortable_nodes g) = Some start"
      "start \<in> left_over g (os_emitted s)" using left_over_some [OF ok s(1) few] by blast
  obtain c where c: "find_cycle g (os_emitted s) start = Some c" "is_cycle g c" "set c \<subseteq> left_over g (os_emitted s)"
    using find_cycle_some [OF ok ext stuck start(2)] by blast
  then obtain n ns where n: "c = n # ns" by (cases c) (auto simp: is_cycle_def)
  then have left: "n \<in> left_over g (os_emitted s)" using c(3) by simp
  obtain s' where s': "emit_node g n (s\<lparr>os_ready := [], os_cycles := os_cycles s @ [c]\<rparr>) = Some s'" "ready_ok g [] s'"
      "os_emitted s' = gn_label n # os_emitted s" "os_order s' = os_order s @ [n]" "os_cycles s' = os_cycles s @ [c]"
    using emit_node_some [OF ok left ext s(2), of "[]" "os_cycles s @ [c]"] unfolding Nil by auto
  have same: "s\<lparr>os_ready := [], os_cycles := os_cycles s @ [c]\<rparr> = s\<lparr>os_cycles := os_cycles s @ [c]\<rparr>"
    using Nil by (cases s) simp
  have "order_step g s = Some s'"
    using s'(1) start(1) c(1) unfolding same by (simp add: order_step_def Nil n)
  moreover have "order_ok g s'"
    using order_ok_emit [OF s(1) left s'(3,4)] s(1) s'(5) c(2) by (auto simp: order_ok_def)
  ultimately show ?thesis using s'(2,3) left by (simp add: left_over_def)
qed

lemma sort_graph_ok:
  assumes ok: "graph_ok g"
  shows "\<exists>s. sort_graph g = Some (os_order s, os_cycles s) \<and> order_ok g s \<and> set (os_order s) = set (sorted_nodes g)"
proof -
  define good where "good = (\<lambda>x. \<exists>s. x = Some s \<and> order_ok g s \<and> ready_ok g [] s)"
  define left where "left = (\<lambda>x :: order_state option. case x of None \<Rightarrow> 0 | Some s \<Rightarrow> length (g_nodes g) - card (set (os_emitted s)))"
  have first: "good (Some (initial_state g))" using initial_ok [OF ok] by (simp add: good_def)
  have step: "good (Option.bind x (order_step g)) \<and> left (Option.bind x (order_step g)) < left x"
    if x_good: "good x" and few_left: "case x of None \<Rightarrow> False | Some s \<Rightarrow> card (set (os_emitted s)) < length (g_nodes g)" for x
  proof -
    obtain s where x: "x = Some s" "order_ok g s" "ready_ok g [] s" using x_good by (auto simp: good_def)
    with few_left have few: "card (set (os_emitted s)) < length (g_nodes g)" by simp
    from order_step_some [OF ok x(2,3) few] few show ?thesis unfolding x(1) by (auto simp: good_def left_def)
  qed
  obtain t where t: "order_loop g (Some (initial_state g)) = Some t"
    unfolding order_loop_def using measure_while_option_Some [of good, OF step first] by blast
  have "good t" using while_option_rule [of good, OF _ t [unfolded order_loop_def] first] step by blast
  then obtain s where s: "t = Some s" "order_ok g s" by (auto simp: good_def)
  have "\<not> card (set (os_emitted s)) < length (g_nodes g)"
    using while_option_stop [OF t [unfolded order_loop_def]] s(1) by simp
  moreover have emitted: "set (os_emitted s) \<subseteq> labels g"
    using s(2) unfolding labels_sorted [OF ok, symmetric] order_ok_def by blast
  ultimately have all: "set (os_emitted s) = labels g"
    using card_seteq [of "labels g" "set (os_emitted s)"] length_nodes [OF ok] by (simp add: labels_def)
  have "set (sorted_nodes g) \<subseteq> set (os_order s)"
  proof
    fix n
    assume n: "n \<in> set (sorted_nodes g)"
    then have "gn_label n \<in> gn_label ` set (os_order s)"
      using all s(2) unfolding labels_sorted [OF ok, symmetric] order_ok_def by blast
    then show "n \<in> set (os_order s)" using sorted_label_inj [OF ok n] s(2) unfolding order_ok_def by blast
  qed
  then have "set (os_order s) = set (sorted_nodes g)" using s(2) by (auto simp: order_ok_def)
  then show ?thesis using t s unfolding sort_graph_def by auto
qed

text \<open>A settled order leaves no cycle.\<close>

lemma settled_acyclic:
  assumes settled: "settled g order" and all: "set (sortable_nodes g) \<subseteq> set order"
    and distinct: "distinct (map gn_label order)"
  shows "\<not> is_cycle g c"
proof
  assume c: "is_cycle g c"
  define i where "i = (LEAST i. i < length order \<and> order ! i \<in> set c)"
  have "hd c \<in> set c" using c by (simp add: is_cycle_def)
  moreover have "set c \<subseteq> set order" using c all by (auto simp: is_cycle_def)
  ultimately have "\<exists>i. i < length order \<and> order ! i \<in> set c" by (metis in_set_conv_nth subsetD)
  then have i: "i < length order \<and> order ! i \<in> set c" unfolding i_def by (rule LeastI_ex)
  then obtain k where k: "k < length c" "c ! k = order ! i" by (auto simp: in_set_conv_nth)
  let ?next = "c ! (Suc k mod length c)"
  have "Suc k mod length c < length c" using k(1) by (intro mod_less_divisor) linarith
  then have next_in: "?next \<in> set c" by simp
  have "gn_label ?next \<in> set (deps_of g (gn_label (order ! i)))" using c k by (metis is_cycle_def)
  moreover have "order ! i \<in> set (sortable_nodes g)" using c i by (auto simp: is_cycle_def)
  ultimately have "gn_label ?next \<in> gn_label ` set (take i order)"
    using settled i unfolding settled_def by blast
  then obtain m where m: "m \<in> set (take i order)" "gn_label ?next = gn_label m" by blast
  moreover have "?next \<in> set order" using next_in \<open>set c \<subseteq> set order\<close> by blast
  ultimately have "?next \<in> set (take i order)"
    using distinct unfolding distinct_map inj_on_def by (metis in_set_takeD)
  then obtain j where "j < i" "order ! j = ?next" by (metis in_set_conv_nth length_take min_less_iff_conj nth_take)
  then show False using not_less_Least [of j "\<lambda>i. i < length order \<and> order ! i \<in> set c"] next_in i
    unfolding i_def [symmetric] by simp
qed

lemma creation_order_before:
  assumes ok: "graph_ok g" and sort: "sort_graph g = Some (order, [])" and i: "i < length order" "\<not> is_extension (order ! i)"
  shows "set (deps_of g (gn_label (order ! i))) \<subseteq> gn_label ` set (take i order)
    \<and> (\<forall>m \<in> snd ` set (g_nodes g). \<not> is_extension m \<and> m \<notin> set (take i order)
         \<and> set (deps_of g (gn_label m)) \<subseteq> gn_label ` set (take i order) \<longrightarrow> node_order (order ! i) \<le> node_order m)"
proof -
  obtain s where s: "sort_graph g = Some (os_order s, os_cycles s)" "order_ok g s" "set (os_order s) = set (sorted_nodes g)"
    using sort_graph_ok [OF ok] by blast
  then have settled: "settled g order" and all: "set order = set (sorted_nodes g)" using sort by (auto simp: order_ok_def)
  have "order ! i \<in> set (sortable_nodes g)"
    using all i nth_mem [OF i(1)] by (simp add: sortable_nodes_def)
  then show ?thesis
    using settled [unfolded settled_def, rule_format, OF i(1)] unfolding sortable_nodes_def by auto
qed

subsection \<open>What the order promises\<close>

text \<open>
  C8. The sort of a graph that the constructor built always ends, although its loop has no bound in
  the code: every node is in the order once, the extensions come first, every cycle that it
  reports is one of the dependencies, and it reports none only when they have none.
\<close>

theorem creation_order_complete:
  assumes "build_graph refs_of enums tables us = Some g"
  shows "\<exists>order cycles. sort_graph g = Some (order, cycles) \<and> distinct (map gn_label order)
    \<and> set order = snd ` set (g_nodes g) \<and> (\<exists>rest. order = extensions g @ rest)
    \<and> (\<forall>c \<in> set cycles. is_cycle g c) \<and> (cycles = [] \<longleftrightarrow> \<not> (\<exists>c. is_cycle g c))"
proof -
  have ok: "graph_ok g" by (rule build_graph_ok [OF assms])
  obtain s where s: "sort_graph g = Some (os_order s, os_cycles s)" "order_ok g s" "set (os_order s) = set (sorted_nodes g)"
    using sort_graph_ok [OF ok] by blast
  have none: "\<not> is_cycle g c" if "os_cycles s = []" for c
    using s(2,3) that nodes_split(1) [of g] by (intro settled_acyclic [of g "os_order s"]) (auto simp: order_ok_def)
  have "(\<forall>c \<in> set (os_cycles s). is_cycle g c)" using s(2) by (simp add: order_ok_def)
  then have "os_cycles s = [] \<longleftrightarrow> \<not> (\<exists>c. is_cycle g c)" using none by (cases "os_cycles s") auto
  then show ?thesis using s unfolding order_ok_def by (intro exI [of _ "os_order s"] exI [of _ "os_cycles s"]) simp
qed

definition sample_unit :: "string \<Rightarrow> string \<Rightarrow> sql_reference list \<Rightarrow> sql_unit" where
  "sample_unit c n refs =
     \<lparr>su_class = js c, su_identity = js (c @ '':p.'' @ n), su_schema = js ''p'', su_name = js n, su_refs = refs,
      su_comment_class = None, su_grant = None, su_default_schemas = [], su_requires = []\<rparr>"

definition sample_relation :: "string \<Rightarrow> sql_reference" where
  "sample_relation n = \<lparr>rf_space = RelSpace, rf_names = [js ''p'', js n]\<rparr>"

definition sample_loop :: "graph option" where
  "sample_loop = build_graph (\<lambda>_. []) [(js ''p'', js ''K'')] []
     [sample_unit ''view'' ''a'' [sample_relation ''b''], sample_unit ''view'' ''b'' [sample_relation ''a'']]"

lemma creation_order_complete_witness:
  "\<exists>g. sample_loop = Some g \<and> (\<exists>order cycles. sort_graph g = Some (order, cycles) \<and> distinct (map gn_label order)
    \<and> set order = snd ` set (g_nodes g) \<and> (\<forall>c \<in> set cycles. is_cycle g c) \<and> length order = 3 \<and> length cycles = 1)"
proof -
  have "Option.is_none sample_loop = False" by code_simp
  then obtain g where g: "sample_loop = Some g" by (auto simp: Option.is_none_def)
  have "map_option (\<lambda>(order, cycles). (length order, length cycles)) (Option.bind sample_loop sort_graph) = Some (3, 1)"
    by code_simp
  then obtain order cycles where sort: "sort_graph g = Some (order, cycles)" "length order = 3" "length cycles = 1"
    unfolding g by auto
  from creation_order_complete [OF g [unfolded sample_loop_def]] sort(1)
  have "distinct (map gn_label order) \<and> set order = snd ` set (g_nodes g) \<and> (\<forall>c \<in> set cycles. is_cycle g c)" by auto
  with g sort show ?thesis by blast
qed

text \<open>
  C9. When no cycle is reported, every node that is not an extension comes after all it depends
  on, and it is the first in the tie-break (enum types, tables, units; schema; name) of the nodes
  that could come at its place: the order does not depend on the order of the input.
\<close>

theorem creation_order_respects:
  assumes "build_graph refs_of enums tables us = Some g" "sort_graph g = Some (order, [])"
    and "i < length order" "\<not> is_extension (order ! i)"
  shows "set (deps_of g (gn_label (order ! i))) \<subseteq> gn_label ` set (take i order)
    \<and> (\<forall>m \<in> snd ` set (g_nodes g). \<not> is_extension m \<and> m \<notin> set (take i order)
         \<and> set (deps_of g (gn_label m)) \<subseteq> gn_label ` set (take i order) \<longrightarrow> node_order (order ! i) \<le> node_order m)"
  by (rule creation_order_before [OF build_graph_ok [OF assms(1)] assms(2-4)])

definition sample_chain :: "graph option" where
  "sample_chain = build_graph (\<lambda>_. []) [(js ''p'', js ''K'')] []
     [sample_unit ''view'' ''a'' [sample_relation ''b''], sample_unit ''view'' ''b'' [sample_relation ''c''],
      sample_unit ''sequence'' ''c'' [], sample_unit ''extension'' ''x'' []]"

lemma creation_order_respects_witness:
  "\<exists>g order. sample_chain = Some g \<and> sort_graph g = Some (order, []) \<and> map gn_label order
      = [js ''extension:p.x'', js ''enumType:p.K'', js ''sequence:p.c'', js ''view:p.b'', js ''view:p.a'']
    \<and> set (deps_of g (gn_label (order ! 3))) \<subseteq> gn_label ` set (take 3 order)"
proof -
  have "Option.is_none sample_chain = False" by code_simp
  then obtain g where g: "sample_chain = Some g" by (auto simp: Option.is_none_def)
  have "map_option (\<lambda>(order, cycles). (map gn_label order, map (map gn_label) cycles, map is_extension order)) (Option.bind sample_chain sort_graph)
      = Some ([js ''extension:p.x'', js ''enumType:p.K'', js ''sequence:p.c'', js ''view:p.b'', js ''view:p.a''], [],
          [True, False, False, False, False])"
    by code_simp
  then obtain order where order: "sort_graph g = Some (order, [])" "map gn_label order
      = [js ''extension:p.x'', js ''enumType:p.K'', js ''sequence:p.c'', js ''view:p.b'', js ''view:p.a'']"
      "map is_extension order = [True, False, False, False, False]"
    unfolding g by auto
  have "length (map gn_label order) = 5" "\<not> map is_extension order ! 3" unfolding order(2,3) by simp_all
  then have three: "3 < length order" "\<not> is_extension (order ! 3)" by simp_all
  from creation_order_respects [OF g [unfolded sample_chain_def] order(1) three]
  have "set (deps_of g (gn_label (order ! 3))) \<subseteq> gn_label ` set (take 3 order)" by (rule conjunct1)
  then show ?thesis by (intro exI [of _ g] exI [of _ order] conjI g order)
qed

text \<open>
  C10. An object that a unit refers to is created before it: when \<open>creationOrder\<close> reports no cycle,
  every object of the model that a reference of the unit resolves to stands earlier in the order
  than the unit itself.
\<close>

theorem creation_order_references:
  assumes "creation_order refs_of enums tables us = Some (order, [])" "build_graph refs_of enums tables us = Some g"
    and "u \<in> set us" "su_class u \<noteq> js ''extension''" "r \<in> set (su_refs u)" "l \<in> set (resolve_reference g r)" "l \<noteq> su_identity u"
    and "j < length order" "label_of (order ! j) = su_identity u" "\<forall>n. node_of g (su_identity u) = Some n \<longrightarrow> \<not> is_extension n"
  shows "\<exists>i < j. label_of (order ! i) = l"
proof -
  have ok: "graph_ok g" by (rule build_graph_ok [OF assms(2)])
  obtain nodes where nodes: "sort_graph g = Some (nodes, [])" "order = map gn_node nodes"
    using assms(1,2) by (auto simp: creation_order_def)
  have "set nodes = set (sorted_nodes g)" using sort_graph_ok [OF ok] nodes(1) by auto
  have label: "node_of g (gn_label n) = Some n \<and> label_of (gn_node n) = gn_label n" if "n \<in> set nodes" for n
  proof -
    have "n \<in> snd ` set (g_nodes g)" using that \<open>set nodes = set (sorted_nodes g)\<close> by simp
    then have "node_of g (gn_label n) = Some n" unfolding graph_nodes [OF ok] node_entry [OF ok] .
    then show ?thesis using ok unfolding graph_ok_def by blast
  qed
  have j: "j < length nodes" using assms(8) nodes(2) by simp
  then have u: "gn_label (nodes ! j) = su_identity u" using label [OF nth_mem [OF j]] assms(9) nodes(2) by simp
  then have "\<not> is_extension (nodes ! j)" using label [OF nth_mem [OF j]] assms(10) by simp
  from creation_order_before [OF ok nodes(1) j this] build_graph_reference [OF assms(2-7)]
  have "l \<in> gn_label ` set (take j nodes)" unfolding u by blast
  then obtain i where i: "i < j" "gn_label (nodes ! i) = l" using j by (auto simp: in_set_conv_nth)
  then show ?thesis using label [OF nth_mem, of i] j nodes(2) by auto
qed

lemma creation_order_references_witness:
  "\<exists>i < 4. label_of ([UnitNode (js ''extension:p.x''), EnumNode (js ''p'') (js ''K''), UnitNode (js ''sequence:p.c''),
      UnitNode (js ''view:p.b''), UnitNode (js ''view:p.a'')] ! i) = js ''view:p.b''"
proof -
  let ?us = "[sample_unit ''view'' ''a'' [sample_relation ''b''], sample_unit ''view'' ''b'' [sample_relation ''c''],
      sample_unit ''sequence'' ''c'' [], sample_unit ''extension'' ''x'' []]"
  let ?order = "[UnitNode (js ''extension:p.x''), EnumNode (js ''p'') (js ''K''), UnitNode (js ''sequence:p.c''),
      UnitNode (js ''view:p.b''), UnitNode (js ''view:p.a'')]"
  have order: "creation_order (\<lambda>_. []) [(js ''p'', js ''K'')] [] ?us = Some (?order, [])" by code_simp
  have "Option.is_none sample_chain = False" by code_simp
  then obtain g where g: "sample_chain = Some g" by (auto simp: Option.is_none_def)
  have "(case sample_chain of None \<Rightarrow> ([], None) | Some g \<Rightarrow>
        (resolve_reference g (sample_relation ''b''), map_option is_extension (node_of g (js ''view:p.a'')))) = ([js ''view:p.b''], Some False)"
    by code_simp
  then have sample: "resolve_reference g (sample_relation ''b'') = [js ''view:p.b'']"
      "map_option is_extension (node_of g (js ''view:p.a'')) = Some False" unfolding g by simp_all
  have unit: "su_identity (sample_unit ''view'' ''a'' [sample_relation ''b'']) = js ''view:p.a''" by code_simp
  show ?thesis
  proof (rule creation_order_references [OF order g [unfolded sample_chain_def], where u = "sample_unit ''view'' ''a'' [sample_relation ''b'']"])
    show "js ''view:p.b'' \<in> set (resolve_reference g (sample_relation ''b''))" unfolding sample by simp
    show "\<forall>n. node_of g (su_identity (sample_unit ''view'' ''a'' [sample_relation ''b''])) = Some n \<longrightarrow> \<not> is_extension n"
      using sample(2) unfolding unit by auto
  qed (code_simp | simp)+
qed

end
