(* ===== verification/PostingTypes.thy ===== *)
theory PostingTypes
  imports Posting ValueType
begin

section \<open>Types of posting expressions\<close>

text \<open>
  \<open>compiler/posting-types.ts\<close>: the types of the expressions of the movement constructor, their
  inference with the errors of operands, and what a field of a register accepts. The array of
  errors that the code passes down and appends to is here the list of errors that a call adds.
\<close>

subsection \<open>Types\<close>

datatype inferred_type =
    INumeric bool
  | IText
  | IBoolean
  | IDate
  | IRef "jstr list" bool
  | INull
  | IUnknown

text \<open>The kind of a type, by which the code compares types.\<close>

datatype type_kind = KNumeric | KText | KBoolean | KDate | KRef | KNull | KUnknown

fun kind_of :: "inferred_type \<Rightarrow> type_kind" where
  "kind_of (INumeric i) = KNumeric"
| "kind_of IText = KText"
| "kind_of IBoolean = KBoolean"
| "kind_of IDate = KDate"
| "kind_of (IRef ts p) = KRef"
| "kind_of INull = KNull"
| "kind_of IUnknown = KUnknown"

fun is_pair :: "inferred_type \<Rightarrow> bool" where
  "is_pair (IRef ts p) = p"
| "is_pair t = False"

text \<open>\<open>typeOfLogical\<close>\<close>

fun type_of_scalar :: "jstr list \<Rightarrow> bool \<Rightarrow> logical_type \<Rightarrow> inferred_type" where
  "type_of_scalar targets pair TSmallInt = INumeric True"
| "type_of_scalar targets pair TInteger = INumeric True"
| "type_of_scalar targets pair TBigInt = INumeric True"
| "type_of_scalar targets pair TNumeric = INumeric False"
| "type_of_scalar targets pair TString = IText"
| "type_of_scalar targets pair TText = IText"
| "type_of_scalar targets pair TBoolean = IBoolean"
| "type_of_scalar targets pair TDate = IDate"
| "type_of_scalar targets pair TDateTime = IDate"
| "type_of_scalar targets pair TRef = (if targets = [] then IUnknown else IRef targets pair)"
| "type_of_scalar targets pair _ = IUnknown"

definition type_of_logical :: "logical_type \<Rightarrow> jstr list \<Rightarrow> bool \<Rightarrow> bool \<Rightarrow> inferred_type" where
  "type_of_logical t targets array pair = (if array then IUnknown else type_of_scalar targets pair t)"

text \<open>\<open>describeType\<close>\<close>

fun describe_type :: "inferred_type \<Rightarrow> jstr" where
  "describe_type (INumeric i) = (if i then js ''integer'' else js ''numeric'')"
| "describe_type IText = js ''text''"
| "describe_type IBoolean = js ''boolean''"
| "describe_type IDate = js ''date''"
| "describe_type (IRef ts p) = (if p then js ''polymorphic reference'' else js ''reference'')"
| "describe_type INull = js ''null''"
| "describe_type IUnknown = js ''value''"

subsection \<open>Comparable types and types that a field accepts\<close>

fun targets_of :: "inferred_type \<Rightarrow> jstr list" where
  "targets_of (IRef ts p) = ts"
| "targets_of t = []"

definition comparable :: "inferred_type \<Rightarrow> inferred_type \<Rightarrow> bool" where
  "comparable l r \<longleftrightarrow>
     l = IUnknown \<or> r = IUnknown \<or> l = INull \<or> r = INull
     \<or> kind_of l = kind_of r \<and> (kind_of l = KRef \<longrightarrow> list_ex (\<lambda>t. t \<in> set (targets_of r)) (targets_of l))"

definition is_whole :: "inferred_type \<Rightarrow> bool" where
  "is_whole t \<longleftrightarrow> t = INumeric True"

definition accepts :: "inferred_type \<Rightarrow> inferred_type \<Rightarrow> bool" where
  "accepts f v \<longleftrightarrow>
     f = IUnknown \<or> v = IUnknown \<or> v = INull
     \<or> kind_of f = kind_of v
       \<and> (kind_of f = KNumeric \<longrightarrow> \<not> is_whole f \<or> is_whole v)
       \<and> (kind_of f = KRef \<longrightarrow> list_all (\<lambda>t. t \<in> set (targets_of f)) (targets_of v))"

subsection \<open>Inference\<close>

record operand_error =
  oe_node :: expr
  oe_expected :: jstr
  oe_actual :: inferred_type

type_synonym inference = "operand_error list \<times> inferred_type"

definition type_error :: "expr \<Rightarrow> jstr \<Rightarrow> inferred_type \<Rightarrow> operand_error" where
  "type_error n x t = \<lparr>oe_node = n, oe_expected = x, oe_actual = t\<rparr>"

text \<open>\<open>inferType\<close> after \<open>inferNode\<close>: with an error of its own the type of the node is unknown.\<close>

definition closed_type :: "inference \<Rightarrow> inference" where
  "closed_type x = (fst x, if fst x = [] then snd x else IUnknown)"

text \<open>\<open>operand\<close>: an operand that must be of a kind.\<close>

definition operand :: "expr \<Rightarrow> type_kind \<Rightarrow> inference \<Rightarrow> operand_error list \<times> inferred_type option" where
  "operand n k x =
     (if snd x = IUnknown then (fst x, None)
      else if kind_of (snd x) \<noteq> k
      then (fst x @ [type_error n (if k = KNumeric then js ''numeric'' else js ''boolean'') (snd x)], None)
      else (fst x, Some (snd x)))"

definition arithmetic :: "binary_op \<Rightarrow> bool" where
  "arithmetic p \<longleftrightarrow> p \<in> {Add, Sub, Mul, Div}"

definition logical :: "binary_op \<Rightarrow> bool" where
  "logical p \<longleftrightarrow> p \<in> {And, Or}"

definition ordering :: "binary_op \<Rightarrow> bool" where
  "ordering p \<longleftrightarrow> p \<in> {Lt, Le, Gt, Ge}"

definition arithmetic_type :: "binary_op \<Rightarrow> inferred_type option \<Rightarrow> inferred_type option \<Rightarrow> inferred_type" where
  "arithmetic_type p l r =
     (case (l, r) of
        (Some (INumeric i), Some (INumeric j)) \<Rightarrow> INumeric (p \<noteq> Div \<and> i \<and> j)
      | _ \<Rightarrow> IUnknown)"

text \<open>The side of a comparison that is a polymorphic reference, the left one first, and a type without an order.\<close>

definition pair_side :: "expr \<Rightarrow> expr \<Rightarrow> inferred_type \<Rightarrow> inferred_type \<Rightarrow> (expr \<times> inferred_type) option" where
  "pair_side l r lt rt = (if is_pair lt then Some (l, lt) else if is_pair rt then Some (r, rt) else None)"

definition unordered :: "inferred_type \<Rightarrow> inferred_type \<Rightarrow> inferred_type option" where
  "unordered lt rt = find (\<lambda>t. kind_of t \<in> {KRef, KBoolean}) [lt, rt]"

text \<open>The error of a comparison, at most one; \<open>whole\<close> is the comparison itself.\<close>

definition comparison_errors ::
  "expr \<Rightarrow> binary_op \<Rightarrow> expr \<Rightarrow> expr \<Rightarrow> inferred_type \<Rightarrow> inferred_type \<Rightarrow> operand_error list"
where
  "comparison_errors whole p l r lt rt =
     (if pair_side l r lt rt \<noteq> None \<and> (ordering p \<or> \<not> (lt = INull \<or> rt = INull))
      then (case the (pair_side l r lt rt) of (n, t) \<Rightarrow> [type_error n (js ''a single-target reference or null'') t])
      else if ordering p \<and> (lt = INull \<or> rt = INull)
      then [type_error (if lt = INull then l else r) (js ''numeric, text or date'') INull]
      else if \<not> comparable lt rt then [type_error r (describe_type lt) rt]
      else if ordering p \<and> unordered lt rt \<noteq> None
      then [type_error whole (js ''numeric, text or date'') (the (unordered lt rt))]
      else [])"

text \<open>\<open>inferNode\<close>; \<open>ctx\<close> is \<open>typeOf\<close> of the context, which is asked for fields and sums.\<close>

fun infer_node :: "(expr \<Rightarrow> inferred_type) \<Rightarrow> expr \<Rightarrow> inference" where
  "infer_node ctx (Number v s e) = ([], INumeric (46 \<notin> set v))"
| "infer_node ctx (Str v s e) = ([], IText)"
| "infer_node ctx (Boolean v s e) = ([], IBoolean)"
| "infer_node ctx (Null s e) = ([], INull)"
| "infer_node ctx (Count sn ss s e) = ([], INumeric True)"
| "infer_node ctx (Field b n fs s e) = ([], ctx (Field b n fs s e))"
| "infer_node ctx (Sum sn fn ss fs s e) =
     (let t = ctx (Sum sn fn ss fs s e)
      in if kind_of t \<in> {KUnknown, KNumeric} then ([], t)
         else ([type_error (Sum sn fn ss fs s e) (js ''numeric'') t], IUnknown))"
| "infer_node ctx (Unary p x s e) =
     (let inner = closed_type (infer_node ctx x)
      in case p of
           Not \<Rightarrow> (fst (operand x KBoolean inner), IBoolean)
         | Neg \<Rightarrow> (case operand x KNumeric inner of (es, t) \<Rightarrow> (es, case t of None \<Rightarrow> IUnknown | Some t \<Rightarrow> t)))"
| "infer_node ctx (Binary p l r s e) =
     (let left = closed_type (infer_node ctx l);
          right = closed_type (infer_node ctx r)
      in if arithmetic p then
           (case (operand l KNumeric left, operand r KNumeric right) of
              ((el, lt), (er, rt)) \<Rightarrow> (el @ er, arithmetic_type p lt rt))
         else if logical p then (fst (operand l KBoolean left) @ fst (operand r KBoolean right), IBoolean)
         else (fst left @ fst right @ comparison_errors (Binary p l r s e) p l r (snd left) (snd right), IBoolean))"

definition infer_type :: "(expr \<Rightarrow> inferred_type) \<Rightarrow> expr \<Rightarrow> inference" where
  "infer_type ctx e = closed_type (infer_node ctx e)"

subsection \<open>A type system\<close>

text \<open>
  The typing rules that the inference implements. An unknown type fits everywhere, except that a
  polymorphic reference is compared with \<open>null\<close> alone.
\<close>

definition fits :: "type_kind \<Rightarrow> inferred_type \<Rightarrow> bool" where
  "fits k t \<longleftrightarrow> kind_of t \<in> {k, KUnknown}"

definition equatable :: "inferred_type \<Rightarrow> inferred_type \<Rightarrow> bool" where
  "equatable l r \<longleftrightarrow>
     l = INull \<or> r = INull
     \<or> \<not> is_pair l \<and> \<not> is_pair r
       \<and> (l = IUnknown \<or> r = IUnknown \<or> kind_of l = kind_of r \<and> (kind_of l = KRef \<longrightarrow> set (targets_of l) \<inter> set (targets_of r) \<noteq> {}))"

definition orderable :: "inferred_type \<Rightarrow> inferred_type \<Rightarrow> bool" where
  "orderable l r \<longleftrightarrow>
     {kind_of l, kind_of r} \<subseteq> {KNumeric, KText, KDate, KUnknown} \<and> (kind_of l = kind_of r \<or> IUnknown \<in> {l, r})"

inductive typed :: "(expr \<Rightarrow> inferred_type) \<Rightarrow> expr \<Rightarrow> inferred_type \<Rightarrow> bool" for ctx where
  number: "typed ctx (Number v s e) (INumeric (46 \<notin> set v))"
| string: "typed ctx (Str v s e) IText"
| boolean: "typed ctx (Boolean v s e) IBoolean"
| null: "typed ctx (Null s e) INull"
| count: "typed ctx (Count sn ss s e) (INumeric True)"
| field: "typed ctx (Field b n fs s e) (ctx (Field b n fs s e))"
| sum: "fits KNumeric (ctx (Sum sn fn ss fs s e)) \<Longrightarrow> typed ctx (Sum sn fn ss fs s e) (ctx (Sum sn fn ss fs s e))"
| negation: "typed ctx x t \<Longrightarrow> fits KBoolean t \<Longrightarrow> typed ctx (Unary Not x s e) IBoolean"
| minus: "typed ctx x t \<Longrightarrow> fits KNumeric t \<Longrightarrow> typed ctx (Unary Neg x s e) t"
| whole: "typed ctx l (INumeric i) \<Longrightarrow> typed ctx r (INumeric j) \<Longrightarrow> arithmetic p
    \<Longrightarrow> typed ctx (Binary p l r s e) (INumeric (p \<noteq> Div \<and> i \<and> j))"
| vague: "typed ctx l t \<Longrightarrow> typed ctx r u \<Longrightarrow> arithmetic p \<Longrightarrow> fits KNumeric t \<Longrightarrow> fits KNumeric u \<Longrightarrow> IUnknown \<in> {t, u}
    \<Longrightarrow> typed ctx (Binary p l r s e) IUnknown"
| connective: "typed ctx l t \<Longrightarrow> typed ctx r u \<Longrightarrow> logical p \<Longrightarrow> fits KBoolean t \<Longrightarrow> fits KBoolean u
    \<Longrightarrow> typed ctx (Binary p l r s e) IBoolean"
| equality: "typed ctx l t \<Longrightarrow> typed ctx r u \<Longrightarrow> p \<in> {Eq, Ne} \<Longrightarrow> equatable t u \<Longrightarrow> typed ctx (Binary p l r s e) IBoolean"
| order: "typed ctx l t \<Longrightarrow> typed ctx r u \<Longrightarrow> ordering p \<Longrightarrow> orderable t u \<Longrightarrow> typed ctx (Binary p l r s e) IBoolean"

lemma closed_type_ok [simp]: "fst (closed_type x) = fst x"
  by (simp add: closed_type_def)

lemma closed_type_nil: "closed_type x = ([], t) \<longleftrightarrow> x = ([], t)"
  by (cases x) (auto simp: closed_type_def)

lemma operand_nil:
  "fst (operand n k x) = [] \<longleftrightarrow> fst x = [] \<and> fits k (snd x)"
  by (cases "snd x") (auto simp: operand_def fits_def)

lemma comparison_equality:
  "p \<in> {Eq, Ne} \<Longrightarrow> comparison_errors w p l r lt rt = [] \<longleftrightarrow> equatable lt rt"
  by (cases lt; cases rt) (auto simp: comparison_errors_def pair_side_def unordered_def equatable_def ordering_def comparable_def list_ex_iff)

lemma comparison_order:
  "ordering p \<Longrightarrow> comparison_errors w p l r lt rt = [] \<longleftrightarrow> orderable lt rt"
  by (cases lt; cases rt) (auto simp: comparison_errors_def pair_side_def unordered_def orderable_def comparable_def list_ex_iff)

lemma op_cases: "arithmetic p \<or> logical p \<or> p \<in> {Eq, Ne} \<or> ordering p"
  by (cases p) (auto simp: arithmetic_def logical_def ordering_def)

lemma op_disjoint:
  "logical p \<Longrightarrow> \<not> arithmetic p" "p \<in> {Eq, Ne} \<Longrightarrow> \<not> arithmetic p \<and> \<not> logical p" "ordering p \<Longrightarrow> \<not> arithmetic p \<and> \<not> logical p"
  by (cases p; simp add: arithmetic_def logical_def ordering_def)+

lemma operand_type:
  "fits k t \<Longrightarrow> operand n k ([], t) = ([], if t = IUnknown then None else Some t)"
  by (cases t) (auto simp: operand_def fits_def)

lemma arithmetic_type_whole:
  "fits KNumeric t \<Longrightarrow> fits KNumeric u \<Longrightarrow>
     arithmetic_type p (if t = IUnknown then None else Some t) (if u = IUnknown then None else Some u)
       = (if IUnknown \<in> {t, u} then IUnknown else INumeric (p \<noteq> Div \<and> t = INumeric True \<and> u = INumeric True))"
  by (cases t; cases u) (auto simp: arithmetic_type_def fits_def)

lemma typed_infer: "typed ctx e t \<Longrightarrow> infer_node ctx e = ([], t)"
proof (induction rule: typed.induct)
  case (sum sn fn ss fs s e)
  then show ?case by (auto simp: fits_def Let_def)
next
  case (whole l i r j p s e)
  then show ?case
    by (simp add: closed_type_def operand_type fits_def arithmetic_type_def)
next
  case (vague l t r u p s e)
  then show ?case
    by (simp add: closed_type_def operand_type arithmetic_type_whole)
next
  case (connective l t r u p s e)
  then show ?case by (simp add: closed_type_def operand_type op_disjoint)
next
  case (equality l t r u p s e)
  then show ?case using op_disjoint(2) [of p] by (simp add: closed_type_def comparison_equality)
next
  case (order l t r u p s e)
  then show ?case using op_disjoint(3) [of p] by (simp add: closed_type_def comparison_order)
next
  case (minus x t s e)
  then show ?case by (simp add: closed_type_def operand_type)
qed (simp_all add: closed_type_def operand_type)

lemma infer_typed: "infer_node ctx e = ([], t) \<Longrightarrow> typed ctx e t"
proof (induction e arbitrary: t)
  case (Sum sn fn ss fs s e)
  then show ?case by (auto simp: Let_def fits_def intro: typed.sum split: if_splits)
next
  case (Unary p x s e)
  obtain es u where inner: "infer_node ctx x = (es, u)" by fastforce
  show ?case
  proof (cases p)
    case Neg
    then have "fst (operand x KNumeric (closed_type (es, u))) = []"
      using Unary.prems inner by (auto simp: Let_def split: prod.splits)
    then have es: "es = []" "fits KNumeric u" by (auto simp: operand_nil closed_type_def split: if_splits)
    then have "t = u" using Unary.prems inner Neg by (auto simp: closed_type_def operand_type)
    then show ?thesis using Unary.IH [of u] inner es Neg typed.minus by blast
  next
    case Not
    then have "fst (operand x KBoolean (closed_type (es, u))) = []" "t = IBoolean"
      using Unary.prems inner by (auto simp: Let_def)
    then have "es = []" "fits KBoolean u" "t = IBoolean" by (auto simp: operand_nil closed_type_def split: if_splits)
    then show ?thesis using Unary.IH [of u] inner Not typed.negation by blast
  qed
next
  case (Binary p l r s e)
  obtain el tl er tr where inner: "infer_node ctx l = (el, tl)" "infer_node ctx r = (er, tr)" by fastforce
  note unfold = Binary.prems [simplified Let_def infer_node.simps inner]
  consider (a) "arithmetic p" | (b) "logical p" | (c) "p \<in> {Eq, Ne}" | (d) "ordering p" using op_cases by blast
  then show ?case
  proof cases
    case a
    then have "fst (operand l KNumeric (closed_type (el, tl))) = []" "fst (operand r KNumeric (closed_type (er, tr))) = []"
      using unfold by (auto split: prod.splits)
    then have es: "el = []" "er = []" "fits KNumeric tl" "fits KNumeric tr"
      by (auto simp: operand_nil closed_type_def split: if_splits)
    then have t: "t = (if IUnknown \<in> {tl, tr} then IUnknown else INumeric (p \<noteq> Div \<and> tl = INumeric True \<and> tr = INumeric True))"
      using unfold a by (simp add: closed_type_def operand_type arithmetic_type_whole)
    have sub: "typed ctx l tl" "typed ctx r tr" using Binary.IH inner es by auto
    show ?thesis
    proof (cases "IUnknown \<in> {tl, tr}")
      case True
      then show ?thesis using typed.vague [OF sub a es(3,4)] t by simp
    next
      case False
      then obtain i j where "tl = INumeric i" "tr = INumeric j"
        using es(3,4) by (cases tl; cases tr) (auto simp: fits_def)
      then show ?thesis using typed.whole [of ctx l i r j p] sub a t by simp
    qed
  next
    case b
    then have "fst (operand l KBoolean (closed_type (el, tl))) = []" "fst (operand r KBoolean (closed_type (er, tr))) = []" "t = IBoolean"
      using unfold op_disjoint(1) by auto
    then have "el = []" "er = []" "fits KBoolean tl" "fits KBoolean tr" "t = IBoolean"
      by (auto simp: operand_nil closed_type_def split: if_splits)
    then show ?thesis using Binary.IH inner typed.connective [OF _ _ b] by blast
  next
    case c
    then have "el = []" "er = []" "comparison_errors (Binary p l r s e) p l r tl tr = []" "t = IBoolean"
      using unfold op_disjoint(2) [of p] by (auto simp: closed_type_def)
    then show ?thesis using Binary.IH inner typed.equality [OF _ _ c] comparison_equality [OF c] by blast
  next
    case d
    then have "el = []" "er = []" "comparison_errors (Binary p l r s e) p l r tl tr = []" "t = IBoolean"
      using unfold op_disjoint(3) [of p] by (auto simp: closed_type_def)
    then show ?thesis using Binary.IH inner typed.order [OF _ _ d] comparison_order [OF d] by blast
  qed
qed (auto intro: typed.intros)

text \<open>
  C13. The inference is a sound and complete decision procedure of the typing rules: it reports no
  error exactly for the expressions that have a type, and then it gives that type, the only one.
\<close>

theorem infer_type_exact: "infer_type ctx e = ([], t) \<longleftrightarrow> typed ctx e t"
  unfolding infer_type_def closed_type_nil by (metis infer_typed typed_infer)

subsection \<open>Errors\<close>

text \<open>
  An error names a node of the expression, and its type is one that was inferred without an error:
  no error follows from another one.
\<close>

definition error_grounded :: "(expr \<Rightarrow> inferred_type) \<Rightarrow> expr \<Rightarrow> operand_error \<Rightarrow> bool" where
  "error_grounded ctx e x \<longleftrightarrow>
     oe_node x \<in> set (walk_expr e) \<and> oe_actual x \<noteq> IUnknown
     \<and> (\<exists>n \<in> set (walk_expr (oe_node x)). infer_type ctx n = ([], oe_actual x)
          \<or> (\<exists>sn fn ss fs s z. n = Sum sn fn ss fs s z \<and> ctx n = oe_actual x))"

lemma error_grounded_sub:
  "error_grounded ctx c x \<Longrightarrow> set (walk_expr c) \<subseteq> set (walk_expr e) \<Longrightarrow> error_grounded ctx e x"
  by (auto simp: error_grounded_def)

lemma walk_self [simp]: "e \<in> set (walk_expr e)"
  by (cases e) auto

lemma operand_grounded:
  assumes "x \<in> set (fst (operand n k (infer_type ctx n)))"
  shows "x \<in> set (fst (infer_type ctx n)) \<or> error_grounded ctx n x"
proof -
  have "infer_type ctx n = ([], snd (infer_type ctx n))" if "snd (infer_type ctx n) \<noteq> IUnknown"
    using that by (cases "infer_node ctx n") (auto simp: infer_type_def closed_type_def split: if_splits)
  then show ?thesis
    using assms by (auto simp: operand_def error_grounded_def type_error_def split: if_splits)
qed

lemma type_error_fields [simp]: "oe_node (type_error n y t) = n" "oe_actual (type_error n y t) = t"
  by (simp_all add: type_error_def)

lemma comparison_error_cases:
  assumes "x \<in> set (comparison_errors w p l r lt rt)"
  shows "oe_actual x \<noteq> IUnknown \<and>
    (oe_node x = l \<and> oe_actual x = lt \<or> oe_node x = r \<and> oe_actual x = rt \<or> oe_node x = w \<and> oe_actual x \<in> {lt, rt})"
proof -
  have pairs: "pair_side l r lt rt = Some (n, t) \<Longrightarrow> (n, t) \<in> {(l, lt), (r, rt)} \<and> t \<noteq> IUnknown" for n t
    by (auto simp: pair_side_def split: if_splits)
  have bad: "unordered lt rt = Some t \<Longrightarrow> t \<in> {lt, rt} \<and> t \<noteq> IUnknown" for t
    by (auto simp: unordered_def split: if_splits)
  have unlike: "\<not> comparable lt rt \<Longrightarrow> rt \<noteq> IUnknown" by (auto simp: comparable_def)
  show ?thesis
    using assms pairs bad unlike unfolding comparison_errors_def
    by (cases "pair_side l r lt rt"; cases "unordered lt rt") (auto split: if_splits)
qed

lemma comparison_grounded:
  assumes "x \<in> set (comparison_errors (Binary p l r s e) p l r (snd (infer_type ctx l)) (snd (infer_type ctx r)))"
  shows "error_grounded ctx (Binary p l r s e) x"
proof -
  have known: "infer_type ctx n = ([], snd (infer_type ctx n))" if "snd (infer_type ctx n) \<noteq> IUnknown" for n
    using that by (cases "infer_node ctx n") (auto simp: infer_type_def closed_type_def split: if_splits)
  let ?w = "Binary p l r s e"
  obtain n where n: "n \<in> {l, r}" "oe_actual x = snd (infer_type ctx n)" "oe_node x = n \<or> oe_node x = ?w" "oe_actual x \<noteq> IUnknown"
    using comparison_error_cases [OF assms] by blast
  have "infer_type ctx n = ([], oe_actual x)" using known [of n] n by simp
  moreover have "n \<in> set (walk_expr (oe_node x))" "oe_node x \<in> set (walk_expr ?w)" using n(1,3) by auto
  ultimately show ?thesis unfolding error_grounded_def using n(4) by blast
qed

text \<open>
  C16. One cause, one error: every error that the inference reports names a node inside the
  expression, and the type that it names was inferred there without any error, so no error is the
  consequence of another.
\<close>

theorem infer_type_grounded:
  assumes "x \<in> set (fst (infer_type ctx e))"
  shows "error_grounded ctx e x"
proof -
  have "x \<in> set (fst (infer_node ctx e)) \<Longrightarrow> error_grounded ctx e x" for x
  proof (induction e)
    case (Sum sn fn ss fs s e)
    then show ?case by (auto simp: Let_def error_grounded_def type_error_def split: if_splits)
  next
    case (Unary p n s e)
    then have "x \<in> set (fst (operand n (if p = Not then KBoolean else KNumeric) (infer_type ctx n)))"
      by (cases p) (auto simp: infer_type_def Let_def split: prod.splits)
    from operand_grounded [OF this] Unary.IH have "error_grounded ctx n x" by (auto simp: infer_type_def)
    then show ?case by (rule error_grounded_sub) auto
  next
    case (Binary p l r s e)
    have sub: "error_grounded ctx (Binary p l r s e) x" if "n \<in> {l, r}" "error_grounded ctx n x" for n
      using that(2) by (rule error_grounded_sub) (use that(1) in auto)
    have operands: "error_grounded ctx (Binary p l r s e) x"
      if "n \<in> {l, r}" "x \<in> set (fst (operand n k (infer_type ctx n)))" for n k
      using operand_grounded [OF that(2)] sub [OF that(1)] Binary.IH that(1) by (auto simp: infer_type_def)
    show ?case
    proof (cases "arithmetic p \<or> logical p")
      case True
      then have "x \<in> set (fst (operand l KNumeric (infer_type ctx l))) \<or> x \<in> set (fst (operand r KNumeric (infer_type ctx r)))
          \<or> x \<in> set (fst (operand l KBoolean (infer_type ctx l))) \<or> x \<in> set (fst (operand r KBoolean (infer_type ctx r)))"
        using Binary.prems by (auto simp: infer_type_def Let_def split: prod.splits if_splits)
      then show ?thesis using operands by blast
    next
      case False
      then have "x \<in> set (fst (infer_node ctx l)) \<or> x \<in> set (fst (infer_node ctx r))
          \<or> x \<in> set (comparison_errors (Binary p l r s e) p l r (snd (infer_type ctx l)) (snd (infer_type ctx r)))"
        using Binary.prems by (auto simp: infer_type_def Let_def)
      then show ?thesis
        using sub [of l, OF _ Binary.IH(1)] sub [of r, OF _ Binary.IH(2)] comparison_grounded [of x p l r s e ctx] by auto
    qed
  qed auto
  then show ?thesis using assms by (simp add: infer_type_def)
qed

lemma infer_type_grounded_witness:
  "error_grounded (\<lambda>_. IText) (Binary Add (Number (js ''1'') 0 1) (Field Doc (js ''x'') \<lparr>s_start = 4, s_end = 5\<rparr> 4 5) 0 5)
     \<lparr>oe_node = Field Doc (js ''x'') \<lparr>s_start = 4, s_end = 5\<rparr> 4 5, oe_expected = js ''numeric'', oe_actual = IText\<rparr>"
  by (rule infer_type_grounded) code_simp

end
