(* ===== verification/MovementSql.thy ===== *)
theory MovementSql
  imports PostingTypes PgNames "HOL-Library.Sublist"
begin

section \<open>Movements as SQL\<close>

text \<open>
  \<open>compiler/movement-functions.ts\<close>: the movements that the constructor of a document describes
  become the body of a SQL function. What the registry of kinds says of the standard columns of an
  object is part of the object here; the references that stage 2 resolved are a function. An
  internal error of the code is a message. The check of the finished text by the parser of
  PostgreSQL, which only confirms it, is left out.
\<close>

subsection \<open>The physical model and the objects\<close>

record move_column =
  mc_name :: jstr
  mc_type :: jstr
  mc_element :: "jstr option"
  mc_standard :: "jstr option"
  mc_scope :: "jstr option"

record move_table =
  mt_schema :: jstr
  mt_name :: jstr
  mt_object :: jstr
  mt_section :: "jstr option"
  mt_part :: "jstr option"
  mt_columns :: "move_column list"

record standard_def =
  sd_name :: jstr
  sd_shell :: bool
  sd_singleton :: bool

record movement =
  mv_section :: bool
  mv_period :: "jstr option"
  mv_type :: "jstr option"
  mv_condition :: "jstr option"
  mv_fields :: "(jstr \<times> jstr) list"

text \<open>
  An object with the standard columns of its table and of its rows, its singleton key, its
  attributes with their single target, its label of a kind, its periodicity, its blocks of SQL
  (file, line, text) and the movements of its constructor.
\<close>

record posting_object =
  po_id :: jstr
  po_file :: jstr
  po_key :: "metadata_kind \<times> jstr"
  po_standard :: "standard_def list"
  po_rows :: "standard_def list"
  po_singleton :: "standard_def option"
  po_attributes :: "(jstr \<times> metadata_ref option) list"
  po_label :: "jstr option"
  po_periodicity :: "jstr option"
  po_blocks :: "(jstr \<times> nat \<times> jstr) list"
  po_movements :: "movement list"

datatype reference_role = PostingRegister | PostingSection | PostingDocField | PostingRowField | PostingRegisterField
  | PostingBlock

record move_context =
  cx_objects :: "posting_object list"
  cx_resolved :: "jstr \<Rightarrow> jstr \<Rightarrow> reference_role \<Rightarrow> nat option \<Rightarrow> jstr option"
  cx_tables :: "move_table list"
  cx_camel :: bool
  cx_timezone :: jstr

text \<open>\<open>must\<close>\<close>

definition must :: "jstr \<Rightarrow> 'a option \<Rightarrow> jstr + 'a" where
  "must what x = (case x of None \<Rightarrow> Inl (js ''internal: missing '' @ what) | Some y \<Rightarrow> Inr y)"

text \<open>\<open>toPointer\<close> of \<open>compiler/diagnostics.ts\<close>; a number is a segment too.\<close>

datatype segment = Key jstr | Index nat

fun escape_segment :: "jstr \<Rightarrow> jstr" where
  "escape_segment [] = []"
| "escape_segment (c # s) =
     (if c = 126 then [126, 48] else if c = 47 then [126, 49] else [c]) @ escape_segment s"

fun segment_text :: "segment \<Rightarrow> jstr" where
  "segment_text (Key k) = k"
| "segment_text (Index n) = show_nat n"

definition to_pointer :: "segment list \<Rightarrow> jstr" where
  "to_pointer path = concat (map (\<lambda>s. 47 # escape_segment (segment_text s)) path)"

text \<open>\<open>parseStandardElementId\<close>: the name in a synthetic id of a standard element.\<close>

definition parse_standard_element :: "jstr \<Rightarrow> jstr option" where
  "parse_standard_element i =
     (case split_on 35 i of
        [owner, name] \<Rightarrow> if uuid_text owner \<and> name \<noteq> [] \<and> 46 \<notin> set name then Some name else None
      | _ \<Rightarrow> None)"

text \<open>\<open>standardLogicalName\<close>\<close>

definition standard_logical_name :: "bool \<Rightarrow> standard_def \<Rightarrow> jstr" where
  "standard_logical_name camel d =
     (if camel \<or> sd_name d = js ''ref'' then sd_name d else to_snake_case (sd_name d))"

subsection \<open>Look-ups\<close>

text \<open>The maps of objects hold the last of equal keys.\<close>

definition object_by_id :: "move_context \<Rightarrow> jstr \<Rightarrow> posting_object option" where
  "object_by_id cx i = find (\<lambda>ob. po_id ob = i) (rev (cx_objects cx))"

definition object_by_key :: "move_context \<Rightarrow> metadata_kind \<times> jstr \<Rightarrow> posting_object option" where
  "object_by_key cx k = find (\<lambda>ob. po_key ob = k) (rev (cx_objects cx))"

definition role_name :: "reference_role \<Rightarrow> jstr" where
  "role_name r =
     (case r of PostingRegister \<Rightarrow> js ''posting.register'' | PostingSection \<Rightarrow> js ''posting.tabularSection''
      | PostingDocField \<Rightarrow> js ''posting.docField'' | PostingRowField \<Rightarrow> js ''posting.rowField''
      | PostingRegisterField \<Rightarrow> js ''posting.registerField'' | PostingBlock \<Rightarrow> js ''posting.movementsBlock'')"

definition lookup_reference :: "move_context \<Rightarrow> jstr \<Rightarrow> jstr \<Rightarrow> reference_role \<Rightarrow> nat option \<Rightarrow> jstr + jstr" where
  "lookup_reference cx file pointer role spot =
     must (role_name role @ js '' at '' @ file @ pointer) (cx_resolved cx file pointer role spot)"

definition table_for :: "move_context \<Rightarrow> jstr \<Rightarrow> jstr option \<Rightarrow> jstr + move_table" where
  "table_for cx object sect =
     must (js ''table of '' @ object @ (case sect of None \<Rightarrow> [] | Some s \<Rightarrow> 47 # s))
       (find (\<lambda>t. mt_object t = object \<and> mt_section t = sect \<and> mt_part t = None) (cx_tables cx))"

definition standard_columns :: "move_context \<Rightarrow> move_table \<Rightarrow> standard_def list \<Rightarrow> jstr \<Rightarrow> jstr + move_column list" where
  "standard_columns cx t defs name =
     bindE (must (js ''standard '' @ name) (find (\<lambda>d. sd_name d = name) defs)) (\<lambda>d.
       Inr (filter (\<lambda>c. mc_standard c = Some (standard_logical_name (cx_camel cx) d)) (mt_columns t)))"

definition element_columns :: "move_context \<Rightarrow> move_table \<Rightarrow> standard_def list \<Rightarrow> jstr \<Rightarrow> jstr + move_column list" where
  "element_columns cx t defs element =
     bindE (case parse_standard_element element of
              None \<Rightarrow> Inr (filter (\<lambda>c. mc_element c = Some element) (mt_columns t))
            | Some name \<Rightarrow> standard_columns cx t defs name) (\<lambda>cs.
       if cs = [] then Inl (js ''internal: column '' @ element) else Inr cs)"

definition column_ref :: "move_column \<Rightarrow> jstr" where
  "column_ref c = quote_ident (mc_name c)"

definition qualified_table :: "move_table \<Rightarrow> jstr" where
  "qualified_table t = quote_ident (mt_schema t) @ 46 # quote_ident (mt_name t)"

text \<open>\<open>key\<close>: the first column of a standard attribute; reading it of no column idx a \<open>TypeError\<close>.\<close>

definition key_column :: "move_context \<Rightarrow> move_table \<Rightarrow> standard_def list \<Rightarrow> jstr \<Rightarrow> jstr + jstr" where
  "key_column cx t defs name =
     bindE (standard_columns cx t defs name) (\<lambda>cs.
       case cs of [] \<Rightarrow> Inl (js ''TypeError'') | c # _ \<Rightarrow> Inr (column_ref c))"

text \<open>\<open>resultColumns\<close>: what the shell fills and the singleton key are left out.\<close>

definition result_columns :: "move_context \<Rightarrow> posting_object \<Rightarrow> move_table \<Rightarrow> move_column list" where
  "result_columns cx register t =
     (let defs = (case po_singleton register of None \<Rightarrow> [] | Some d \<Rightarrow> [d]) @ po_standard register;
          shell = map (standard_logical_name (cx_camel cx)) (filter (\<lambda>d. sd_shell d \<or> sd_singleton d) defs)
      in filter (\<lambda>c. mc_scope c = None \<and> (case mc_standard c of None \<Rightarrow> True | Some s \<Rightarrow> s \<notin> set shell)) (mt_columns t))"

subsection \<open>Expressions\<close>

text \<open>
  \<open>ExpressionTranslator\<close>: operations inside operations stand in parentheses. The list of the
  columns of a name idx not empty; \<open>undefined\<close> idx what a template would make of an empty one.
\<close>

type_synonym resolver = "expr \<Rightarrow> jstr + jstr list"

definition wrap_sql :: "bool \<Rightarrow> jstr \<Rightarrow> jstr" where
  "wrap_sql nested s = (if nested then 40 # s @ [41] else s)"

definition sql_operator :: "binary_op \<Rightarrow> jstr" where
  "sql_operator p =
     (case p of Add \<Rightarrow> js ''+'' | Sub \<Rightarrow> js ''-'' | Mul \<Rightarrow> js ''*'' | Div \<Rightarrow> js ''/''
      | Eq \<Rightarrow> js ''IS NOT DISTINCT FROM'' | Ne \<Rightarrow> js ''IS DISTINCT FROM''
      | Lt \<Rightarrow> js ''<'' | Le \<Rightarrow> js ''<='' | Gt \<Rightarrow> js ''>'' | Ge \<Rightarrow> js ''>=''
      | And \<Rightarrow> js ''AND'' | Or \<Rightarrow> js ''OR'')"

definition last_text :: "jstr list \<Rightarrow> jstr" where
  "last_text xs = (if xs = [] then js ''undefined'' else last xs)"

definition first_text :: "jstr list \<Rightarrow> jstr" where
  "first_text xs = (case xs of [] \<Rightarrow> js ''undefined'' | x # _ \<Rightarrow> x)"

fun node_sql :: "resolver \<Rightarrow> bool \<Rightarrow> expr \<Rightarrow> jstr + jstr" where
  "node_sql f nested (Field b n fs s e) = bindE (f (Field b n fs s e)) (\<lambda>xs. Inr (last_text xs))"
| "node_sql f nested (Sum sn fn ss fs s e) = bindE (f (Sum sn fn ss fs s e)) (\<lambda>xs. Inr (first_text xs))"
| "node_sql f nested (Count sn ss s e) = bindE (f (Count sn ss s e)) (\<lambda>xs. Inr (first_text xs))"
| "node_sql f nested (Number v s e) = Inr v"
| "node_sql f nested (Str v s e) = Inr (sql_literal v)"
| "node_sql f nested (Boolean v s e) = Inr (if v then js ''true'' else js ''false'')"
| "node_sql f nested (Null s e) = Inr (js ''NULL'')"
| "node_sql f nested (Unary p x s e) =
     bindE (node_sql f True x) (\<lambda>x. Inr (wrap_sql nested ((case p of Not \<Rightarrow> js ''NOT '' | Neg \<Rightarrow> js ''-'') @ x)))"
| "node_sql f nested (Binary p l r s e) =
     (if p = Div then
        bindE (node_sql f False l) (\<lambda>l. bindE (node_sql f True r) (\<lambda>r.
          Inr (wrap_sql nested (40 # l @ js '')::numeric / '' @ r))))
      else
        bindE (node_sql f True l) (\<lambda>l. bindE (node_sql f True r) (\<lambda>r.
          Inr (wrap_sql nested (l @ 32 # sql_operator p @ 32 # r)))))"

text \<open>\<open>translate\<close>: a bare field gives all its columns.\<close>

definition translate_expression :: "resolver \<Rightarrow> jstr \<Rightarrow> jstr \<Rightarrow> jstr + expr \<times> jstr list" where
  "translate_expression f source pointer =
     (case parse_expression source of
        ParseOk x \<Rightarrow>
          bindE (case x of Field b n fs s e \<Rightarrow> f x | _ \<Rightarrow> bindE (node_sql f False x) (\<lambda>q. Inr [q])) (\<lambda>qs. Inr (x, qs))
      | _ \<Rightarrow> Inl (js ''internal: unparsed '' @ pointer))"

text \<open>\<open>assign\<close>: the columns of an expression as the values of the columns of a field.\<close>

definition is_null :: "expr \<Rightarrow> bool" where
  "is_null x = (case x of Null s e \<Rightarrow> True | _ \<Rightarrow> False)"

definition assign_columns ::
  "move_column list \<Rightarrow> expr \<Rightarrow> jstr list \<Rightarrow> (jstr + jstr) \<Rightarrow> jstr + jstr list"
where
  "assign_columns targets x sources discriminator =
     (if is_null x then Inr (map (\<lambda>t. js ''NULL::'' @ mc_type t) targets)
      else if length targets = length sources then Inr sources
      else if length targets = 2 \<and> length sources = 1 then bindE discriminator (\<lambda>d. Inr [d, hd sources])
      else if length targets = 1 \<and> length sources = 2 then Inr [sources ! 1]
      else Inl (js ''internal: '' @ show_nat (length sources) @ js '' value columns for ''
             @ show_nat (length targets) @ js '' field columns''))"

subsection \<open>The query of a movement\<close>

text \<open>\<open>kindLabel\<close> and \<open>discriminator\<close>; reading the kind of a target that an attribute does not have idx a \<open>TypeError\<close>.\<close>

definition kind_label :: "posting_object \<Rightarrow> jstr + jstr" where
  "kind_label ob = must (js ''kindLabel of '' @ snd (po_key ob)) (po_label ob)"

definition discriminator_of :: "move_context \<Rightarrow> posting_object \<Rightarrow> expr \<Rightarrow> jstr \<Rightarrow> jstr + jstr" where
  "discriminator_of cx doc x pointer =
     (case x of
        Field b n fs s e \<Rightarrow>
          bindE (lookup_reference cx (po_file doc) pointer (if b = Row then PostingRowField else PostingDocField) (Some (s_start fs))) (\<lambda>i.
          if parse_standard_element i \<noteq> None then bindE (kind_label doc) (\<lambda>l. Inr (sql_literal l))
          else
            bindE (must (js ''attribute '' @ i) (find (\<lambda>a. fst a = i) (po_attributes doc))) (\<lambda>a.
            case snd a of
              None \<Rightarrow> Inl (js ''TypeError'')
            | Some r \<Rightarrow>
                bindE (must (js ''target of '' @ i) (object_by_key cx (ref_kind r, ref_name r))) (\<lambda>t.
                bindE (kind_label t) (\<lambda>l. Inr (sql_literal l)))))
      | _ \<Rightarrow> Inl (js ''internal: polymorphic value at '' @ pointer))"

text \<open>The tables of a movement: the document with its key, and the table of the rows.\<close>

record move_tables =
  tb_document :: move_table
  tb_key :: jstr
  tb_rows :: "move_table option"

definition document_key :: "move_tables \<Rightarrow> jstr" where
  "document_key tb = js ''d.'' @ tb_key tb"

definition aggregate_source ::
  "move_context \<Rightarrow> posting_object \<Rightarrow> move_tables \<Rightarrow> jstr \<Rightarrow> span \<Rightarrow> jstr + move_table \<times> jstr"
where
  "aggregate_source cx doc tb pointer ss =
     bindE (lookup_reference cx (po_file doc) pointer PostingSection (Some (s_start ss))) (\<lambda>sect.
     bindE (table_for cx (po_id doc) (Some sect)) (\<lambda>t.
     bindE (key_column cx t (po_rows doc) (js ''parent'')) (\<lambda>k.
       Inr (t, js ''FROM '' @ qualified_table t @ js '' t WHERE t.'' @ k @ js '' = '' @ document_key tb))))"

definition resolve_name :: "move_context \<Rightarrow> posting_object \<Rightarrow> move_tables \<Rightarrow> jstr \<Rightarrow> resolver" where
  "resolve_name cx doc tb pointer x =
     (case x of
        Field b n fs s e \<Rightarrow>
          bindE (lookup_reference cx (po_file doc) pointer (if b = Row then PostingRowField else PostingDocField) (Some (s_start fs))) (\<lambda>i.
          bindE (if b = Row then (case tb_rows tb of None \<Rightarrow> Inl (js ''TypeError'') | Some t \<Rightarrow> Inr t) else Inr (tb_document tb)) (\<lambda>t.
          bindE (element_columns cx t (if b = Row then po_rows doc else po_standard doc) i) (\<lambda>cs.
            Inr (map (\<lambda>c. (if b = Row then js ''r.'' else js ''d.'') @ column_ref c) cs))))
      | Sum sn fn ss fs s e \<Rightarrow>
          bindE (aggregate_source cx doc tb pointer ss) (\<lambda>(t, src).
          bindE (lookup_reference cx (po_file doc) pointer PostingRowField (Some (s_start fs))) (\<lambda>i.
          bindE (element_columns cx t (po_rows doc) i) (\<lambda>cs.
            Inr [js ''(SELECT COALESCE(sum(t.'' @ column_ref (hd cs) @ js ''), 0) '' @ src @ js '')''])))
      | Count sn ss s e \<Rightarrow>
          bindE (aggregate_source cx doc tb pointer ss) (\<lambda>(t, src). Inr [js ''(SELECT count(*) '' @ src @ js '')''])
      | _ \<Rightarrow> Inr [])"

text \<open>\<open>truncation\<close>\<close>

definition truncation :: "posting_object \<Rightarrow> jstr option" where
  "truncation register =
     (case po_periodicity register of
        None \<Rightarrow> None
      | Some p \<Rightarrow> if p = js ''NonPeriodic'' then None else Some (to_lower p))"

definition join_comma :: "jstr list \<Rightarrow> jstr" where
  "join_comma = join_with (js '', '')"

text \<open>The values of the columns of the result by the names of the columns, in the order of the code.\<close>

type_synonym column_values = "(jstr \<times> jstr) list"

definition expression_text ::
  "move_context \<Rightarrow> posting_object \<Rightarrow> move_tables \<Rightarrow> segment list \<Rightarrow> jstr \<Rightarrow> jstr + jstr"
where
  "expression_text cx doc tb path source =
     bindE (translate_expression (resolve_name cx doc tb (to_pointer path)) source (to_pointer path)) (\<lambda>(_, qs).
       Inr (join_comma qs))"

definition register_column ::
  "move_context \<Rightarrow> posting_object \<Rightarrow> move_table \<Rightarrow> string \<Rightarrow> jstr + move_column option"
where
  "register_column cx register t name =
     (if list_ex (\<lambda>d. sd_name d = js name) (po_standard register)
      then bindE (standard_columns cx t (po_standard register) (js name)) (\<lambda>cs. Inr (case cs of [] \<Rightarrow> None | c # _ \<Rightarrow> Some c))
      else Inr None)"

definition period_value ::
  "move_context \<Rightarrow> posting_object \<Rightarrow> posting_object \<Rightarrow> move_tables \<Rightarrow> move_table \<Rightarrow> segment list \<Rightarrow> movement \<Rightarrow> jstr + column_values"
where
  "period_value cx doc register tb rt base mv =
     bindE (register_column cx register rt ''period'') (\<lambda>col.
       case col of
         None \<Rightarrow> Inr []
       | Some c \<Rightarrow>
           bindE (case mv_period mv of
                    Some x \<Rightarrow> expression_text cx doc tb (base @ [Key (js ''period'')]) x
                  | None \<Rightarrow> bindE (key_column cx (tb_document tb) (po_standard doc) (js ''date'')) (\<lambda>k. Inr (js ''d.'' @ k))) (\<lambda>moment.
           Inr [(mc_name c,
             case truncation register of
               None \<Rightarrow> moment
             | Some u \<Rightarrow> js ''date_trunc('' @ 39 # u @ 39 # js '', '' @ moment @ js '', '' @ sql_literal (cx_timezone cx) @ js '')'')]))"

definition type_value ::
  "move_context \<Rightarrow> posting_object \<Rightarrow> posting_object \<Rightarrow> move_tables \<Rightarrow> move_table \<Rightarrow> segment list \<Rightarrow> movement \<Rightarrow> jstr + column_values"
where
  "type_value cx doc register tb rt base mv =
     bindE (register_column cx register rt ''movementType'') (\<lambda>col.
       case (col, mv_type mv) of
         (Some c, Some x) \<Rightarrow>
           bindE (if x = js ''Receipt'' \<or> x = js ''Expense'' then Inr (sql_literal x)
                  else expression_text cx doc tb (base @ [Key (js ''movementType'')]) x) (\<lambda>q.
           Inr [(mc_name c, q)])
       | _ \<Rightarrow> Inr [])"

definition field_value ::
  "move_context \<Rightarrow> posting_object \<Rightarrow> move_tables \<Rightarrow> move_table \<Rightarrow> segment list \<Rightarrow> jstr \<times> jstr \<Rightarrow> jstr + column_values"
where
  "field_value cx doc tb rt base f =
     (let pointer = to_pointer (base @ [Key (js ''fields''), Key (fst f)])
      in bindE (lookup_reference cx (po_file doc) pointer PostingRegisterField None) (\<lambda>i.
         bindE (element_columns cx rt [] i) (\<lambda>targets.
         bindE (translate_expression (resolve_name cx doc tb pointer) (snd f) pointer) (\<lambda>(x, qs).
         bindE (assign_columns targets x qs (discriminator_of cx doc x pointer)) (\<lambda>vs.
           Inr (zip (map mc_name targets) vs))))))"

definition set_values :: "column_values \<Rightarrow> column_values \<Rightarrow> column_values" where
  "set_values new old = fold (\<lambda>(k, v). AList.update k v) new old"

definition movement_values ::
  "move_context \<Rightarrow> posting_object \<Rightarrow> posting_object \<Rightarrow> move_tables \<Rightarrow> nat \<Rightarrow> movement \<Rightarrow> jstr + column_values"
where
  "movement_values cx doc register tb index mv =
     (let base = [Key (js ''posting''), Key (js ''movements''), Index index]
      in bindE (table_for cx (po_id register) None) (\<lambda>rt.
         bindE (period_value cx doc register tb rt base mv) (\<lambda>period.
         bindE (type_value cx doc register tb rt base mv) (\<lambda>mtype.
         bindE (mapE (field_value cx doc tb rt base) (mv_fields mv)) (\<lambda>fields.
           Inr (fold set_values (period # mtype # fields) []))))))"

text \<open>The tables that a movement reads.\<close>

definition movement_tables :: "move_context \<Rightarrow> posting_object \<Rightarrow> nat \<Rightarrow> movement \<Rightarrow> jstr + move_tables" where
  "movement_tables cx doc index mv =
     bindE (table_for cx (po_id doc) None) (\<lambda>dt.
     bindE (if mv_section mv then
              bindE (lookup_reference cx (po_file doc)
                (to_pointer [Key (js ''posting''), Key (js ''movements''), Index index, Key (js ''source''), Key (js ''tabularSection'')])
                PostingSection None) (\<lambda>sect.
              bindE (table_for cx (po_id doc) (Some sect)) (\<lambda>t. Inr (Some t)))
            else Inr None) (\<lambda>rows.
     bindE (key_column cx dt (po_standard doc) (js ''ref'')) (\<lambda>k.
       Inr \<lparr>tb_document = dt, tb_key = k, tb_rows = rows\<rparr>)))"

definition value_item :: "column_values \<Rightarrow> move_column \<Rightarrow> jstr" where
  "value_item values c =
     (case map_of values (mc_name c) of None \<Rightarrow> js ''NULL::'' @ mc_type c | Some v \<Rightarrow> v) @ js '' AS '' @ quote_ident (mc_name c)"

definition movement_select ::
  "move_context \<Rightarrow> posting_object \<Rightarrow> posting_object \<Rightarrow> move_column list \<Rightarrow> jstr \<Rightarrow> nat \<Rightarrow> movement \<Rightarrow> jstr + jstr"
where
  "movement_select cx doc register columns name index mv =
     bindE (movement_tables cx doc index mv) (\<lambda>tb.
     bindE (movement_values cx doc register tb index mv) (\<lambda>values.
     bindE (case tb_rows tb of None \<Rightarrow> Inr (js ''0'')
            | Some r \<Rightarrow> bindE (key_column cx r (po_rows doc) (js ''lineNumber'')) (\<lambda>k. Inr (js ''r.'' @ k))) (\<lambda>line.
     bindE (case tb_rows tb of None \<Rightarrow> Inr (js ''  FROM '' @ qualified_table (tb_document tb) @ js '' d'')
            | Some r \<Rightarrow> bindE (key_column cx r (po_rows doc) (js ''parent'')) (\<lambda>k.
                Inr (js ''  FROM '' @ qualified_table r @ js '' r'' @ 10 # js ''  JOIN '' @ qualified_table (tb_document tb)
                  @ js '' d ON '' @ document_key tb @ js '' = r.'' @ k))) (\<lambda>src.
     bindE (case mv_condition mv of None \<Rightarrow> Inr []
            | Some x \<Rightarrow> bindE (expression_text cx doc tb [Key (js ''posting''), Key (js ''movements''), Index index, Key (js ''condition'')] x)
                (\<lambda>q. Inr [js ''    AND ('' @ q @ js '')''])) (\<lambda>condition.
       Inr (join_with [10]
         ([js ''  SELECT '' @ join_comma (map (value_item values) columns
              @ [show_nat index @ js '' AS __movement'', line @ js '' AS __line'']),
           src,
           js ''  WHERE '' @ document_key tb @ js '' = '' @ quote_ident name @ js ''.p_document_id''] @ condition)))))))"

text \<open>\<open>translate\<close>: the movements of one register; the outer query restores their order.\<close>

definition translate_movements ::
  "move_context \<Rightarrow> posting_object \<Rightarrow> posting_object \<Rightarrow> nat list \<Rightarrow> move_column list \<Rightarrow> jstr \<Rightarrow> jstr + jstr"
where
  "translate_movements cx doc register indexes columns name =
     bindE (mapE (\<lambda>i. movement_select cx doc register columns name i (po_movements doc ! i)) indexes) (\<lambda>selects.
       Inr (js ''SELECT '' @ join_comma (map (\<lambda>c. js ''m.'' @ quote_ident (mc_name c)) columns) @ 10 # js ''FROM ('' @ 10
         # join_with (10 # js ''  UNION ALL'' @ [10]) selects @ 10 # js '') m'' @ 10 # js ''ORDER BY m.__movement, m.__line''))"

subsection \<open>The wrapper\<close>

text \<open>\<open>dollarTag\<close>: the loop has no bound in the code.\<close>

definition dollar_candidate :: "nat \<Rightarrow> jstr" where
  "dollar_candidate n = (if n = 0 then js ''$simetra$'' else js ''$simetra_'' @ show_nat n @ js ''$'')"

definition dollar_tag :: "jstr \<Rightarrow> jstr option" where
  "dollar_tag body = search_from dollar_candidate (\<lambda>tag. sublist tag body) 0"

text \<open>\<open>movementWrapperName\<close> and the statement that creates the function.\<close>

definition movement_wrapper_name :: "move_table \<Rightarrow> move_table \<Rightarrow> jstr" where
  "movement_wrapper_name doc register = make_object_name (mt_name doc) (Some (mt_name register)) (js ''movements'')"

definition wrapper_head :: "move_table \<Rightarrow> jstr \<Rightarrow> move_column list \<Rightarrow> jstr" where
  "wrapper_head doc name columns =
     js ''CREATE OR REPLACE FUNCTION '' @ quote_ident (mt_schema doc) @ 46 # quote_ident name @ js ''(p_document_id uuid)'' @ 10
     # js ''RETURNS TABLE ('' @ join_comma (map (\<lambda>c. quote_ident (mc_name c) @ 32 # mc_type c) columns) @ js '')'' @ 10
     # js ''LANGUAGE sql STABLE SET search_path = '' @ 39 # 39 # 10 # js ''AS ''"

definition wrapper_sql :: "move_table \<Rightarrow> jstr \<Rightarrow> move_column list \<Rightarrow> jstr \<Rightarrow> jstr option" where
  "wrapper_sql doc name columns body =
     map_option (\<lambda>tag. wrapper_head doc name columns @ tag @ 10 # body @ 10 # tag @ js '';'') (dollar_tag body)"

record movement_unit =
  mu_schema :: jstr
  mu_name :: jstr
  mu_document :: jstr
  mu_register :: jstr
  mu_constructor :: bool
  mu_text :: jstr
  mu_sql :: jstr

definition unit_for ::
  "move_context \<Rightarrow> posting_object \<Rightarrow> jstr \<Rightarrow> bool \<Rightarrow> (posting_object \<Rightarrow> move_column list \<Rightarrow> jstr \<Rightarrow> jstr + jstr) \<Rightarrow> jstr + movement_unit"
where
  "unit_for cx doc register constructor body =
     bindE (table_for cx (po_id doc) None) (\<lambda>dt.
     bindE (must (js ''register '' @ register) (object_by_id cx register)) (\<lambda>r.
     bindE (table_for cx register None) (\<lambda>rt.
       let columns = result_columns cx r rt; name = movement_wrapper_name dt rt
       in bindE (body r columns name) (\<lambda>q.
          case wrapper_sql dt name columns q of
            None \<Rightarrow> Inl (js ''no tag'')
          | Some w \<Rightarrow> Inr \<lparr>mu_schema = mt_schema dt, mu_name = name, mu_document = po_id doc, mu_register = register,
              mu_constructor = constructor, mu_text = q, mu_sql = w\<rparr>))))"

text \<open>The movements of a document by register, registers in the order of their first movement.\<close>

definition group_movements :: "(nat \<times> jstr) list \<Rightarrow> (jstr \<times> nat list) list" where
  "group_movements xs =
     fold (\<lambda>(i, r) m. AList.update r ((case map_of m r of None \<Rightarrow> [] | Some idx \<Rightarrow> idx) @ [i]) m) xs []"

definition document_units :: "move_context \<Rightarrow> posting_object \<Rightarrow> jstr + movement_unit list" where
  "document_units cx doc =
     bindE (mapE (\<lambda>(file, line, q).
       bindE (lookup_reference cx file [] PostingBlock (Some line)) (\<lambda>register.
         unit_for cx doc register False (\<lambda>_ _ _. Inr q))) (po_blocks doc)) (\<lambda>blocks.
     bindE (mapE (\<lambda>i. bindE (lookup_reference cx (po_file doc)
         (to_pointer [Key (js ''posting''), Key (js ''movements''), Index i, Key (js ''register'')]) PostingRegister None) (\<lambda>r. Inr (i, r)))
       [0..<length (po_movements doc)]) (\<lambda>targets.
     bindE (mapE (\<lambda>(register, idx). unit_for cx doc register True
         (\<lambda>r columns name. translate_movements cx doc r idx columns name)) (group_movements targets)) (\<lambda>units.
       Inr (blocks @ units))))"

text \<open>\<open>buildMovementFunctions\<close>: the identity of a unit comes src its parsed signature.\<close>

definition build_movement_functions :: "(movement_unit \<Rightarrow> jstr) \<Rightarrow> move_context \<Rightarrow> jstr + movement_unit list" where
  "build_movement_functions identity cx =
     bindE (mapE (document_units cx) (cx_objects cx)) (\<lambda>units. Inr (sort_key identity (concat units)))"

end
