(* ===== verification/MovementCheck.thy ===== *)
theory MovementCheck
  imports MovementSql
begin

section \<open>The check of movements\<close>

text \<open>
  \<open>checkPosting\<close> of \<open>compiler/stages/integrity.ts\<close> for one movement of a document: the sources of its
  expressions, their types, the required fields of the register. What the registry of kinds says
  of standard columns is part of the document and the register here; a target that is no
  register was refused by the caller.
\<close>

subsection \<open>Documents and registers\<close>

datatype standard_target = SelfTarget | OwnerTarget | UsersTarget | OtherTarget

text \<open>A standard column; a raw type is \<open>None\<close>.\<close>

record typed_column =
  tc_name :: jstr
  tc_type :: "logical_type option"
  tc_target :: "standard_target option"

type_synonym declared_attribute = "jstr option \<times> value_type"

record checked_document =
  cd_id :: jstr
  cd_file :: jstr
  cd_standard :: "typed_column list"
  cd_attributes :: "declared_attribute list"
  cd_rows :: "typed_column list"
  cd_sections :: "(jstr option \<times> declared_attribute list) list"

record register_field =
  rg_name :: jstr
  rg_required :: bool
  rg_type :: value_type

record checked_register =
  cr_name :: jstr
  cr_columns :: "jstr list"
  cr_additive :: bool
  cr_dimensions :: "register_field list"
  cr_resources :: "register_field list"
  cr_attributes :: "register_field list"

text \<open>
  What the check looks up: the id of an object by its reference, the catalog of users, the
  resolved names by file, pointer and start of the name.
\<close>

record check_context =
  ck_id_of :: "metadata_ref \<Rightarrow> jstr option"
  ck_users :: "jstr option"
  ck_resolved :: "jstr \<Rightarrow> jstr \<Rightarrow> nat \<Rightarrow> jstr option"

datatype issue_param = PText jstr | PNumber nat

record posting_issue =
  is_code :: string
  is_pointer :: jstr
  is_params :: "(string \<times> issue_param) list"

definition issue_at :: "string \<Rightarrow> jstr \<Rightarrow> (string \<times> issue_param) list \<Rightarrow> posting_issue" where
  "issue_at c p ps = \<lparr>is_code = c, is_pointer = p, is_params = ps\<rparr>"

subsection \<open>Types of names\<close>

text \<open>\<open>typeOfField\<close>: a reference to an object that is not in the model is unknown.\<close>

definition type_of_field :: "check_context \<Rightarrow> value_type \<Rightarrow> inferred_type" where
  "type_of_field ck v =
     (let refs = (case vref v of Some r \<Rightarrow> [r] | None \<Rightarrow> (case vallowed v of Some rs \<Rightarrow> rs | None \<Rightarrow> []));
          targets = map (ck_id_of ck) refs
      in if None \<in> set targets then IUnknown
         else type_of_logical (vtype v) (map the targets) (varray v = Some True) (vallowed v \<noteq> None))"

text \<open>\<open>standardType\<close>\<close>

definition standard_type :: "check_context \<Rightarrow> jstr \<Rightarrow> typed_column \<Rightarrow> jstr option \<Rightarrow> inferred_type" where
  "standard_type ck owner c self =
     (case tc_type c of
        None \<Rightarrow> IUnknown
      | Some t \<Rightarrow>
          (case tc_target c of
             Some SelfTarget \<Rightarrow> (case self of None \<Rightarrow> IUnknown | Some i \<Rightarrow> IRef [i] False)
           | Some OwnerTarget \<Rightarrow> IRef [owner] False
           | Some UsersTarget \<Rightarrow> (case ck_users ck of None \<Rightarrow> IUnknown | Some i \<Rightarrow> IRef [i] False)
           | Some OtherTarget \<Rightarrow> IUnknown
           | None \<Rightarrow> type_of_logical t [] False False))"

text \<open>\<open>standardElementId\<close>\<close>

definition standard_element_id :: "jstr \<Rightarrow> typed_column \<Rightarrow> jstr" where
  "standard_element_id owner c = owner @ 35 # tc_name c"

definition attribute_types :: "check_context \<Rightarrow> declared_attribute list \<Rightarrow> (jstr \<times> inferred_type) list" where
  "attribute_types ck as = List.map_filter (\<lambda>(i, v). map_option (\<lambda>i. (i, type_of_field ck v)) i) as"

text \<open>\<open>elementTypes\<close>, the last entry of an id first.\<close>

definition element_types :: "check_context \<Rightarrow> checked_document \<Rightarrow> (jstr \<times> inferred_type) list" where
  "element_types ck d =
     rev (map (\<lambda>c. (standard_element_id (cd_id d) c, standard_type ck (cd_id d) c (Some (cd_id d)))) (cd_standard d)
       @ attribute_types ck (cd_attributes d)
       @ concat (map (\<lambda>(i, as). case i of
            None \<Rightarrow> []
          | Some i \<Rightarrow> map (\<lambda>c. (standard_element_id i c, standard_type ck (cd_id d) c None)) (cd_rows d) @ attribute_types ck as)
          (cd_sections d)))"

definition name_spot :: "expr \<Rightarrow> nat" where
  "name_spot x = (case x of Field b n fs s e \<Rightarrow> s_start fs | Sum sn fn ss fs s e \<Rightarrow> s_start fs | _ \<Rightarrow> 0)"

definition name_type :: "check_context \<Rightarrow> checked_document \<Rightarrow> jstr \<Rightarrow> expr \<Rightarrow> inferred_type" where
  "name_type ck d pointer x =
     (case ck_resolved ck (cd_file d) pointer (name_spot x) of
        None \<Rightarrow> IUnknown
      | Some i \<Rightarrow> (case map_of (element_types ck d) i of None \<Rightarrow> IUnknown | Some t \<Rightarrow> t))"

subsection \<open>Expressions of a movement\<close>

text \<open>\<open>expression\<close>: the expression of a text and the issues of its source; a text that does not parse was reported before.\<close>

definition source_issue :: "bool \<Rightarrow> jstr \<Rightarrow> expr \<Rightarrow> posting_issue list" where
  "source_issue document pointer n =
     (case n of
        Field Row m fs s e \<Rightarrow>
          if document then [issue_at ''posting.row-in-document-source'' pointer [(''offset'', PNumber s)]] else []
      | Sum sn fn ss fs s e \<Rightarrow>
          if document then [] else [issue_at ''posting.aggregate-in-section-source'' pointer [(''offset'', PNumber s)]]
      | Count sn ss s e \<Rightarrow>
          if document then [] else [issue_at ''posting.aggregate-in-section-source'' pointer [(''offset'', PNumber s)]]
      | _ \<Rightarrow> [])"

definition checked_expression :: "bool \<Rightarrow> jstr option \<Rightarrow> jstr \<Rightarrow> expr option \<times> posting_issue list" where
  "checked_expression document src pointer =
     (case src of
        None \<Rightarrow> (None, [])
      | Some q \<Rightarrow>
          (case parse_expression q of
             ParseOk x \<Rightarrow>
               (let found = concat (map (source_issue document pointer) (walk_expr x))
                in (if found = [] then Some x else None, found))
           | _ \<Rightarrow> (None, [])))"

definition type_mismatch :: "jstr \<Rightarrow> jstr \<Rightarrow> inferred_type \<Rightarrow> nat \<Rightarrow> posting_issue" where
  "type_mismatch pointer wanted actual offset =
     issue_at ''posting.type-mismatch'' pointer
       [(''expected'', PText wanted), (''actual'', PText (describe_type actual)), (''offset'', PNumber offset)]"

text \<open>\<open>typeAt\<close>\<close>

definition type_at :: "check_context \<Rightarrow> checked_document \<Rightarrow> jstr \<Rightarrow> expr \<Rightarrow> inferred_type \<times> posting_issue list" where
  "type_at ck d pointer x =
     (case infer_type (name_type ck d pointer) x of
        (errors, t) \<Rightarrow> (t, map (\<lambda>e. type_mismatch pointer (oe_expected e) (oe_actual e) (e_start (oe_node e))) errors))"

text \<open>\<open>expectKind\<close>\<close>

definition expect_kind ::
  "check_context \<Rightarrow> checked_document \<Rightarrow> bool \<Rightarrow> jstr option \<Rightarrow> jstr \<Rightarrow> inferred_type \<Rightarrow> posting_issue list"
where
  "expect_kind ck d document src pointer wanted =
     (case checked_expression document src pointer of
        (None, found) \<Rightarrow> found
      | (Some x, found) \<Rightarrow>
          (case type_at ck d pointer x of
             (t, errors) \<Rightarrow>
               found @ errors
               @ (if t \<noteq> IUnknown \<and> kind_of t \<noteq> kind_of wanted
                  then [type_mismatch pointer (describe_type wanted) t (e_start x)] else [])))"

subsection \<open>One movement\<close>

definition movement_pointer :: "nat \<Rightarrow> segment list \<Rightarrow> jstr" where
  "movement_pointer index path = to_pointer ([Key (js ''posting''), Key (js ''movements''), Index index] @ path)"

definition period_issues :: "check_context \<Rightarrow> checked_document \<Rightarrow> checked_register \<Rightarrow> nat \<Rightarrow> movement \<Rightarrow> posting_issue list" where
  "period_issues ck d r index mv =
     (let pointer = movement_pointer index [Key (js ''period'')]
      in if mv_period mv \<noteq> None \<and> js ''period'' \<notin> set (cr_columns r)
         then [issue_at ''posting.period-not-allowed'' pointer [(''register'', PText (cr_name r))]]
         else expect_kind ck d (\<not> mv_section mv) (mv_period mv) pointer IDate)"

definition type_issue :: "jstr \<Rightarrow> string \<Rightarrow> (string \<times> issue_param) list \<Rightarrow> posting_issue" where
  "type_issue pointer problem ps = issue_at ''posting.movement-type'' pointer ((''problem'', PText (js problem)) # ps)"

definition movement_type_issues :: "check_context \<Rightarrow> checked_document \<Rightarrow> checked_register \<Rightarrow> nat \<Rightarrow> movement \<Rightarrow> posting_issue list" where
  "movement_type_issues ck d r index mv =
     (let pointer = movement_pointer index [Key (js ''movementType'')]; has = js ''movementType'' \<in> set (cr_columns r)
      in case mv_type mv of
           None \<Rightarrow> if has then [type_issue (movement_pointer index []) ''missing'' [(''register'', PText (cr_name r))]] else []
         | Some q \<Rightarrow>
             if \<not> has then [type_issue pointer ''forbidden'' [(''register'', PText (cr_name r))]]
             else if q = js ''Receipt'' \<or> q = js ''Expense'' then []
             else (case checked_expression (\<not> mv_section mv) (Some q) pointer of
                     (None, found) \<Rightarrow> found
                   | (Some x, found) \<Rightarrow>
                       (case type_at ck d pointer x of
                          (t, errors) \<Rightarrow>
                            found @ errors
                            @ (case x of
                                 Str v s e \<Rightarrow>
                                   if v = js ''Receipt'' \<or> v = js ''Expense'' then []
                                   else [type_issue pointer ''value'' [(''value'', PText v), (''offset'', PNumber s)]]
                               | _ \<Rightarrow>
                                   if t \<noteq> IUnknown \<and> t \<noteq> IText
                                   then [type_issue pointer ''type'' [(''actual'', PText (describe_type t)), (''offset'', PNumber (e_start x))]]
                                   else []))))"

definition required_fields :: "checked_register \<Rightarrow> jstr list" where
  "required_fields r =
     map rg_name (filter rg_required (cr_dimensions r) @ filter (\<lambda>f. cr_additive r \<or> rg_required f) (cr_resources r)
       @ filter rg_required (cr_attributes r))"

definition missing_issues :: "checked_register \<Rightarrow> nat \<Rightarrow> movement \<Rightarrow> posting_issue list" where
  "missing_issues r index mv =
     (let missing = filter (\<lambda>n. \<not> has_key (mv_fields mv) n) (required_fields r)
      in if missing = [] then []
         else [issue_at ''posting.fields-incomplete'' (movement_pointer index [Key (js ''fields'')])
                 [(''missing'', PText (join_comma missing)), (''register'', PText (cr_name r))]])"

text \<open>The field of a register by its name, with whether it may be empty.\<close>

definition find_register_field :: "checked_register \<Rightarrow> jstr \<Rightarrow> (register_field \<times> bool) option" where
  "find_register_field r n =
     (case find (\<lambda>f. rg_name f = n) (cr_dimensions r) of
        Some f \<Rightarrow> Some (f, \<not> rg_required f)
      | None \<Rightarrow>
          (case find (\<lambda>f. rg_name f = n) (cr_resources r) of
             Some f \<Rightarrow> Some (f, \<not> cr_additive r \<and> \<not> rg_required f)
           | None \<Rightarrow> map_option (\<lambda>f. (f, \<not> rg_required f)) (find (\<lambda>f. rg_name f = n) (cr_attributes r))))"

definition field_issues :: "check_context \<Rightarrow> checked_document \<Rightarrow> checked_register \<Rightarrow> nat \<Rightarrow> bool \<Rightarrow> jstr \<times> jstr \<Rightarrow> posting_issue list" where
  "field_issues ck d r index document f =
     (case find_register_field r (fst f) of
        None \<Rightarrow> []
      | Some (field, nullable) \<Rightarrow>
          (let pointer = movement_pointer index [Key (js ''fields''), Key (fst f)]; wanted = type_of_field ck (rg_type field)
           in case checked_expression document (Some (snd f)) pointer of
                (None, found) \<Rightarrow> found
              | (Some x, found) \<Rightarrow>
                  (case type_at ck d pointer x of
                     (t, errors) \<Rightarrow>
                       found @ errors
                       @ (if (if t = INull then \<not> nullable else \<not> accepts wanted t)
                          then [type_mismatch pointer ((if t = INull then js ''a non-empty '' else []) @ describe_type wanted) t (e_start x)]
                          else []))))"

definition check_movement :: "check_context \<Rightarrow> checked_document \<Rightarrow> checked_register \<Rightarrow> bool \<Rightarrow> nat \<Rightarrow> movement \<Rightarrow> posting_issue list" where
  "check_movement ck d r declared index mv =
     (if declared then []
      else [issue_at ''posting.register-undeclared'' (movement_pointer index [Key (js ''register'')]) [(''name'', PText (cr_name r))]])
     @ expect_kind ck d (\<not> mv_section mv) (mv_condition mv) (movement_pointer index [Key (js ''condition'')]) IBoolean
     @ period_issues ck d r index mv
     @ movement_type_issues ck d r index mv
     @ missing_issues r index mv
     @ concat (map (field_issues ck d r index (\<not> mv_section mv)) (mv_fields mv))"

subsection \<open>What a movement without issues is\<close>

definition source_ok :: "bool \<Rightarrow> expr \<Rightarrow> bool" where
  "source_ok document x \<longleftrightarrow>
     (\<forall>n \<in> set (walk_expr x). case n of
        Field b m fs s e \<Rightarrow> document \<longrightarrow> b = Doc
      | Sum sn fn ss fs s e \<Rightarrow> document
      | Count sn ss s e \<Rightarrow> document
      | _ \<Rightarrow> True)"

text \<open>A text that parses to an expression from the right source with a type as the place wants it.\<close>

definition well_typed ::
  "check_context \<Rightarrow> checked_document \<Rightarrow> bool \<Rightarrow> jstr \<Rightarrow> jstr \<Rightarrow> (expr \<Rightarrow> inferred_type \<Rightarrow> bool) \<Rightarrow> bool"
where
  "well_typed ck d document src pointer wanted \<longleftrightarrow>
     (\<forall>x. parse_expression src = ParseOk x \<longrightarrow>
        source_ok document x \<and> (\<exists>t. typed (name_type ck d pointer) x t \<and> wanted x t))"

definition movement_valid :: "check_context \<Rightarrow> checked_document \<Rightarrow> checked_register \<Rightarrow> nat \<Rightarrow> movement \<Rightarrow> bool" where
  "movement_valid ck d r index mv \<longleftrightarrow>
     (let document = \<not> mv_section mv in
       (\<forall>q. mv_condition mv = Some q \<longrightarrow>
          well_typed ck d document q (movement_pointer index [Key (js ''condition'')]) (\<lambda>x. fits KBoolean))
     \<and> (\<forall>q. mv_period mv = Some q \<longrightarrow>
          js ''period'' \<in> set (cr_columns r)
          \<and> well_typed ck d document q (movement_pointer index [Key (js ''period'')]) (\<lambda>x. fits KDate))
     \<and> (mv_type mv = None \<longleftrightarrow> js ''movementType'' \<notin> set (cr_columns r))
     \<and> (\<forall>q. mv_type mv = Some q \<longrightarrow> q \<notin> {js ''Receipt'', js ''Expense''} \<longrightarrow>
          well_typed ck d document q (movement_pointer index [Key (js ''movementType'')])
            (\<lambda>x t. case x of Str v s e \<Rightarrow> v \<in> {js ''Receipt'', js ''Expense''} | _ \<Rightarrow> t \<in> {IText, IUnknown}))
     \<and> set (required_fields r) \<subseteq> fst ` set (mv_fields mv)
     \<and> (\<forall>(k, q) \<in> set (mv_fields mv). \<forall>f nullable. find_register_field r k = Some (f, nullable) \<longrightarrow>
          well_typed ck d document q (movement_pointer index [Key (js ''fields''), Key k])
            (\<lambda>x t. if t = INull then nullable else accepts (type_of_field ck (rg_type f)) t)))"

lemma source_issue_nil: "concat (map (source_issue document pointer) (walk_expr x)) = [] \<longleftrightarrow> source_ok document x"
proof -
  have "source_issue document pointer n = [] \<longleftrightarrow>
      (case n of Field b m fs s e \<Rightarrow> document \<longrightarrow> b = Doc | Sum sn fn ss fs s e \<Rightarrow> document | Count sn ss s e \<Rightarrow> document | _ \<Rightarrow> True)" for n
  proof (cases n)
    case (Field b m fs s e)
    then show ?thesis by (cases b) (simp_all add: source_issue_def)
  qed (simp_all add: source_issue_def)
  then show ?thesis by (simp add: source_ok_def)
qed

lemma type_at_ok:
  "snd (type_at ck d pointer x) = [] \<longleftrightarrow> typed (name_type ck d pointer) x (fst (type_at ck d pointer x))"
proof (cases "infer_type (name_type ck d pointer) x")
  case (Pair es t)
  have "es = [] \<longleftrightarrow> typed (name_type ck d pointer) x t"
  proof
    assume "es = []"
    then show "typed (name_type ck d pointer) x t" using Pair by (simp add: infer_type_def closed_type_nil infer_typed)
  next
    assume "typed (name_type ck d pointer) x t"
    from typed_infer [OF this] show "es = []" using Pair by (simp add: infer_type_def closed_type_def)
  qed
  then show ?thesis using Pair by (simp add: type_at_def)
qed

lemma typed_type_at: "typed (name_type ck d pointer) x u \<Longrightarrow> type_at ck d pointer x = (u, [])"
  by (drule typed_infer) (simp add: type_at_def infer_type_def closed_type_def)

text \<open>The shape that all checks of an expression share.\<close>

lemma expression_checked:
  assumes "\<And>x t. wanted_issues x t = [] \<longleftrightarrow> wanted x t"
  shows "(case checked_expression document (Some q) pointer of
            (None, found) \<Rightarrow> found
          | (Some x, found) \<Rightarrow> (case type_at ck d pointer x of (t, errors) \<Rightarrow> found @ errors @ wanted_issues x t)) = []
      \<longleftrightarrow> well_typed ck d document q pointer wanted"
proof (cases "parse_expression q")
  case (ParseOk x)
  let ?found = "concat (map (source_issue document pointer) (walk_expr x))"
  obtain t errors where t: "type_at ck d pointer x = (t, errors)" by fastforce
  have "(\<exists>u. typed (name_type ck d pointer) x u \<and> wanted x u) \<longleftrightarrow> errors = [] \<and> wanted x t"
  proof
    assume "\<exists>u. typed (name_type ck d pointer) x u \<and> wanted x u"
    then obtain u where u: "typed (name_type ck d pointer) x u" "wanted x u" by blast
    from typed_type_at [OF u(1)] show "errors = [] \<and> wanted x t" using t u(2) by simp
  next
    assume "errors = [] \<and> wanted x t"
    then show "\<exists>u. typed (name_type ck d pointer) x u \<and> wanted x u" using type_at_ok [of ck d pointer x] t by auto
  qed
  then show ?thesis
    using ParseOk t assms source_issue_nil [of document pointer x]
    by (auto simp: checked_expression_def well_typed_def Let_def)
qed (simp_all add: checked_expression_def well_typed_def)

lemma expect_kind_nil:
  "expect_kind ck d document (Some q) pointer k = [] \<longleftrightarrow> well_typed ck d document q pointer (\<lambda>x. fits (kind_of k))"
proof -
  have "(if t \<noteq> IUnknown \<and> kind_of t \<noteq> kind_of k then [type_mismatch pointer (describe_type k) t (e_start x)] else []) = []
      \<longleftrightarrow> fits (kind_of k) t" for x t
    by (cases t) (auto simp: fits_def)
  from expression_checked [where wanted_issues = "\<lambda>x t. if t \<noteq> IUnknown \<and> kind_of t \<noteq> kind_of k
      then [type_mismatch pointer (describe_type k) t (e_start x)] else []", OF this]
  show ?thesis unfolding expect_kind_def .
qed

lemma expect_kind_none: "expect_kind ck d document None pointer k = []"
  by (simp add: expect_kind_def checked_expression_def)

lemma period_issues_nil:
  "period_issues ck d r index mv = [] \<longleftrightarrow>
     (\<forall>q. mv_period mv = Some q \<longrightarrow> js ''period'' \<in> set (cr_columns r)
        \<and> well_typed ck d (\<not> mv_section mv) q (movement_pointer index [Key (js ''period'')]) (\<lambda>x. fits KDate))"
  by (cases "mv_period mv") (simp_all add: period_issues_def Let_def expect_kind_none expect_kind_nil)

lemma movement_type_issues_nil:
  "movement_type_issues ck d r index mv = [] \<longleftrightarrow>
     (mv_type mv = None \<longleftrightarrow> js ''movementType'' \<notin> set (cr_columns r))
     \<and> (\<forall>q. mv_type mv = Some q \<longrightarrow> q \<notin> {js ''Receipt'', js ''Expense''} \<longrightarrow>
          well_typed ck d (\<not> mv_section mv) q (movement_pointer index [Key (js ''movementType'')])
            (\<lambda>x t. case x of Str v s e \<Rightarrow> v \<in> {js ''Receipt'', js ''Expense''} | _ \<Rightarrow> t \<in> {IText, IUnknown}))"
proof (cases "mv_type mv")
  case None
  then show ?thesis by (simp add: movement_type_issues_def Let_def)
next
  case (Some q)
  let ?p = "movement_pointer index [Key (js ''movementType'')]"
  let ?more = "\<lambda>x t. case x of
        Str v s e \<Rightarrow> if v = js ''Receipt'' \<or> v = js ''Expense'' then []
          else [type_issue ?p ''value'' [(''value'', PText v), (''offset'', PNumber s)]]
      | _ \<Rightarrow> if t \<noteq> IUnknown \<and> t \<noteq> IText
          then [type_issue ?p ''type'' [(''actual'', PText (describe_type t)), (''offset'', PNumber (e_start x))]] else []"
  have "?more x t = [] \<longleftrightarrow> (case x of Str v s e \<Rightarrow> v \<in> {js ''Receipt'', js ''Expense''} | _ \<Rightarrow> t \<in> {IText, IUnknown})" for x t
    by (cases x) auto
  note exact = expression_checked [where wanted_issues = ?more and document = "\<not> mv_section mv" and q = q and pointer = ?p and ck = ck and d = d, OF this]
  show ?thesis
  proof (cases "js ''movementType'' \<in> set (cr_columns r) \<and> q \<notin> {js ''Receipt'', js ''Expense''}")
    case True
    then have "movement_type_issues ck d r index mv =
        (case checked_expression (\<not> mv_section mv) (Some q) ?p of
           (None, found) \<Rightarrow> found
         | (Some x, found) \<Rightarrow> (case type_at ck d ?p x of (t, errors) \<Rightarrow> found @ errors @ ?more x t))"
      using Some by (simp add: movement_type_issues_def Let_def)
    then show ?thesis using exact True Some by simp
  next
    case False
    then show ?thesis using Some by (auto simp: movement_type_issues_def Let_def)
  qed
qed

lemma missing_issues_nil: "missing_issues r index mv = [] \<longleftrightarrow> set (required_fields r) \<subseteq> fst ` set (mv_fields mv)"
  by (auto simp: missing_issues_def Let_def filter_empty_conv has_key_iff)

lemma field_issues_nil:
  "field_issues ck d r index document (k, q) = [] \<longleftrightarrow>
     (\<forall>f nullable. find_register_field r k = Some (f, nullable) \<longrightarrow>
        well_typed ck d document q (movement_pointer index [Key (js ''fields''), Key k])
          (\<lambda>x t. if t = INull then nullable else accepts (type_of_field ck (rg_type f)) t))"
proof (cases "find_register_field r k")
  case None
  then show ?thesis by (simp add: field_issues_def)
next
  case (Some y)
  obtain f nullable where y: "y = (f, nullable)" by fastforce
  let ?p = "movement_pointer index [Key (js ''fields''), Key k]" and ?w = "type_of_field ck (rg_type f)"
  have "(if (if t = INull then \<not> nullable else \<not> accepts ?w t)
         then [type_mismatch ?p ((if t = INull then js ''a non-empty '' else []) @ describe_type ?w) t (e_start x)] else []) = []
      \<longleftrightarrow> (if t = INull then nullable else accepts ?w t)" for x t
    by simp
  from expression_checked [where wanted_issues = "\<lambda>x t. if (if t = INull then \<not> nullable else \<not> accepts ?w t)
      then [type_mismatch ?p ((if t = INull then js ''a non-empty '' else []) @ describe_type ?w) t (e_start x)] else []", OF this]
  show ?thesis using Some y by (simp add: field_issues_def Let_def)
qed

text \<open>
  C14. The check of a movement is exact: it reports nothing precisely when the register is declared
  and every expression that parses comes from the right source and has a type of the typing rules
  that its place accepts, with the kind of movement present when the register has one, no period
  for a register without one, and no required field missing.
\<close>

theorem check_movement_exact:
  "check_movement ck d r declared index mv = [] \<longleftrightarrow> declared \<and> movement_valid ck d r index mv"
proof -
  have condition: "expect_kind ck d (\<not> mv_section mv) (mv_condition mv) p IBoolean = [] \<longleftrightarrow>
      (\<forall>q. mv_condition mv = Some q \<longrightarrow> well_typed ck d (\<not> mv_section mv) q p (\<lambda>x. fits KBoolean))" for p
    by (cases "mv_condition mv") (simp_all add: expect_kind_none expect_kind_nil)
  have fields: "concat (map (field_issues ck d r index (\<not> mv_section mv)) (mv_fields mv)) = [] \<longleftrightarrow>
      (\<forall>(k, q) \<in> set (mv_fields mv). \<forall>f nullable. find_register_field r k = Some (f, nullable) \<longrightarrow>
          well_typed ck d (\<not> mv_section mv) q (movement_pointer index [Key (js ''fields''), Key k])
            (\<lambda>x t. if t = INull then nullable else accepts (type_of_field ck (rg_type f)) t))"
    using field_issues_nil by fastforce
  show ?thesis
    unfolding check_movement_def append_is_Nil_conv condition period_issues_nil movement_type_issues_nil missing_issues_nil fields
      movement_valid_def Let_def
    by auto
qed

end
