(* ===== verification/MovementSafe.thy ===== *)
theory MovementSafe
  imports MovementSql
begin

section \<open>Generated movements are safe\<close>

text \<open>
  What the generator of movements promises: the tag of the dollar quotes of a wrapper is not in its
  body, no name or literal of the metadata leaves its quotes, and a checked expression has columns
  for its field.
\<close>

subsection \<open>The scanner of SQL\<close>

text \<open>
  The lexical rules of PostgreSQL, as far as they tell what is quoted: strings, quoted names,
  parentheses. It refuses a comment, the end of the statement, a dollar quote, a string with a
  prefix and a parenthesis that closes too much. A state has the depth and the last code unit.
\<close>

datatype sql_mode = Plain | InString | InName

definition name_unit :: "nat \<Rightarrow> bool" where
  "name_unit c \<longleftrightarrow> is_upper c \<or> is_lower c \<or> is_digit c \<or> c = 95 \<or> c = 36 \<or> 128 \<le> c"

fun scan_unit :: "nat \<Rightarrow> sql_mode \<times> nat \<times> nat \<Rightarrow> (sql_mode \<times> nat \<times> nat) option" where
  "scan_unit c (InString, d, l) = Some (if c = 39 then Plain else InString, d, c)"
| "scan_unit c (InName, d, l) = Some (if c = 34 then Plain else InName, d, c)"
| "scan_unit c (Plain, d, l) =
     (if c = 39 then (if name_unit l \<or> l = 38 then None else Some (InString, d, c))
      else if c = 34 then (if l = 38 then None else Some (InName, d, c))
      else if c = 40 then Some (Plain, Suc d, c)
      else if c = 41 then (case d of 0 \<Rightarrow> None | Suc d \<Rightarrow> Some (Plain, d, c))
      else if c = 59 \<or> c = 45 \<and> l = 45 \<or> c = 42 \<and> l = 47 \<or> c = 36 \<and> \<not> name_unit l then None
      else Some (Plain, d, c))"

fun scan_sql :: "jstr \<Rightarrow> sql_mode \<times> nat \<times> nat \<Rightarrow> (sql_mode \<times> nat \<times> nat) option" where
  "scan_sql [] q = Some q"
| "scan_sql (c # s) q = Option.bind (scan_unit c q) (scan_sql s)"

lemma scan_append: "scan_sql (s @ t) q = Option.bind (scan_sql s q) (scan_sql t)"
  by (induction s arbitrary: q) (auto split: bind_split)

text \<open>From depth \<open>i\<close> after a unit of \<open>A\<close> to depth \<open>j\<close> after a unit of \<open>B\<close>, whatever encloses it.\<close>

definition scans :: "nat set \<Rightarrow> nat \<Rightarrow> jstr \<Rightarrow> nat set \<Rightarrow> nat \<Rightarrow> bool" where
  "scans A i s B j \<longleftrightarrow> (\<forall>d. \<forall>l \<in> A. \<exists>l' \<in> B. scan_sql s (Plain, i + d, l) = Some (Plain, j + d, l'))"

definition free_units :: "nat set" where
  "free_units = {10, 32, 40, 44, 46, 58}"

text \<open>A text that stays inside its quotes and parentheses; \<open>operand_text\<close>: also after a minus.\<close>

definition contained :: "jstr \<Rightarrow> bool" where
  "contained s \<longleftrightarrow> scans free_units 0 s UNIV 0"

definition operand_text :: "jstr \<Rightarrow> bool" where
  "operand_text s \<longleftrightarrow> scans (insert 45 free_units) 0 s UNIV 0"

lemma scans_append: "scans A i s B j \<Longrightarrow> scans B j t C k \<Longrightarrow> scans A i (s @ t) C k"
  unfolding scans_def scan_append by (metis Option.bind.bind_lunit)

lemma scans_frame: "scans A i s B j \<Longrightarrow> scans A (i + n) s B (j + n)"
  unfolding scans_def by (metis add.assoc)

lemma scans_weaken: "scans A i s B j \<Longrightarrow> A' \<subseteq> A \<Longrightarrow> B \<subseteq> B' \<Longrightarrow> scans A' i s B' j"
  unfolding scans_def by blast

lemma operand_contained: "operand_text s \<Longrightarrow> contained s"
  unfolding operand_text_def contained_def by (erule scans_weaken) auto

text \<open>Names and literals stay inside their quotes.\<close>

lemma scan_name_body: "scan_sql (double_unit 34 n @ [34]) (InName, d, l) = Some (Plain, d, 34)"
  by (induction n arbitrary: l) auto

lemma scan_string_body: "scan_sql (double_unit 39 n @ [39]) (InString, d, l) = Some (Plain, d, 39)"
  by (induction n arbitrary: l) (auto simp: name_unit_def is_upper_def is_lower_def is_digit_def)

lemma scan_plain_units:
  "\<forall>c \<in> set n. plain_unit c \<Longrightarrow> name_unit l \<Longrightarrow> \<exists>l'. name_unit l' \<and> scan_sql n (Plain, d, l) = Some (Plain, d, l')"
proof (induction n arbitrary: l)
  case (Cons c n)
  then have "plain_unit c" by simp
  then have c: "name_unit c" "c \<notin> {39, 34, 40, 41, 59, 45, 42}"
    unfolding plain_unit_def name_unit_def is_lower_def is_digit_def by auto
  then have "scan_unit c (Plain, d, l) = Some (Plain, d, c)" using Cons.prems(2) by simp
  then show ?case using Cons c(1) by simp
qed simp

lemma free_unit: "l \<in> insert 45 free_units \<Longrightarrow> \<not> name_unit l \<and> l \<noteq> 38"
  by (auto simp: free_units_def name_unit_def is_upper_def is_lower_def is_digit_def)

lemma quote_ident_operand: "operand_text (quote_ident n)"
proof (cases "plain_ident n \<and> n \<notin> set pg_quoted_keywords")
  case True
  then obtain c m where n: "n = c # m" "plain_start_unit c" "\<forall>x \<in> set m. plain_unit x"
    by (cases n) (auto simp: plain_ident_def)
  then have units: "name_unit c" "c \<notin> {39, 34, 40, 41, 59, 45, 42, 36}"
    unfolding plain_start_unit_def name_unit_def is_lower_def by auto
  then have c: "name_unit c" "scan_unit c (Plain, d, l) = Some (Plain, d, c)" for d l by simp_all
  have "\<exists>l'. scan_sql n (Plain, d, l) = Some (Plain, d, l')" for d l
    using scan_plain_units [OF n(3) c(1), of d] c(2) by (auto simp: n(1))
  then show ?thesis using True by (simp add: operand_text_def scans_def quote_ident_def)
next
  case False
  then show ?thesis
    using free_unit by (auto simp: operand_text_def scans_def quote_ident_def scan_name_body)
qed

lemma sql_literal_operand: "operand_text (sql_literal v)"
  using free_unit by (auto simp: operand_text_def scans_def sql_literal_def scan_string_body)

lemma number_operand:
  assumes "is_number v"
  shows "operand_text v"
proof -
  have units: "\<forall>c \<in> set v. is_digit c \<or> c = 46"
    using assms scan_number_shape [of v] unfolding is_number_def by fastforce
  have "\<forall>c \<in> set v. is_digit c \<or> c = 46 \<Longrightarrow> \<exists>l'. scan_sql v (Plain, d, l) = Some (Plain, d, l')" for d l v
    by (induction v arbitrary: l) (auto simp: is_digit_def)
  then show ?thesis using units by (simp add: operand_text_def scans_def)
qed

subsection \<open>Fixed texts\<close>

lemmas scan_fixed = scans_def js_def free_units_def name_unit_def is_upper_def is_lower_def is_digit_def

lemma keyword_operand: "operand_text (js ''true'')" "operand_text (js ''false'')" "operand_text (js ''NULL'')" "operand_text (js ''undefined'')"
  by (auto simp: operand_text_def scan_fixed)

lemma operator_scans: "scans UNIV 0 (32 # sql_operator p @ [32]) free_units 0"
  by (cases p) (auto simp: sql_operator_def scan_fixed)

lemma open_scans: "scans (insert 45 free_units) 0 [40] free_units 1" "scans UNIV 1 [41] UNIV 0"
  by (auto simp: scan_fixed)

lemma wrap_operand: "contained s \<Longrightarrow> operand_text (40 # s @ [41])"
proof -
  assume "contained s"
  then have "scans free_units (0 + 1) s UNIV (0 + 1)" unfolding contained_def by (rule scans_frame)
  then have "scans free_units 1 s UNIV 1" by simp
  from scans_append [OF open_scans(1) scans_append [OF this open_scans(2)]] show ?thesis
    by (simp add: operand_text_def)
qed

lemma contained_then: "contained s \<Longrightarrow> scans UNIV 0 t free_units 0 \<Longrightarrow> contained r \<Longrightarrow> contained (s @ t @ r)"
  unfolding contained_def by (intro scans_append)

lemma division_scans: "scans UNIV 0 (js ''::numeric / '') free_units 0"
  by (auto simp: scan_fixed)

lemma sign_contained: "operand_text t \<Longrightarrow> contained ((case p of Not \<Rightarrow> js ''NOT '' | Neg \<Rightarrow> js ''-'') @ t)"
proof -
  assume t: "operand_text t"
  have "scans free_units 0 (case p of Not \<Rightarrow> js ''NOT '' | Neg \<Rightarrow> js ''-'') (insert 45 free_units) 0"
    by (cases p) (auto simp: scan_fixed)
  then show ?thesis using t unfolding contained_def operand_text_def by (rule scans_append)
qed

lemma wrap_contained: "contained s \<Longrightarrow> contained (wrap_sql nested s) \<and> (nested \<longrightarrow> operand_text (wrap_sql nested s))"
  using wrap_operand [of s] operand_contained by (simp add: wrap_sql_def)

subsection \<open>Expressions\<close>

text \<open>A resolver is safe when the columns it gives for the names of the expression are contained.\<close>

definition safe_resolver :: "resolver \<Rightarrow> bool" where
  "safe_resolver f \<longleftrightarrow> (\<forall>x xs. f x = Inr xs \<longrightarrow> (\<forall>t \<in> set xs. operand_text t))"

lemma last_text_operand: "\<forall>t \<in> set xs. operand_text t \<Longrightarrow> operand_text (last_text xs)"
  by (simp add: last_text_def keyword_operand)

lemma first_text_operand: "\<forall>t \<in> set xs. operand_text t \<Longrightarrow> operand_text (first_text xs)"
  by (cases xs) (simp_all add: first_text_def keyword_operand)

lemma node_sql_contained:
  assumes safe: "safe_resolver f"
  shows "lexical x \<Longrightarrow> node_sql f nested x = Inr q \<Longrightarrow> contained q \<and> (nested \<longrightarrow> operand_text q)"
proof (induction x arbitrary: q nested)
  case (Field b n fs ss e)
  then show ?case using safe last_text_operand operand_contained
    unfolding safe_resolver_def by (auto simp: bindE_eq_Inr)
next
  case (Sum sn fn ss fs st e)
  then show ?case using safe first_text_operand operand_contained
    unfolding safe_resolver_def by (auto simp: bindE_eq_Inr)
next
  case (Count sn ss st e)
  then show ?case using safe first_text_operand operand_contained
    unfolding safe_resolver_def by (auto simp: bindE_eq_Inr)
next
  case (Number v st e)
  then show ?case using number_operand operand_contained by auto
next
  case (Str v st e)
  then show ?case using sql_literal_operand operand_contained by auto
next
  case (Boolean v st e)
  then show ?case using keyword_operand operand_contained by auto
next
  case (Null st e)
  then show ?case using keyword_operand operand_contained by auto
next
  case (Unary p x st e)
  then obtain t where t: "node_sql f True x = Inr t" "q = wrap_sql nested ((case p of Not \<Rightarrow> js ''NOT '' | Neg \<Rightarrow> js ''-'') @ t)"
    by (auto simp: bindE_eq_Inr)
  have "operand_text t" using Unary t(1) by auto
  then have "contained ((case p of Not \<Rightarrow> js ''NOT '' | Neg \<Rightarrow> js ''-'') @ t)" by (rule sign_contained)
  then show ?case unfolding t(2) by (rule wrap_contained)
next
  case (Binary p l r st e)
  show ?case
  proof (cases "p = Div")
    case True
    with Binary.prems obtain a b where ab: "node_sql f False l = Inr a" "node_sql f True r = Inr b"
        "q = wrap_sql nested (40 # a @ js '')::numeric / '' @ b)"
      by (auto simp: bindE_eq_Inr)
    have "contained a" "contained b" using Binary ab by (auto intro: operand_contained)
    from contained_then [OF operand_contained [OF wrap_operand [OF this(1)]] division_scans this(2)]
    have "contained (40 # a @ js '')::numeric / '' @ b)" by (simp add: js_def)
    then show ?thesis unfolding ab(3) by (rule wrap_contained)
  next
    case False
    with Binary.prems obtain a b where ab: "node_sql f True l = Inr a" "node_sql f True r = Inr b"
        "q = wrap_sql nested (a @ 32 # sql_operator p @ 32 # b)"
      by (auto simp: bindE_eq_Inr)
    have "contained a" "contained b" using Binary ab by (auto intro: operand_contained)
    from contained_then [OF this(1) operator_scans this(2), of p]
    have "contained (a @ 32 # sql_operator p @ 32 # b)" by simp
    then show ?thesis unfolding ab(3) by (rule wrap_contained)
  qed
qed

subsection \<open>The query of a movement\<close>

lemma contained_prefix: "scans free_units 0 t free_units 0 \<Longrightarrow> contained r \<Longrightarrow> contained (t @ r)"
  unfolding contained_def by (rule scans_append)

lemma contained_suffix: "contained s \<Longrightarrow> scans UNIV 0 t UNIV 0 \<Longrightarrow> contained (s @ t)"
  unfolding contained_def by (rule scans_append)

lemma contained_at: "contained s \<Longrightarrow> scans free_units n s UNIV n"
  unfolding contained_def by (drule scans_frame [of _ _ _ _ _ n]) simp

lemma enclosed_operand:
  assumes "scans (insert 45 free_units) 0 t free_units 1" "contained s"
  shows "operand_text (t @ s @ [41])"
  unfolding operand_text_def by (rule scans_append [OF assms(1) scans_append [OF contained_at [OF assms(2)] open_scans(2)]])

lemma quote_ident_contained: "contained (quote_ident n)"
  by (rule operand_contained [OF quote_ident_operand])

lemma alias_operand: "operand_text (js ''d.'' @ quote_ident n)" "operand_text (js ''r.'' @ quote_ident n)"
proof -
  have "scans (insert 45 free_units) 0 (js ''d.'') free_units 0" "scans (insert 45 free_units) 0 (js ''r.'') free_units 0"
    by (auto simp: scan_fixed)
  then show "operand_text (js ''d.'' @ quote_ident n)" "operand_text (js ''r.'' @ quote_ident n)"
    using quote_ident_contained [of n] unfolding operand_text_def contained_def by (auto intro: scans_append)
qed

lemma qualified_contained: "contained (qualified_table t)"
proof -
  have "scans UNIV 0 [46] free_units 0" by (auto simp: scan_fixed)
  from contained_then [OF quote_ident_contained this quote_ident_contained] show ?thesis by (simp add: qualified_table_def)
qed

lemma key_column_quoted: "key_column cx t defs name = Inr k \<Longrightarrow> \<exists>n. k = quote_ident n"
proof -
  assume "key_column cx t defs name = Inr k"
  then obtain cs where "(case cs of [] \<Rightarrow> Inl (js ''TypeError'') | c # _ \<Rightarrow> Inr (column_ref c)) = Inr k"
    unfolding key_column_def bindE_eq_Inr by blast
  then show ?thesis by (cases cs) (auto simp: column_ref_def)
qed

lemma aggregate_fixed:
  "scans free_units 0 (js ''FROM '') free_units 0" "scans UNIV 0 (js '' t WHERE t.'') free_units 0" "scans UNIV 0 (js '' = '') free_units 0"
  "scans (insert 45 free_units) 0 (js ''(SELECT count(*) '') free_units 1"
  "scans (insert 45 free_units) 0 (js ''(SELECT COALESCE(sum(t.'') free_units 3" "scans UNIV 3 (js ''), 0) '') free_units 1"
  by (auto simp: scan_fixed)

text \<open>The key of the document is a quoted name.\<close>

definition tables_ok :: "move_tables \<Rightarrow> bool" where
  "tables_ok tb \<longleftrightarrow> (\<exists>n. tb_key tb = quote_ident n)"

lemma document_key_operand: "tables_ok tb \<Longrightarrow> operand_text (document_key tb)"
  using alias_operand(1) by (auto simp: tables_ok_def document_key_def)

lemma aggregate_contained:
  assumes "aggregate_source cx doc tb pointer ss = Inr (t, src)" "tables_ok tb"
  shows "contained src"
proof -
  obtain n where src: "src = js ''FROM '' @ qualified_table t @ js '' t WHERE t.'' @ quote_ident n @ js '' = '' @ document_key tb"
    using assms(1) key_column_quoted by (fastforce simp: aggregate_source_def bindE_eq_Inr)
  note key = operand_contained [OF document_key_operand [OF assms(2)]]
  show ?thesis unfolding src
    by (rule contained_prefix [OF aggregate_fixed(1) contained_then [OF qualified_contained aggregate_fixed(2)
      contained_then [OF quote_ident_contained aggregate_fixed(3) key]]])
qed

lemma sum_operand: "contained src \<Longrightarrow> operand_text (js ''(SELECT COALESCE(sum(t.'' @ quote_ident n @ js ''), 0) '' @ src @ [41])"
proof -
  assume src: "contained src"
  have "scans (insert 45 free_units) 0 (js ''(SELECT COALESCE(sum(t.'' @ quote_ident n @ js ''), 0) '') free_units 1"
    by (rule scans_append [OF aggregate_fixed(5) scans_append [OF contained_at [OF quote_ident_contained] aggregate_fixed(6)]])
  from enclosed_operand [OF this src] show ?thesis by simp
qed

lemma resolve_name_safe: "tables_ok tb \<Longrightarrow> safe_resolver (resolve_name cx doc tb pointer)"
  unfolding safe_resolver_def
proof (intro allI impI ballI)
  fix x xs q
  assume tb: "tables_ok tb" and xs: "resolve_name cx doc tb pointer x = Inr xs" and q: "q \<in> set xs"
  have close: "js '')'' = [41]" by (simp add: js_def)
  show "operand_text q"
  proof (cases x)
    case (Field b n fs s e)
    then show ?thesis using xs q alias_operand
      by (auto simp: resolve_name_def bindE_eq_Inr column_ref_def split: if_splits)
  next
    case (Sum sn fn ss fs s e)
    then obtain t src cs where "aggregate_source cx doc tb pointer ss = Inr (t, src)"
        "xs = [js ''(SELECT COALESCE(sum(t.'' @ column_ref (hd cs) @ js ''), 0) '' @ src @ js '')'']"
      using xs by (fastforce simp: resolve_name_def bindE_eq_Inr)
    then show ?thesis using q sum_operand [OF aggregate_contained [OF _ tb]] by (simp add: column_ref_def close)
  next
    case (Count sn ss s e)
    then obtain t src where "aggregate_source cx doc tb pointer ss = Inr (t, src)" "xs = [js ''(SELECT count(*) '' @ src @ js '')'']"
      using xs by (fastforce simp: resolve_name_def bindE_eq_Inr)
    then show ?thesis using q enclosed_operand [OF aggregate_fixed(4) aggregate_contained [OF _ tb]] by (simp add: close)
  qed (use xs q in \<open>simp_all add: resolve_name_def\<close>)
qed

lemma translate_contained:
  assumes "translate_expression f source pointer = Inr (x, qs)" "safe_resolver f"
  shows "\<forall>q \<in> set qs. contained q"
proof -
  obtain y where y: "parse_expression source = ParseOk y" "x = y"
      "(case y of Field b n fs s e \<Rightarrow> f y | _ \<Rightarrow> bindE (node_sql f False y) (\<lambda>q. Inr [q])) = Inr qs"
    using assms(1) by (auto simp: translate_expression_def bindE_eq_Inr split: parse_result.splits)
  have "f y = Inr qs \<or> (\<exists>q. node_sql f False y = Inr q \<and> qs = [q])"
    using y(3) by (auto simp: bindE_eq_Inr split: expr.splits)
  then show ?thesis
    using assms(2) node_sql_contained [OF assms(2) parse_expression_lexical [OF y(1)]] operand_contained
    unfolding safe_resolver_def by auto
qed

lemma join_contained: "\<forall>q \<in> set qs. contained q \<Longrightarrow> contained (join_comma qs)"
proof -
  have fixed: "scans UNIV 0 (js '', '') free_units 0" by (auto simp: scan_fixed)
  have "contained []" by (auto simp: contained_def scans_def)
  then show "\<forall>q \<in> set qs. contained q \<Longrightarrow> ?thesis"
    unfolding join_comma_def by (induction "js '', ''" qs rule: join_with.induct) (auto intro: contained_then fixed)
qed

lemma expression_contained:
  "expression_text cx doc tb path source = Inr q \<Longrightarrow> tables_ok tb \<Longrightarrow> contained q"
  unfolding expression_text_def bindE_eq_Inr
  using join_contained translate_contained [OF _ resolve_name_safe] by fastforce

lemma period_contained:
  assumes "period_value cx doc register tb rt base mv = Inr vs" "tables_ok tb"
    and unit: "\<forall>p. po_periodicity register = Some p \<longrightarrow> 39 \<notin> set p"
  shows "\<forall>(k, v) \<in> set vs. contained v"
proof -
  have fixed: "scans free_units 0 (js ''date_trunc('') free_units 1" "scans UNIV 1 (js '', '') free_units 1" by (auto simp: scan_fixed)
  have close: "js '')'' = [41]" by (simp add: js_def)
  have raw: "contained (39 # u @ [39])" if "truncation register = Some u" for u
  proof -
    have "39 \<notin> set u"
      using that unit by (auto simp: truncation_def to_lower_def lower_unit_def is_upper_def split: option.splits if_splits)
    then have "double_unit 39 u = u" by (induction u) auto
    then show ?thesis using sql_literal_operand [of u] operand_contained by (simp add: sql_literal_def)
  qed
  have trunc: "contained (js ''date_trunc('' @ 39 # u @ 39 # js '', '' @ m @ js '', '' @ sql_literal z @ js '')'')"
    if "contained m" "truncation register = Some u" for u m z
  proof -
    have "scans free_units 0 (js ''date_trunc('' @ (39 # u @ [39]) @ js '', '' @ m @ js '', '' @ sql_literal z @ [41]) UNIV 0"
      by (intro scans_append [OF fixed(1)] scans_append [OF contained_at [OF raw [OF that(2)]]] scans_append [OF fixed(2)]
        scans_append [OF contained_at [OF that(1)]] scans_append [OF contained_at [OF operand_contained [OF sql_literal_operand]]]
        open_scans(2))
    then show ?thesis by (simp add: contained_def close)
  qed
  from assms(1) obtain col where col: "register_column cx register rt ''period'' = Inr col"
      "(case col of None \<Rightarrow> Inr [] | Some c \<Rightarrow>
           bindE (case mv_period mv of
                    Some x \<Rightarrow> expression_text cx doc tb (base @ [Key (js ''period'')]) x
                  | None \<Rightarrow> bindE (key_column cx (tb_document tb) (po_standard doc) (js ''date'')) (\<lambda>k. Inr (js ''d.'' @ k))) (\<lambda>moment.
           Inr [(mc_name c,
             case truncation register of
               None \<Rightarrow> moment
             | Some u \<Rightarrow> js ''date_trunc('' @ 39 # u @ 39 # js '', '' @ moment @ js '', '' @ sql_literal (cx_timezone cx) @ js '')'')])) = Inr vs"
    unfolding period_value_def bindE_eq_Inr by blast
  show ?thesis
  proof (cases col)
    case None
    then show ?thesis using col(2) by simp
  next
    case (Some c)
    then obtain m where m: "(case mv_period mv of
          Some x \<Rightarrow> expression_text cx doc tb (base @ [Key (js ''period'')]) x
        | None \<Rightarrow> bindE (key_column cx (tb_document tb) (po_standard doc) (js ''date'')) (\<lambda>k. Inr (js ''d.'' @ k))) = Inr m"
        "vs = [(mc_name c, case truncation register of
               None \<Rightarrow> m
             | Some u \<Rightarrow> js ''date_trunc('' @ 39 # u @ 39 # js '', '' @ m @ js '', '' @ sql_literal (cx_timezone cx) @ js '')'')]"
      using col(2) by (auto simp: bindE_eq_Inr)
    have "contained m"
      using m(1) expression_contained [OF _ assms(2)] operand_contained [OF alias_operand(1)] key_column_quoted
      by (fastforce simp: bindE_eq_Inr split: option.splits)
    then show ?thesis using m(2) trunc by (auto split: option.splits)
  qed
qed

lemma type_contained:
  assumes "type_value cx doc register tb rt base mv = Inr vs" "tables_ok tb"
  shows "\<forall>(k, v) \<in> set vs. contained v"
  using assms expression_contained operand_contained [OF sql_literal_operand]
  by (fastforce simp: type_value_def bindE_eq_Inr split: option.splits if_splits)

lemma discriminator_contained: "discriminator_of cx doc x pointer = Inr v \<Longrightarrow> contained v"
  using operand_contained [OF sql_literal_operand]
  by (auto simp: discriminator_of_def bindE_eq_Inr split: expr.splits if_splits option.splits)

lemma assign_contained:
  assumes "assign_columns targets x qs disc = Inr vs" "\<forall>q \<in> set qs. contained q" "\<forall>t \<in> set targets. contained (mc_type t)"
    and "\<And>v. disc = Inr v \<Longrightarrow> contained v"
  shows "\<forall>v \<in> set vs. contained v"
proof -
  have "scans free_units 0 (js ''NULL::'') free_units 0" by (auto simp: scan_fixed)
  then have "contained (js ''NULL::'' @ mc_type t)" if "t \<in> set targets" for t
    using contained_prefix that assms(3) by blast
  moreover have "hd qs \<in> set qs" if "length qs = Suc 0" using that by (cases qs) simp_all
  ultimately show ?thesis
    using assms by (auto simp: assign_columns_def bindE_eq_Inr split: if_splits)
qed

text \<open>The types of the columns, and the unit by which a register truncates, are as the model writes them.\<close>

definition types_ok :: "move_context \<Rightarrow> posting_object \<Rightarrow> bool" where
  "types_ok cx register \<longleftrightarrow>
     (\<forall>t \<in> set (cx_tables cx). \<forall>c \<in> set (mt_columns t). contained (mc_type c))
     \<and> (\<forall>p. po_periodicity register = Some p \<longrightarrow> 39 \<notin> set p)"

lemma table_for_mem: "table_for cx i j = Inr t \<Longrightarrow> t \<in> set (cx_tables cx)"
  by (auto simp: table_for_def must_def find_Some_iff split: option.splits)

lemma standard_columns_mem: "standard_columns cx t defs n = Inr cs \<Longrightarrow> set cs \<subseteq> set (mt_columns t)"
  by (auto simp: standard_columns_def bindE_eq_Inr)

lemma element_columns_mem: "element_columns cx t defs i = Inr cs \<Longrightarrow> set cs \<subseteq> set (mt_columns t)"
  using standard_columns_mem by (fastforce simp: element_columns_def bindE_eq_Inr split: option.splits if_splits)

lemma field_contained:
  assumes "field_value cx doc tb rt base f = Inr vs" "tables_ok tb" "\<forall>c \<in> set (mt_columns rt). contained (mc_type c)"
  shows "\<forall>(k, v) \<in> set vs. contained v"
proof -
  let ?p = "to_pointer (base @ [Key (js ''fields''), Key (fst f)])"
  obtain i targets x qs ws where w: "element_columns cx rt [] i = Inr targets"
      "translate_expression (resolve_name cx doc tb ?p) (snd f) ?p = Inr (x, qs)"
      "assign_columns targets x qs (discriminator_of cx doc x ?p) = Inr ws" "vs = zip (map mc_name targets) ws"
    using assms(1) by (fastforce simp: field_value_def Let_def bindE_eq_Inr)
  have "\<forall>q \<in> set qs. contained q" by (rule translate_contained [OF w(2) resolve_name_safe [OF assms(2)]])
  moreover have "\<forall>t \<in> set targets. contained (mc_type t)" using element_columns_mem [OF w(1)] assms(3) by blast
  ultimately have "\<forall>v \<in> set ws. contained v"
    using assign_contained [OF w(3)] discriminator_contained by blast
  then show ?thesis unfolding w(4) by (auto dest: set_zip_rightD)
qed

lemma set_values_contained:
  "\<forall>(k, v) \<in> set new. contained v \<Longrightarrow> \<forall>(k, v) \<in> set old. contained v \<Longrightarrow> \<forall>(k, v) \<in> set (set_values new old). contained v"
  unfolding set_values_def
proof (induction new arbitrary: old)
  case (Cons x new)
  obtain k v where x: "x = (k, v)" by fastforce
  have "set (AList.update k v old) \<subseteq> insert (k, v) (set old)"
    by (induction old) auto
  then have "\<forall>(k, v) \<in> set (AList.update k v old). contained v" using Cons.prems x by auto
  then show ?case using Cons x by simp
qed simp

lemma fold_values_contained:
  "\<forall>g \<in> set gs. \<forall>(k, v) \<in> set g. contained v \<Longrightarrow> \<forall>(k, v) \<in> set old. contained v
    \<Longrightarrow> \<forall>(k, v) \<in> set (fold set_values gs old). contained v"
proof (induction gs arbitrary: old)
  case (Cons g gs)
  then have "\<forall>(k, v) \<in> set (set_values g old). contained v" by (intro set_values_contained) simp_all
  then show ?case using Cons by simp
qed simp

lemma mapE_source: "mapE f xs = Inr ys \<Longrightarrow> y \<in> set ys \<Longrightarrow> \<exists>x \<in> set xs. f x = Inr y"
  by (induction xs arbitrary: ys) (auto simp: bindE_eq_Inr)

lemma values_contained:
  assumes "movement_values cx doc register tb index mv = Inr vs" "tables_ok tb" "types_ok cx register"
  shows "\<forall>(k, v) \<in> set vs. contained v"
proof -
  let ?base = "[Key (js ''posting''), Key (js ''movements''), Index index]"
  obtain rt period mtype fields where f: "table_for cx (po_id register) None = Inr rt"
      "period_value cx doc register tb rt ?base mv = Inr period" "type_value cx doc register tb rt ?base mv = Inr mtype"
      "mapE (field_value cx doc tb rt ?base) (mv_fields mv) = Inr fields"
      "vs = fold set_values (period # mtype # fields) []"
    using assms(1) unfolding movement_values_def Let_def bindE_eq_Inr by auto
  have types: "\<forall>c \<in> set (mt_columns rt). contained (mc_type c)"
    using table_for_mem [OF f(1)] assms(3) by (auto simp: types_ok_def)
  have "\<forall>g \<in> set fields. \<forall>(k, v) \<in> set g. contained v"
  proof
    fix g
    assume "g \<in> set fields"
    then obtain h where "field_value cx doc tb rt ?base h = Inr g"
      using mapE_source [OF f(4)] by blast
    from field_contained [OF this assms(2) types] show "\<forall>(k, v) \<in> set g. contained v" .
  qed
  then have "\<forall>g \<in> set (period # mtype # fields). \<forall>(k, v) \<in> set g. contained v"
    using period_contained [OF f(2) assms(2)] type_contained [OF f(3) assms(2)] assms(3) by (auto simp: types_ok_def)
  from fold_values_contained [OF this, of "[]"] show ?thesis unfolding f(5) by simp
qed

lemma calm_scans:
  assumes "\<forall>c \<in> set t. c \<notin> {39, 34, 40, 41, 59, 45, 42, 36}" "t \<noteq> []" "last t \<in> B"
  shows "scans A 0 t B 0"
proof -
  have "\<forall>c \<in> set t. c \<notin> {39, 34, 40, 41, 59, 45, 42, 36} \<Longrightarrow> t \<noteq> [] \<Longrightarrow> scan_sql t (Plain, d, l) = Some (Plain, d, last t)" for d l
    by (induction t arbitrary: l) auto
  then show ?thesis using assms by (simp add: scans_def)
qed

lemma select_fixed:
  "scans UNIV 0 (js '' AS '') free_units 0" "scans free_units 0 (js ''NULL::'') free_units 0"
  "scans free_units 0 (js ''  SELECT '') free_units 0" "scans UNIV 0 (js '' AS __movement'') UNIV 0" "scans UNIV 0 (js '' AS __line'') UNIV 0"
  "scans free_units 0 (js ''  FROM '') free_units 0" "scans UNIV 0 (js '' d'') UNIV 0" "scans UNIV 0 (js '' r'' @ 10 # js ''  JOIN '') free_units 0"
  "scans UNIV 0 (js '' d ON '') free_units 0" "scans free_units 0 (js ''r.'') free_units 0" "scans free_units 0 (js ''  WHERE '') free_units 0"
  "scans UNIV 0 (js ''.p_document_id'') UNIV 0" "scans UNIV 0 (js '' = r.'') free_units 0" "scans UNIV 0 [10] free_units 0"
  by (rule calm_scans; simp add: js_def free_units_def)+

lemma and_fixed: "scans free_units 0 (js ''    AND ('') free_units 1"
proof -
  have "scans free_units 0 (js ''    AND '') (insert 45 free_units) 0"
    by (rule calm_scans) (simp_all add: js_def free_units_def)
  from scans_append [OF this open_scans(1)] show ?thesis by (simp add: js_def)
qed

lemma item_contained:
  assumes "\<forall>(k, v) \<in> set values. contained v" "contained (mc_type c)"
  shows "contained (value_item values c)"
proof -
  have "contained (case map_of values (mc_name c) of None \<Rightarrow> js ''NULL::'' @ mc_type c | Some v \<Rightarrow> v)"
    using assms contained_prefix [OF select_fixed(2)] by (auto split: option.splits dest: map_of_SomeD)
  from contained_then [OF this select_fixed(1) quote_ident_contained] show ?thesis by (simp add: value_item_def)
qed

lemma number_contained: "contained (show_nat n)"
proof -
  have "\<forall>c \<in> set v. is_digit c \<Longrightarrow> \<exists>l'. scan_sql v (Plain, d, l) = Some (Plain, d, l')" for d l v
    by (induction v arbitrary: l) (auto simp: is_digit_def)
  then show ?thesis using show_nat_digits by (simp add: contained_def scans_def)
qed

lemma lines_contained: "\<forall>q \<in> set qs. contained q \<Longrightarrow> contained (join_with [10] qs)"
proof -
  have "contained []" by (auto simp: contained_def scans_def)
  then show "\<forall>q \<in> set qs. contained q \<Longrightarrow> ?thesis"
  proof (induction "[10 :: nat]" qs rule: join_with.induct)
    case (3 q r qs)
    then show ?case using contained_then [OF _ select_fixed(14), of q "join_with [10] (r # qs)"] by simp
  qed simp_all
qed

lemma join_lines: "contained s \<Longrightarrow> contained (js ''    AND ('' @ s @ js '')'')"
proof -
  assume s: "contained s"
  have close: "js '')'' = [41]" by (simp add: js_def)
  show ?thesis unfolding contained_def close
    by (rule scans_append [OF and_fixed scans_append [OF contained_at [OF s] open_scans(2)]])
qed

lemma movement_tables_ok: "movement_tables cx doc index mv = Inr tb \<Longrightarrow> tables_ok tb"
  using key_column_quoted by (fastforce simp: movement_tables_def bindE_eq_Inr tables_ok_def)

lemma movement_select_contained:
  assumes "movement_select cx doc register columns name index mv = Inr q" "types_ok cx register"
    and "\<forall>c \<in> set columns. contained (mc_type c)"
  shows "contained q"
proof -
  obtain tb vals line src condition where m: "movement_tables cx doc index mv = Inr tb"
      "movement_values cx doc register tb index mv = Inr vals"
      "(case tb_rows tb of None \<Rightarrow> Inr (js ''0'')
            | Some r \<Rightarrow> bindE (key_column cx r (po_rows doc) (js ''lineNumber'')) (\<lambda>k. Inr (js ''r.'' @ k))) = Inr line"
      "(case tb_rows tb of None \<Rightarrow> Inr (js ''  FROM '' @ qualified_table (tb_document tb) @ js '' d'')
            | Some r \<Rightarrow> bindE (key_column cx r (po_rows doc) (js ''parent'')) (\<lambda>k.
                Inr (js ''  FROM '' @ qualified_table r @ js '' r'' @ 10 # js ''  JOIN '' @ qualified_table (tb_document tb)
                  @ js '' d ON '' @ document_key tb @ js '' = r.'' @ k))) = Inr src"
      "(case mv_condition mv of None \<Rightarrow> Inr []
            | Some x \<Rightarrow> bindE (expression_text cx doc tb [Key (js ''posting''), Key (js ''movements''), Index index, Key (js ''condition'')] x)
                (\<lambda>q. Inr [js ''    AND ('' @ q @ js '')''])) = Inr condition"
      "q = join_with [10]
         ([js ''  SELECT '' @ join_comma (map (value_item vals) columns
              @ [show_nat index @ js '' AS __movement'', line @ js '' AS __line'']),
           src,
           js ''  WHERE '' @ document_key tb @ js '' = '' @ quote_ident name @ js ''.p_document_id''] @ condition)"
    using assms(1) unfolding movement_select_def bindE_eq_Inr by auto
  note tb = movement_tables_ok [OF m(1)]
  note key = operand_contained [OF document_key_operand [OF tb]]
  have zero: "js ''0'' = show_nat 0" by (subst show_nat.simps) (simp add: js_def)
  have line: "contained line"
    using m(3) key_column_quoted number_contained [of 0] operand_contained [OF alias_operand(2)]
    by (fastforce simp: bindE_eq_Inr zero split: option.splits)
  have items: "contained (js ''  SELECT '' @ join_comma (map (value_item vals) columns
      @ [show_nat index @ js '' AS __movement'', line @ js '' AS __line'']))"
    using item_contained [OF values_contained [OF m(2) tb assms(2)]] assms(3) line
    by (intro contained_prefix [OF select_fixed(3)] join_contained)
      (auto intro: contained_suffix number_contained select_fixed)
  have src: "contained src"
  proof (cases "tb_rows tb")
    case None
    then have "src = js ''  FROM '' @ qualified_table (tb_document tb) @ js '' d''" using m(4) by simp
    then show ?thesis
      using contained_prefix [OF select_fixed(6) contained_suffix [OF qualified_contained select_fixed(7)]] by simp
  next
    case (Some r)
    then obtain n where "src = js ''  FROM '' @ qualified_table r @ (js '' r'' @ 10 # js ''  JOIN '') @ qualified_table (tb_document tb)
        @ js '' d ON '' @ document_key tb @ js '' = r.'' @ quote_ident n"
      using m(4) key_column_quoted by (fastforce simp: bindE_eq_Inr)
    then show ?thesis
      using contained_prefix [OF select_fixed(6) contained_then [OF qualified_contained select_fixed(8)
        contained_then [OF qualified_contained select_fixed(9) contained_then [OF key select_fixed(13) quote_ident_contained]]]]
      by simp
  qed
  have "contained (js ''  WHERE '' @ document_key tb @ js '' = '' @ quote_ident name @ js ''.p_document_id'')"
    by (rule contained_prefix [OF select_fixed(11) contained_then [OF key aggregate_fixed(3)
      contained_suffix [OF quote_ident_contained select_fixed(12)]]])
  moreover have "\<forall>t \<in> set condition. contained t"
    using m(5) expression_contained [OF _ tb] join_lines by (auto simp: bindE_eq_Inr split: option.splits)
  ultimately show ?thesis unfolding m(6) using items src by (intro lines_contained) auto
qed

lemma unions_contained: "\<forall>q \<in> set qs. contained q \<Longrightarrow> contained (join_with (10 # js ''  UNION ALL'' @ [10]) qs)"
proof -
  let ?sep = "10 # js ''  UNION ALL'' @ [10]"
  have sep: "scans UNIV 0 ?sep free_units 0" by (rule calm_scans) (simp_all add: js_def free_units_def)
  have "contained []" by (auto simp: contained_def scans_def)
  then show "\<forall>q \<in> set qs. contained q \<Longrightarrow> contained (join_with ?sep qs)"
  proof (induction ?sep qs rule: join_with.induct)
    case (3 q r qs)
    then show ?case using contained_then [OF _ sep, of q "join_with ?sep (r # qs)"] by simp
  qed simp_all
qed

text \<open>
  C11. No name, literal, expression or time zone of the metadata leaves its place in the SQL of the
  movements: the query that the constructor generates closes every quote and parenthesis that it
  opens, and has no comment, no end of a statement and no dollar quote outside of quotes.
\<close>

theorem translate_movements_contained:
  assumes "translate_movements cx doc register indexes columns name = Inr q" "types_ok cx register"
    and "\<forall>c \<in> set columns. contained (mc_type c)"
  shows "contained q"
proof -
  obtain qs where qs: "mapE (\<lambda>i. movement_select cx doc register columns name i (po_movements doc ! i)) indexes = Inr qs"
      "q = js ''SELECT '' @ join_comma (map (\<lambda>c. js ''m.'' @ quote_ident (mc_name c)) columns) @ 10 # js ''FROM ('' @ 10
         # join_with (10 # js ''  UNION ALL'' @ [10]) qs @ 10 # js '') m'' @ 10 # js ''ORDER BY m.__movement, m.__line''"
    using assms(1) by (auto simp: translate_movements_def bindE_eq_Inr)
  have "\<forall>s \<in> set qs. contained s"
    using mapE_source [OF qs(1)] movement_select_contained [OF _ assms(2,3)] by blast
  then have inner: "contained (join_with (10 # js ''  UNION ALL'' @ [10]) qs)" by (rule unions_contained)
  have fixed: "scans free_units 0 (js ''SELECT '') free_units 0" "scans free_units 0 (js ''m.'') free_units 0"
      "scans UNIV 0 (10 # js ''FROM '') (insert 45 free_units) 0"
      "scans UNIV 0 (js '' m'' @ 10 # js ''ORDER BY m.__movement, m.__line'') UNIV 0"
    by (rule calm_scans; simp add: js_def free_units_def)+
  have list: "contained (join_comma (map (\<lambda>c. js ''m.'' @ quote_ident (mc_name c)) columns))"
    by (intro join_contained) (auto intro: contained_prefix fixed quote_ident_contained)
  have "scans free_units 0 (10 # join_with (10 # js ''  UNION ALL'' @ [10]) qs @ [10]) UNIV 0"
    using scans_append [OF calm_scans [of "[10]" free_units free_units] scans_append [OF inner [unfolded contained_def] calm_scans [of "[10]" UNIV UNIV]]]
    by (simp add: free_units_def)
  then have body: "contained (10 # join_with (10 # js ''  UNION ALL'' @ [10]) qs @ [10])" by (simp add: contained_def)
  have "scans UNIV 0 (10 # js ''FROM '' @ (40 # (10 # join_with (10 # js ''  UNION ALL'' @ [10]) qs @ [10]) @ [41])
      @ js '' m'' @ 10 # js ''ORDER BY m.__movement, m.__line'') UNIV 0"
    using scans_append [OF fixed(3) scans_append [OF wrap_operand [OF body, unfolded operand_text_def] fixed(4)]] by simp
  from scans_append [OF contained_prefix [OF fixed(1) list, unfolded contained_def] this]
  show ?thesis by (simp add: qs(2) contained_def js_def)
qed

definition sample_column :: "string \<Rightarrow> string \<Rightarrow> string \<Rightarrow> move_column" where
  "sample_column n t e =
     \<lparr>mc_name = js n, mc_type = js t, mc_element = (if e = [] then None else Some (js e)),
      mc_standard = (if e = [] then Some (js n) else None), mc_scope = None\<rparr>"

definition sample_document :: posting_object where
  "sample_document =
     \<lparr>po_id = js ''D'', po_file = js ''d.yaml'', po_key = (Document, js ''Order''),
      po_standard = [\<lparr>sd_name = js ''ref'', sd_shell = False, sd_singleton = False\<rparr>, \<lparr>sd_name = js ''date'', sd_shell = False, sd_singleton = False\<rparr>],
      po_rows = [], po_singleton = None, po_attributes = [(js ''x'', None)], po_label = None, po_periodicity = None, po_blocks = [],
      po_movements = [\<lparr>mv_section = False, mv_period = None, mv_type = None, mv_condition = Some (js ''not (doc.x = doc.x)''),
        mv_fields = [(js ''amount'', js ''-doc.x / 2'')]\<rparr>]\<rparr>"

definition sample_register :: posting_object where
  "sample_register =
     \<lparr>po_id = js ''R'', po_file = js ''r.yaml'', po_key = (AccumulationRegister, js ''Stock''),
      po_standard = [\<lparr>sd_name = js ''period'', sd_shell = False, sd_singleton = False\<rparr>], po_rows = [], po_singleton = None,
      po_attributes = [], po_label = None, po_periodicity = Some (js ''Month''), po_blocks = [], po_movements = []\<rparr>"

definition sample_context :: move_context where
  "sample_context =
     \<lparr>cx_objects = [sample_document, sample_register],
      cx_resolved = (\<lambda>f p r k. if r = PostingDocField then Some (js ''x'') else Some (js ''amount'')),
      cx_tables = [\<lparr>mt_schema = js ''app'', mt_name = js ''order'', mt_object = js ''D'', mt_section = None, mt_part = None,
          mt_columns = [sample_column ''ref'' ''uuid'' [], sample_column ''date'' ''date'' [], sample_column ''a; b--'' ''integer'' ''x'']\<rparr>,
        \<lparr>mt_schema = js ''app'', mt_name = js ''stock'', mt_object = js ''R'', mt_section = None, mt_part = None,
          mt_columns = [sample_column ''period'' ''date'' [], sample_column ''amount'' ''integer'' ''amount'']\<rparr>],
      cx_camel = True, cx_timezone = js ''Europe/Kyiv''\<rparr>"

lemma translate_movements_contained_witness:
  "\<exists>q. translate_movements sample_context sample_document sample_register [0] (mt_columns (cx_tables sample_context ! 1)) (js ''f'') = Inr q
     \<and> contained q"
proof -
  let ?t = "translate_movements sample_context sample_document sample_register [0] (mt_columns (cx_tables sample_context ! 1)) (js ''f'')"
  have "case_sum (\<lambda>_. False) (\<lambda>_. True) ?t = True" by code_simp
  then obtain q where q: "?t = Inr q" by (auto split: sum.splits)
  have types: "contained (js ''uuid'')" "contained (js ''date'')" "contained (js ''integer'')"
    unfolding contained_def by (rule calm_scans; simp add: js_def)+
  have "types_ok sample_context sample_register" "\<forall>c \<in> set (mt_columns (cx_tables sample_context ! 1)). contained (mc_type c)"
    using types by (simp_all add: types_ok_def sample_context_def sample_column_def sample_register_def js_def)
  from translate_movements_contained [OF q this] q show ?thesis by blast
qed

subsection \<open>The tag of the wrapper\<close>

lemma dollar_candidate_inj: "inj dollar_candidate"
proof
  fix m n
  assume eq: "dollar_candidate m = dollar_candidate n"
  have digits: "show_nat k \<noteq> []" for k by simp
  show "m = n"
  proof (cases "m = 0 \<or> n = 0")
    case True
    then show ?thesis using eq by (auto simp: dollar_candidate_def js_def split: if_splits)
  next
    case False
    then have "show_nat m = show_nat n" using eq by (simp add: dollar_candidate_def)
    then show ?thesis by (rule show_nat_inj)
  qed
qed

lemma finite_sublists: "finite {t. sublist t (body :: jstr)}"
  by (rule finite_subset [OF _ finite_lists_length_le [OF finite_set [of body]]])
    (auto dest: sublist_length_le set_mono_sublist)

interpretation tag: fresh_search dollar_candidate "\<lambda>t. sublist t body" for body
  using finite_vimageI [OF finite_sublists dollar_candidate_inj, of body]
  by unfold_locales (simp add: vimage_def)

text \<open>How PostgreSQL reads a dollar quote: the text up to the first place where the tag stands.\<close>

fun quoted_until :: "jstr \<Rightarrow> jstr \<Rightarrow> jstr option" where
  "quoted_until tag [] = None"
| "quoted_until tag (c # s) = (if prefix tag (c # s) then Some [] else map_option ((#) c) (quoted_until tag s))"

lemma quoted_until_first:
  assumes "tag \<noteq> []" "\<And>y z. x = y @ z \<Longrightarrow> z \<noteq> [] \<Longrightarrow> \<not> prefix tag (z @ tag @ r)"
  shows "quoted_until tag (x @ tag @ r) = Some x"
  using assms(2)
proof (induction x)
  case Nil
  obtain c t where "tag = c # t" using assms(1) by (cases tag) auto
  then show ?case by simp
next
  case (Cons c x)
  have "\<not> prefix tag ((c # x) @ tag @ r)" using Cons.prems [of "[]"] by simp
  moreover have "quoted_until tag (x @ tag @ r) = Some x"
    using Cons.prems [of "c # _"] by (intro Cons.IH) auto
  ultimately show ?case by simp
qed

lemma candidate_units: "10 \<notin> set (dollar_candidate n)" "\<exists>t. dollar_candidate n = 36 # t"
  using show_nat_digits [of n] by (auto simp: dollar_candidate_def js_def is_digit_def)

lemma tag_outside_body:
  assumes tag: "tag = dollar_candidate n" and free: "\<not> sublist tag body" and split: "10 # body @ [10] = y @ z" "z \<noteq> []"
  shows "\<not> prefix tag (z @ r)"
proof
  assume prefix: "prefix tag (z @ r)"
  obtain t where t: "tag = 36 # t" using candidate_units(2) tag by blast
  obtain u where u: "z = u @ [10]" using split by (metis append_butlast_last_id last.simps last_appendR list.distinct(1) last_snoc append_Cons)
  have "10 \<notin> set tag" using candidate_units(1) tag by simp
  have "prefix tag u"
  proof -
    have "prefix tag (u @ 10 # r)" using prefix u by simp
    then have "prefix tag u \<or> (\<exists>w. tag = u @ 10 # w)" by (auto simp: prefix_append prefix_Cons)
    then show ?thesis using \<open>10 \<notin> set tag\<close> by auto
  qed
  moreover have "suffix u (10 # body)" using split(1) u by (auto simp: suffix_def)
  ultimately have "sublist tag (10 # body)" by (meson prefix_imp_sublist sublist_order.order_trans suffix_imp_sublist)
  then have "prefix tag (10 # body) \<or> sublist tag body" by (simp add: sublist_Cons_right)
  then show False using free t by auto
qed

text \<open>
  C12. The wrapper around the SQL of a movement is closed by its own tag only: the search of the tag
  always ends, and the dollar quote that it opens is read by PostgreSQL as exactly the body between
  its line ends, whatever the author of a block or a literal wrote into it.
\<close>

theorem wrapper_sql_exact:
  "\<exists>tag. dollar_tag body = Some tag
     \<and> wrapper_sql doc name columns body = Some (wrapper_head doc name columns @ tag @ 10 # body @ 10 # tag @ js '';'')
     \<and> quoted_until tag (10 # body @ 10 # tag @ js '';'') = Some (10 # body @ [10])"
proof -
  obtain k where k: "dollar_tag body = Some (dollar_candidate k)" "\<not> sublist (dollar_candidate k) body"
    unfolding dollar_tag_def using tag.first_free [of body] by blast
  let ?tag = "dollar_candidate k"
  have "quoted_until ?tag ((10 # body @ [10]) @ ?tag @ js '';'') = Some (10 # body @ [10])"
    using candidate_units(2) [of k] tag_outside_body [OF refl k(2)] by (intro quoted_until_first) auto
  then show ?thesis using k(1) by (simp add: wrapper_sql_def)
qed

subsection \<open>Values for the columns of a field\<close>

text \<open>How many columns a value of a type has.\<close>

definition arity :: "inferred_type \<Rightarrow> nat" where
  "arity t = (if is_pair t then 2 else 1)"

definition is_field :: "expr \<Rightarrow> bool" where
  "is_field x \<longleftrightarrow> (\<exists>b n fs s e. x = Field b n fs s e)"

lemma typed_reference: "typed ctx x (IRef ts p) \<Longrightarrow> is_field x"
proof (induction x "IRef ts p" rule: typed.induct)
  case (sum sn fn ss fs s e)
  then show ?case by (simp add: fits_def)
next
  case (minus x s e)
  then show ?case by (simp add: fits_def)
qed (simp_all add: is_field_def)

lemma typed_null: "typed ctx x INull \<Longrightarrow> \<forall>n. ctx n \<noteq> INull \<Longrightarrow> is_null x"
proof (induction x INull rule: typed.induct)
  case (minus x s e)
  then show ?case by (simp add: fits_def)
qed (simp_all add: is_null_def fits_def)

text \<open>
  C15. What the type check lets through, the generator can write: for an expression with a known
  type that the field accepts, every column of the field gets a value; the label of the kind of
  the target is asked for only when a reference with one kind of target goes into a polymorphic
  field, and then the expression is a bare name.
\<close>

theorem checked_value_assigned:
  assumes "infer_type ctx x = ([], t)" "\<forall>n. ctx n \<noteq> INull" "t \<noteq> IUnknown" "field \<noteq> IUnknown" "accepts field t"
    and "length targets = arity field" "length sources = arity t"
  shows "(\<exists>vs. assign_columns targets x sources d = Inr vs \<and> length vs = length targets)
    \<or> is_field x \<and> is_pair field \<and> kind_of t = KRef \<and> \<not> is_pair t
      \<and> assign_columns targets x sources d = bindE d (\<lambda>l. Inr [l, hd sources])"
proof (cases "is_null x")
  case True
  then show ?thesis by (simp add: assign_columns_def)
next
  case False
  have typed: "typed ctx x t" using assms(1) by (simp add: infer_type_def closed_type_nil infer_typed)
  then have "t \<noteq> INull" using typed_null assms(2) False by blast
  then have kinds: "kind_of field = kind_of t" using assms(3-5) by (auto simp: accepts_def)
  have assign: "assign_columns targets x sources d =
      (if is_pair field = is_pair t then Inr sources
       else if is_pair field then bindE d (\<lambda>l. Inr [l, hd sources]) else Inr [sources ! 1])"
    using False assms(6,7) by (simp add: assign_columns_def arity_def)
  show ?thesis
  proof (cases "is_pair field = is_pair t")
    case True
    then show ?thesis using assign assms(6,7) by (simp add: arity_def)
  next
    case differ: False
    then have "is_pair field \<or> is_pair t" by blast
    then have "kind_of t = KRef" using kinds by (cases field; cases t) auto
    then obtain ts p where "t = IRef ts p" by (cases t) auto
    then have "is_field x" using typed_reference typed by blast
    then show ?thesis
      using differ assign assms(6) \<open>kind_of t = KRef\<close> by (cases "is_pair field") (auto simp: arity_def)
  qed
qed

lemma checked_value_assigned_witness:
  "\<exists>vs. assign_columns [sample_column ''a_type'' ''text'' ''a'', sample_column ''a_id'' ''uuid'' ''a'']
      (Field Doc (js ''x'') \<lparr>s_start = 4, s_end = 5\<rparr> 0 5) [js ''d.x_type'', js ''d.x_id''] (Inl []) = Inr vs \<and> length vs = 2"
proof -
  let ?x = "Field Doc (js ''x'') \<lparr>s_start = 4, s_end = 5\<rparr> 0 5" and ?t = "IRef [js ''c''] True"
  have "infer_type (\<lambda>_. ?t) ?x = ([], ?t)" by (simp add: infer_type_def closed_type_def)
  from checked_value_assigned [OF this, of ?t "[sample_column ''a_type'' ''text'' ''a'', sample_column ''a_id'' ''uuid'' ''a'']"
      "[js ''d.x_type'', js ''d.x_id'']" "Inl []"]
  show ?thesis unfolding numeral_2_eq_2 by (simp add: accepts_def arity_def list_all_iff)
qed

text \<open>
  An attribute without a type in expressions is accepted by every field, and for a polymorphic
  field the generator then reads the target of an attribute that has none.
\<close>

lemma unknown_value_crashes:
  assumes "cx_resolved cx (po_file doc) pointer PostingDocField (Some (s_start fs)) = Some i" "parse_standard_element i = None"
    and "find (\<lambda>a. fst a = i) (po_attributes doc) = Some (i, None)"
  shows "accepts field (type_of_logical TUUID [] False False)
    \<and> discriminator_of cx doc (Field Doc n fs s e) pointer = Inl (js ''TypeError'')"
  using assms by (simp add: accepts_def type_of_logical_def discriminator_of_def lookup_reference_def must_def)

end
